(* ===== verification/Prelude.thy ===== *)
theory Prelude
  imports Main "HOL-Library.Word"
begin

text \<open>
  The prelude of the development: the machine-integer types of the C sources, the lemma
  collections the component theories fill, single-bit masks, the count-leading-zeros and
  count-trailing-zeros routines of \<^verbatim>\<open>qemu/host-utils.h\<close>, byte-addressed memory with its
  little-endian loads and stores, and the result type of code that can raise a processor
  exception or run into undefined behaviour of C.
\<close>

unbundle bit_operations_syntax

section \<open>Types and lemma collections\<close>

type_synonym u8 = "8 word"
type_synonym u16 = "16 word"
type_synonym u32 = "32 word"
type_synonym u64 = "64 word"

text \<open>
  \<^verbatim>\<open>frame_simps\<close> holds the facts that an operation leaves a field alone, \<^verbatim>\<open>vector_simps\<close> the
  facts that read a bit array as a set of vectors, \<^verbatim>\<open>mask_simps\<close> the facts that read a
  mask test as a bit test.
\<close>

named_theorems frame_simps
named_theorems vector_simps
named_theorems mask_simps

section \<open>Single-bit masks\<close>

text \<open>The simplifier writes the mask \<open>push_bit n 1\<close>, C's \<open>1 << n\<close>, as \<open>2 ^ n\<close>.\<close>

lemma and_single_bit_eq_0 [mask_simps]:
  fixes w :: "'a::len word"
  shows "w AND 2 ^ n = 0 \<longleftrightarrow> \<not> bit w n"
  by (metis bit_iff_and_push_bit_not_eq_0 push_bit_of_1)

lemma bit_single_bit [mask_simps]:
  "bit (2 ^ n :: 'a::len word) k \<longleftrightarrow> k = n \<and> n < LENGTH('a)"
  by (auto simp: bit_simps)

lemma bit_and_not_single_bit [mask_simps]:
  fixes w :: "'a::len word"
  shows "bit (w AND NOT (2 ^ n)) k \<longleftrightarrow> bit w k \<and> k \<noteq> n"
  by (auto simp: bit_simps dest: bit_imp_le_length)

lemma word_neq_0_bit:
  fixes w :: "'a::len word"
  shows "w \<noteq> 0 \<longleftrightarrow> (\<exists>n. bit w n)"
  by (metis bit_eq_iff bit_0_eq bot_apply bot_bool_def)

text \<open>Testing a word against a mask that has exactly bit \<open>n\<close>.\<close>

lemma and_mask_test:
  fixes w :: "'a::len word"
  assumes "m = 2 ^ n"
  shows "w AND m = 0 \<longleftrightarrow> \<not> bit w n"
  by (simp add: assms mask_simps)

lemma ucast_up_down [simp]:
  fixes w :: "'a::len word"
  assumes "LENGTH('a) \<le> LENGTH('b)"
  shows "ucast (ucast w :: 'b::len word) = w"
  using assms by (intro bit_word_eqI) (auto simp: bit_simps)

lemma ucast_drop_up_down [simp]:
  fixes w :: "'a::len word"
  assumes "LENGTH('a) \<le> LENGTH('b)"
  shows "ucast (drop_bit n (ucast w :: 'b::len word)) = drop_bit n w"
  using assms by (intro bit_word_eqI) (auto simp: bit_simps dest: bit_imp_le_length)

lemma ucast_trans [simp]:
  fixes w :: "'a::len word"
  assumes "LENGTH('a) \<le> LENGTH('b)"
  shows "ucast (ucast w :: 'b::len word) = (ucast w :: 'c::len word)"
  using assms by (intro bit_word_eqI) (auto simp: bit_simps dest: bit_imp_le_length)

text \<open>The bits of a concrete word, listed.\<close>

lemma bit_iff_listed:
  fixes w :: "'a::len word"
  assumes "filter (bit w) [0..<LENGTH('a)] = ks"
  shows "bit w j \<longleftrightarrow> j \<in> set ks"
  using bit_imp_le_length [of w j] by (auto simp flip: assms)

lemma unat_bound:
  fixes w :: "'a::len word"
  shows "unat w < 2 ^ LENGTH('a)"
  by (fact unsigned_less)

section \<open>Leading and trailing zeros\<close>

text \<open>
  \<^verbatim>\<open>clz32\<close>, \<^verbatim>\<open>clz64\<close> and \<^verbatim>\<open>ctz32\<close> return the width when the value is zero; otherwise they
  count the clear bits above the highest and below the lowest set bit.
\<close>

definition clz :: "'a::len word \<Rightarrow> nat" where
  "clz w = length (takeWhile Not (rev (map (bit w) [0..<LENGTH('a)])))"

definition ctz :: "'a::len word \<Rightarrow> nat" where
  "ctz w = length (takeWhile Not (map (bit w) [0..<LENGTH('a)]))"

lemma takeWhile_length_bound:
  assumes "n = length (takeWhile P xs)"
  shows "n \<le> length xs" and "n < length xs \<Longrightarrow> \<not> P (xs ! n)" and "k < n \<Longrightarrow> P (xs ! k)"
  using assms
    by (auto simp: length_takeWhile_le nth_length_takeWhile)
       (metis nth_mem set_takeWhileD takeWhile_nth)

lemma clz_le:
  fixes w :: "'a::len word"
  shows "clz w \<le> LENGTH('a)"
  using takeWhile_length_bound(1) [of "clz w" Not "rev (map (bit w) [0..<LENGTH('a)])"]
  by (simp add: clz_def)

lemma clz_zero [simp]: "clz (0 :: 'a::len word) = LENGTH('a)"
proof -
  have "takeWhile Not (replicate n False) = replicate n False" for n
    by (simp add: takeWhile_eq_all_conv)
  moreover have "map (bit (0 :: 'a word)) [0..<LENGTH('a)] = replicate LENGTH('a) False"
    by (rule nth_equalityI) auto
  ultimately show ?thesis by (simp only: clz_def rev_replicate length_replicate)
qed

text \<open>The highest set bit of a non-zero word is \<open>LENGTH('a) - 1 - clz w\<close>.\<close>

lemma clz_nonzero:
  fixes w :: "'a::len word"
  assumes "w \<noteq> 0"
  shows "clz w < LENGTH('a)" and "bit w (LENGTH('a) - 1 - clz w)"
    and "LENGTH('a) - 1 - clz w < k \<Longrightarrow> \<not> bit w k"
proof -
  let ?xs = "rev (map (bit w) [0..<LENGTH('a)])"
  have nth: "?xs ! i = bit w (LENGTH('a) - 1 - i)" if "i < LENGTH('a)" for i
    using that by (simp add: rev_nth)
  from assms obtain n where n: "bit w n" by (auto simp: word_neq_0_bit)
  then have nb: "n < LENGTH('a)" by (rule bit_imp_le_length)
  show lt: "clz w < LENGTH('a)"
  proof (rule ccontr)
    assume "\<not> clz w < LENGTH('a)"
    then have "LENGTH('a) - 1 - n < clz w" using nb by simp
    then have "\<not> ?xs ! (LENGTH('a) - 1 - n)"
      using takeWhile_length_bound(3) [of "clz w" Not ?xs "LENGTH('a) - 1 - n"]
      by (simp add: clz_def)
    then show False using n nb nth [of "LENGTH('a) - 1 - n"] by simp
  qed
  have "?xs ! clz w"
    using takeWhile_length_bound(2) [of "clz w" Not ?xs] lt by (simp add: clz_def)
  then show "bit w (LENGTH('a) - 1 - clz w)" using nth [OF lt] by simp
  show "\<not> bit w k" if k: "LENGTH('a) - 1 - clz w < k"
  proof
    assume b: "bit w k"
    then have kb: "k < LENGTH('a)" by (rule bit_imp_le_length)
    then have "LENGTH('a) - 1 - k < clz w" using k by simp
    then have "\<not> ?xs ! (LENGTH('a) - 1 - k)"
      using takeWhile_length_bound(3) [of "clz w" Not ?xs "LENGTH('a) - 1 - k"]
      by (simp add: clz_def)
    then show False using b kb nth [of "LENGTH('a) - 1 - k"] by simp
  qed
qed

lemma ctz_nonzero:
  fixes w :: "'a::len word"
  assumes "w \<noteq> 0"
  shows "ctz w < LENGTH('a)" and "bit w (ctz w)" and "k < ctz w \<Longrightarrow> \<not> bit w k"
proof -
  let ?xs = "map (bit w) [0..<LENGTH('a)]"
  from assms obtain n where n: "bit w n" by (auto simp: word_neq_0_bit)
  then have nb: "n < LENGTH('a)" by (rule bit_imp_le_length)
  show lt: "ctz w < LENGTH('a)"
  proof (rule ccontr)
    assume "\<not> ctz w < LENGTH('a)"
    then have "n < ctz w" using nb by simp
    then show False
      using takeWhile_length_bound(3) [of "ctz w" Not ?xs n] n nb by (simp add: ctz_def)
  qed
  then show "bit w (ctz w)"
    using takeWhile_length_bound(2) [of "ctz w" Not ?xs] by (simp add: ctz_def)
  show "\<not> bit w k" if "k < ctz w"
    using takeWhile_length_bound(3) [of "ctz w" Not ?xs k] that lt by (simp add: ctz_def)
qed

section \<open>Byte-addressed memory\<close>

type_synonym mem = "u64 \<Rightarrow> u8"

primrec le_word :: "u8 list \<Rightarrow> 'a::len word" where
  "le_word [] = 0"
| "le_word (b # bs) = ucast b OR push_bit 8 (le_word bs)"

primrec le_bytes :: "nat \<Rightarrow> 'a::len word \<Rightarrow> u8 list" where
  "le_bytes 0 w = []"
| "le_bytes (Suc n) w = ucast w # le_bytes n (drop_bit 8 w)"

definition load_bytes :: "mem \<Rightarrow> u64 \<Rightarrow> nat \<Rightarrow> u8 list" where
  "load_bytes m a n = map (\<lambda>i. m (a + of_nat i)) [0..<n]"

definition store_bytes :: "mem \<Rightarrow> u64 \<Rightarrow> u8 list \<Rightarrow> mem" where
  "store_bytes m a bs = (\<lambda>x. if unat (x - a) < length bs then bs ! unat (x - a) else m x)"

definition ldl_le :: "mem \<Rightarrow> u64 \<Rightarrow> u32" where
  "ldl_le m a = le_word (load_bytes m a 4)"

definition ldq_le :: "mem \<Rightarrow> u64 \<Rightarrow> u64" where
  "ldq_le m a = le_word (load_bytes m a 8)"

definition stl_le :: "mem \<Rightarrow> u64 \<Rightarrow> u32 \<Rightarrow> mem" where
  "stl_le m a v = store_bytes m a (le_bytes 4 v)"

definition stq_le :: "mem \<Rightarrow> u64 \<Rightarrow> u64 \<Rightarrow> mem" where
  "stq_le m a v = store_bytes m a (le_bytes 8 v)"

lemma length_le_bytes [simp]: "length (le_bytes n w) = n"
  by (induction n arbitrary: w) auto

lemma length_load_bytes [simp]: "length (load_bytes m a n) = n"
  by (simp add: load_bytes_def)

lemma le_word_le_bytes: "le_word (le_bytes n w) = take_bit (8 * n) w" for w :: "'a::len word"
proof (induction n arbitrary: w)
  case (Suc n)
  show ?case
    by (rule bit_word_eqI) (auto simp: Suc bit_simps)
qed simp

lemma le_word_le_bytes_full:
  "LENGTH('a) \<le> 8 * n \<Longrightarrow> le_word (le_bytes n w) = w" for w :: "'a::len word"
  by (simp add: le_word_le_bytes take_bit_word_eq_self)

text \<open>Two ranges of memory are apart when neither start lies in the other range.\<close>

definition apart :: "u64 \<Rightarrow> nat \<Rightarrow> u64 \<Rightarrow> nat \<Rightarrow> bool" where
  "apart a n b k \<longleftrightarrow> n \<le> unat (b - a) \<and> k \<le> unat (a - b)"

lemma load_store_same:
  "length bs = n \<Longrightarrow> n \<le> 2 ^ 64 \<Longrightarrow> load_bytes (store_bytes m a bs) a n = bs"
  by (auto simp: load_bytes_def store_bytes_def unat_of_nat intro!: nth_equalityI)

lemma load_store_apart:
  assumes "apart a (length bs) b k"
  shows "load_bytes (store_bytes m a bs) b k = load_bytes m b k"
proof -
  have "length bs \<le> unat (b + of_nat i - a)" if i: "i < k" for i
  proof (cases "b = a")
    case True
    with assms i show ?thesis by (simp add: apart_def)
  next
    case False
    then have "unat a \<noteq> unat b" by (simp add: word_unat_eq_iff)
    then have "unat (b - a) + unat (a - b) = 2 ^ 64"
      using unat_bound [of a] unat_bound [of b] by (simp add: unat_sub_if' split: if_splits)
    with assms i have lt: "unat (b - a) + i < 2 ^ 64" by (simp add: apart_def)
    have "b + of_nat i - a = of_nat (unat (b - a) + i)" by simp
    then have "unat (b + of_nat i - a) = unat (b - a) + i"
      using lt by (simp only: unat_of_nat) simp
    with assms show ?thesis by (simp add: apart_def)
  qed
  then show ?thesis by (auto simp: load_bytes_def store_bytes_def simp flip: not_less)
qed

lemma ldq_stq_same [simp]: "ldq_le (stq_le m a v) a = v"
  by (simp add: ldq_le_def stq_le_def load_store_same le_word_le_bytes_full)

lemma ldl_stl_same [simp]: "ldl_le (stl_le m a v) a = v"
  by (simp add: ldl_le_def stl_le_def load_store_same le_word_le_bytes_full)

lemma ldq_stq_apart: "apart a 8 b 8 \<Longrightarrow> ldq_le (stq_le m a v) b = ldq_le m b"
  by (simp add: ldq_le_def stq_le_def load_store_apart)

section \<open>Results\<close>

text \<open>
  The outcome of a routine on a state: it returns a value, it leaves by a processor exception
  with a vector and an error code, it leaves the guest for its hypervisor, or it executes an
  operation the C standard leaves undefined (a shift by at least the width of its operand, a
  read of an uninitialised variable). The two non-local exits keep the state they leave.
\<close>

datatype ('v, 's) outcome =
  Done 'v 's | Raise nat u32 's | Vmexit u32 u64 's | Undefined

primrec bind_outcome ::
    "('v, 's) outcome \<Rightarrow> ('v \<Rightarrow> 's \<Rightarrow> ('w, 's) outcome) \<Rightarrow> ('w, 's) outcome" where
  "bind_outcome (Done x s) f = f x s"
| "bind_outcome (Raise n e s) f = Raise n e s"
| "bind_outcome (Vmexit n i s) f = Vmexit n i s"
| "bind_outcome Undefined f = Undefined"

lemma bind_outcome_Done_iff:
  "bind_outcome x f = Done z t \<longleftrightarrow> (\<exists>y s. x = Done y s \<and> f y s = Done z t)"
  by (cases x) auto

lemma bind_outcome_Raise_iff:
  "bind_outcome x f = Raise n e t \<longleftrightarrow>
     x = Raise n e t \<or> (\<exists>y s. x = Done y s \<and> f y s = Raise n e t)"
  by (cases x) auto

lemma bind_outcome_assoc:
  "bind_outcome (bind_outcome x f) g = bind_outcome x (\<lambda>y s. bind_outcome (f y s) g)"
  by (cases x) auto

lemma bind_outcome_Done_right [simp]: "bind_outcome x Done = x"
  by (cases x) auto

text \<open>
  A relation between the first and the last state of a routine that stays in the guest,
  whether it returns or raises.
\<close>

primrec keeps :: "('s \<Rightarrow> 's \<Rightarrow> bool) \<Rightarrow> 's \<Rightarrow> ('v, 's) outcome \<Rightarrow> bool" where
  "keeps R s (Done x t) = R s t"
| "keeps R s (Raise n e t) = R s t"
| "keeps R s (Vmexit n i t) = True"
| "keeps R s Undefined = True"

lemma keeps_bind:
  assumes "transp R" and "keeps R s r" and "\<And>x t. r = Done x t \<Longrightarrow> keeps R t (f x t)"
  shows "keeps R s (bind_outcome r f)"
proof (cases r)
  case (Done x t)
  with assms have "R s t" "keeps R t (f x t)" by auto
  then show ?thesis
    using transpD [OF assms(1)] Done by (cases "f x t") auto
qed (use assms in auto)

section \<open>Bits of bytes\<close>

lemma bit_le_word:
  "bit (le_word bs :: 'a::len word) n \<longleftrightarrow>
     n < LENGTH('a) \<and> n div 8 < length bs \<and> bit (bs ! (n div 8)) (n mod 8)"
proof (induction bs arbitrary: n)
  case (Cons b bs)
  show ?case
  proof (cases "n < 8")
    case True
    then show ?thesis by (auto simp: bit_simps)
  next
    case False
    then obtain k where "n = 8 + k" using le_Suc_ex not_less by blast
    moreover have "(8 + k) div 8 = Suc (k div 8)" by simp
    ultimately show ?thesis
      using bit_imp_le_length [of b n] by (auto simp: bit_simps Cons.IH simp del: div_add_self1)
  qed
qed simp

lemma nth_le_bytes: "j < n \<Longrightarrow> le_bytes n w ! j = ucast (drop_bit (8 * j) w)" for w :: "'a::len word"
proof (induction n arbitrary: w j)
  case (Suc n)
  then show ?case
    by (cases j) (auto intro!: bit_word_eqI simp: bit_simps ac_simps)
qed simp

end
