(* ===== verification/CPU_State.thy ===== *)
theory CPU_State
  imports Prelude
begin

text \<open>
  The processor state the interrupt and address-translation code works on: the fields of
  \<^verbatim>\<open>CPUX86State\<close> and \<^verbatim>\<open>CPUState\<close> it reads or writes (\<^verbatim>\<open>target/i386/cpu.h\<close>), with the
  inline routines on flags and segment caches. The lazily evaluated condition codes
  (\<^verbatim>\<open>cc_op\<close>, \<^verbatim>\<open>cc_src\<close>, \<^verbatim>\<open>cc_dst\<close>) are represented by the flag word \<open>cc_flags\<close> that
  \<^verbatim>\<open>cpu_cc_compute_all\<close> computes from them.
\<close>

section \<open>Records\<close>

record SegmentCache =
  selector :: u32
  base :: u64
  limit :: u32
  seg_flags :: u32

record CPUX86State =
  regs :: "nat \<Rightarrow> u64"
  eip :: u64
  eflags :: u64
  cc_flags :: u32
  df :: u32
  hflags :: u32
  hflags2 :: u32
  segs :: "nat \<Rightarrow> SegmentCache"
  ldt :: SegmentCache
  tr :: SegmentCache
  gdt :: SegmentCache
  idt :: SegmentCache
  cr :: "nat \<Rightarrow> u64"
  a20_mask :: u32
  bndcs_cfgu :: u64
  msr_bndcfgs :: u64
  efer :: u64
  uintr_rr :: u64
  uintr_handler :: u64
  uintr_stackadjust :: u64
  uintr_misc :: u64
  uintr_pd :: u64
  uintr_tt :: u64
  uintr_uif :: u64
  xcr0 :: u64
  pkru :: u32
  pkrs :: u32
  error_code :: u32
  vm_vmcb :: u64
  intercept_exceptions :: u32
  nested_cr3 :: u64
  nested_pg_mode :: u32
  features_1_edx :: u32
  phys_bits :: nat

record CPUState =
  interrupt_request :: u32
  halted :: bool
  kicked :: bool
  icount_exit :: bool
  env :: CPUX86State

abbreviation (input) R_EAX :: nat where "R_EAX \<equiv> 0"
abbreviation (input) R_ESP :: nat where "R_ESP \<equiv> 4"
abbreviation (input) R_R12 :: nat where "R_R12 \<equiv> 12"
abbreviation (input) R_ES :: nat where "R_ES \<equiv> 0"
abbreviation (input) R_CS :: nat where "R_CS \<equiv> 1"
abbreviation (input) R_SS :: nat where "R_SS \<equiv> 2"
abbreviation (input) R_DS :: nat where "R_DS \<equiv> 3"

abbreviation (input) CPU_INTERRUPT_HARD :: u32 where "CPU_INTERRUPT_HARD \<equiv> 0x0002"
abbreviation (input) CPU_INTERRUPT_POLL :: u32 where "CPU_INTERRUPT_POLL \<equiv> 0x0010"
abbreviation (input) CPU_INTERRUPT_SMI :: u32 where "CPU_INTERRUPT_SMI \<equiv> 0x0040"
abbreviation (input) CPU_INTERRUPT_VIRQ :: u32 where "CPU_INTERRUPT_VIRQ \<equiv> 0x0100"
abbreviation (input) CPU_INTERRUPT_NMI :: u32 where "CPU_INTERRUPT_NMI \<equiv> 0x0200"
abbreviation (input) CPU_INTERRUPT_INIT :: u32 where "CPU_INTERRUPT_INIT \<equiv> 0x0400"
abbreviation (input) CPU_INTERRUPT_SIPI :: u32 where "CPU_INTERRUPT_SIPI \<equiv> 0x0800"
abbreviation (input) CPU_INTERRUPT_MCE :: u32 where "CPU_INTERRUPT_MCE \<equiv> 0x1000"

text \<open>Bit numbers (the \<^verbatim>\<open>_SHIFT\<close> constants) of the hidden flags and control registers.\<close>

abbreviation (input) HF_INHIBIT_IRQ_SHIFT :: nat where "HF_INHIBIT_IRQ_SHIFT \<equiv> 3"
abbreviation (input) HF_CS32_SHIFT :: nat where "HF_CS32_SHIFT \<equiv> 4"
abbreviation (input) HF_SS32_SHIFT :: nat where "HF_SS32_SHIFT \<equiv> 5"
abbreviation (input) HF_ADDSEG_SHIFT :: nat where "HF_ADDSEG_SHIFT \<equiv> 6"
abbreviation (input) HF_LMA_SHIFT :: nat where "HF_LMA_SHIFT \<equiv> 14"
abbreviation (input) HF_CS64_SHIFT :: nat where "HF_CS64_SHIFT \<equiv> 15"
abbreviation (input) HF_SMM_SHIFT :: nat where "HF_SMM_SHIFT \<equiv> 19"
abbreviation (input) HF_GUEST_SHIFT :: nat where "HF_GUEST_SHIFT \<equiv> 21"
abbreviation (input) HF_MPX_EN_SHIFT :: nat where "HF_MPX_EN_SHIFT \<equiv> 25"
abbreviation (input) HF2_GIF_SHIFT :: nat where "HF2_GIF_SHIFT \<equiv> 0"
abbreviation (input) HF2_HIF_SHIFT :: nat where "HF2_HIF_SHIFT \<equiv> 1"
abbreviation (input) HF2_NMI_SHIFT :: nat where "HF2_NMI_SHIFT \<equiv> 2"
abbreviation (input) HF2_VINTR_SHIFT :: nat where "HF2_VINTR_SHIFT \<equiv> 3"
abbreviation (input) HF2_MPX_PR_SHIFT :: nat where "HF2_MPX_PR_SHIFT \<equiv> 5"
abbreviation (input) HF2_NPT_SHIFT :: nat where "HF2_NPT_SHIFT \<equiv> 6"
abbreviation (input) HF2_VGIF_SHIFT :: nat where "HF2_VGIF_SHIFT \<equiv> 8"
abbreviation (input) IF_SHIFT :: nat where "IF_SHIFT \<equiv> 9"
abbreviation (input) VM_SHIFT :: nat where "VM_SHIFT \<equiv> 17"

abbreviation cpl_of :: "CPUX86State \<Rightarrow> u32" where "cpl_of e \<equiv> hflags e AND 3"

section \<open>Flags\<close>

text \<open>\<^verbatim>\<open>CC_O | CC_S | CC_Z | CC_A | CC_P | CC_C\<close>.\<close>

abbreviation (input) CC_MASK :: u32 where "CC_MASK \<equiv> 0x08d5"
abbreviation (input) CC_C :: u32 where "CC_C \<equiv> 1"

definition cpu_compute_eflags :: "CPUX86State \<Rightarrow> u32" where
  "cpu_compute_eflags e = ucast (eflags e) OR cc_flags e OR (df e AND 0x400)"

text \<open>
  \<^verbatim>\<open>CC_SRC = eflags & CC_MASK\<close> with \<^verbatim>\<open>CC_OP = CC_OP_EFLAGS\<close> makes the computed condition
  codes \<^verbatim>\<open>eflags & CC_MASK\<close>; the direction is kept as 1 or -1.
\<close>

definition cpu_load_eflags :: "CPUX86State \<Rightarrow> u32 \<Rightarrow> u32 \<Rightarrow> CPUX86State" where
  "cpu_load_eflags e efl update_mask =
     (let e1 = e\<lparr>cc_flags := efl AND CC_MASK,
                 df := 1 - 2 * (drop_bit 10 efl AND 1)\<rparr>
      in e1\<lparr>eflags := (eflags e1 AND NOT (ucast update_mask)) OR (ucast (efl AND update_mask)) OR 2\<rparr>)"

section \<open>Segment caches\<close>

definition cpu_sync_bndcs_hflags :: "CPUX86State \<Rightarrow> CPUX86State" where
  "cpu_sync_bndcs_hflags e =
     (let bndcsr = ucast (if cpl_of e = 3 then bndcs_cfgu e else msr_bndcfgs e) :: u32;
          en = bit (cr e 4) 18 \<and> bit (xcr0 e) 4 \<and> bit bndcsr 0
      in e\<lparr>hflags := (if en then hflags e OR push_bit HF_MPX_EN_SHIFT 1
                      else hflags e AND NOT (push_bit HF_MPX_EN_SHIFT 1)),
           hflags2 := (if bit bndcsr 1 then hflags2 e OR push_bit HF2_MPX_PR_SHIFT 1
                       else hflags2 e AND NOT (push_bit HF2_MPX_PR_SHIFT 1))\<rparr>)"

text \<open>\<^verbatim>\<open>DESC_B_SHIFT\<close> is 22, \<^verbatim>\<open>DESC_L_SHIFT\<close> 21 and \<^verbatim>\<open>DESC_DPL_SHIFT\<close> 13.\<close>

definition cpu_x86_load_seg_cache ::
    "CPUX86State \<Rightarrow> nat \<Rightarrow> u32 \<Rightarrow> u64 \<Rightarrow> u32 \<Rightarrow> u32 \<Rightarrow> CPUX86State" where
  "cpu_x86_load_seg_cache e seg_reg sel bas lim flg =
     (let e1 = e\<lparr>segs := (segs e)(seg_reg :=
                   \<lparr>selector = sel, base = bas, limit = lim, seg_flags = flg\<rparr>)\<rparr>;
          e2 = (if seg_reg = R_CS then
                  (if bit (hflags e1) HF_LMA_SHIFT \<and> bit flg 21
                   then e1\<lparr>hflags := (hflags e1 OR 0x8030) AND NOT (push_bit HF_ADDSEG_SHIFT 1)\<rparr>
                   else e1\<lparr>hflags := (hflags e1 AND NOT 0x8010)
                            OR drop_bit (22 - HF_CS32_SHIFT) (flg AND push_bit 22 1)\<rparr>)
                else e1);
          e3 = (if seg_reg = R_SS then
                  cpu_sync_bndcs_hflags
                    (e2\<lparr>hflags := (hflags e2 AND NOT 3) OR (drop_bit 13 flg AND 3)\<rparr>)
                else e2);
          nh = drop_bit (22 - HF_SS32_SHIFT) (seg_flags (segs e3 R_SS) AND push_bit 22 1);
          nh' = (if bit (hflags e3) HF_CS64_SHIFT then nh
                 else if \<not> bit (cr e3 0) 0 \<or> bit (eflags e3) VM_SHIFT
                      \<or> \<not> bit (hflags e3) HF_CS32_SHIFT
                 then nh OR push_bit HF_ADDSEG_SHIFT 1
                 else nh OR (if base (segs e3 R_DS) OR base (segs e3 R_ES) OR base (segs e3 R_SS) \<noteq> 0
                             then push_bit HF_ADDSEG_SHIFT 1 else 0))
      in e3\<lparr>hflags := (hflags e3 AND NOT 0x60) OR nh'\<rparr>)"

text \<open>\<^verbatim>\<open>vec\<close> is the \<^verbatim>\<open>uint8_t\<close> vector of the start-up message.\<close>

definition cpu_x86_load_seg_cache_sipi :: "CPUState \<Rightarrow> u8 \<Rightarrow> CPUState" where
  "cpu_x86_load_seg_cache_sipi cs vec =
     (let e = (env cs)\<lparr>eip := 0\<rparr>
      in cs\<lparr>env := cpu_x86_load_seg_cache e R_CS (push_bit 8 (ucast vec)) (push_bit 12 (ucast vec))
                     (limit (segs e R_CS)) (seg_flags (segs e R_CS)),
            halted := False\<rparr>)"

section \<open>Pending interrupts\<close>

text \<open>
  Which of the requested interrupts the processor takes next; 0 for none. The order of the
  tests is the priority of the sources.
\<close>

definition x86_cpu_pending_interrupt :: "CPUX86State \<Rightarrow> u32 \<Rightarrow> u32" where
  "x86_cpu_pending_interrupt e req =
     (if req AND CPU_INTERRUPT_POLL \<noteq> 0 then CPU_INTERRUPT_POLL
      else if req AND CPU_INTERRUPT_SIPI \<noteq> 0 then CPU_INTERRUPT_SIPI
      else if bit (hflags2 e) HF2_GIF_SHIFT then
        if req AND CPU_INTERRUPT_SMI \<noteq> 0 \<and> \<not> bit (hflags e) HF_SMM_SHIFT then CPU_INTERRUPT_SMI
        else if req AND CPU_INTERRUPT_NMI \<noteq> 0 \<and> \<not> bit (hflags2 e) HF2_NMI_SHIFT
        then CPU_INTERRUPT_NMI
        else if req AND CPU_INTERRUPT_MCE \<noteq> 0 then CPU_INTERRUPT_MCE
        else if req AND CPU_INTERRUPT_HARD \<noteq> 0 \<and>
          (bit (hflags2 e) HF2_VINTR_SHIFT \<and> bit (hflags2 e) HF2_HIF_SHIFT \<or>
           \<not> bit (hflags2 e) HF2_VINTR_SHIFT \<and>
             bit (eflags e) IF_SHIFT \<and> \<not> bit (hflags e) HF_INHIBIT_IRQ_SHIFT)
        then CPU_INTERRUPT_HARD
        else if bit (hflags2 e) HF2_VGIF_SHIFT \<and> req AND CPU_INTERRUPT_VIRQ \<noteq> 0
          \<and> bit (eflags e) IF_SHIFT \<and> \<not> bit (hflags e) HF_INHIBIT_IRQ_SHIFT
        then CPU_INTERRUPT_VIRQ
        else 0
      else 0)"

end
