(* ===== verification/Vector_Bits.thy ===== *)
theory Vector_Bits
  imports Prelude
begin

text \<open>
  The 256-bit vector arrays of the local APIC (\<^verbatim>\<open>irr\<close>, \<^verbatim>\<open>isr\<close>, \<^verbatim>\<open>tmr\<close> and the delivery
  bitmasks): eight 32-bit words with the bit routines of \<^verbatim>\<open>apic_internal.h\<close> and \<^verbatim>\<open>apic.c\<close>.
  The locale \<open>vector_file\<close> states what the interrupt logic relies on, a finite set of
  vectors with a largest element; its interpretation shows that the arrays provide it.
\<close>

section \<open>The routines\<close>

type_synonym vectab = "u32 list"

definition apic_fls_bit :: "u32 \<Rightarrow> int" where
  "apic_fls_bit value = 31 - int (clz value)"

definition apic_ffs_bit :: "u32 \<Rightarrow> int" where
  "apic_ffs_bit value = int (ctz value)"

definition apic_set_bit :: "vectab \<Rightarrow> nat \<Rightarrow> vectab" where
  "apic_set_bit tab index =
     (let i = index div 32; msk = push_bit (index mod 32) 1
      in tab[i := tab ! i OR msk])"

definition apic_reset_bit :: "vectab \<Rightarrow> nat \<Rightarrow> vectab" where
  "apic_reset_bit tab index =
     (let i = index div 32; msk = push_bit (index mod 32) 1
      in tab[i := tab ! i AND NOT msk])"

definition apic_get_bit :: "vectab \<Rightarrow> nat \<Rightarrow> bool" where
  "apic_get_bit tab index =
     (let i = index div 32; msk = push_bit (index mod 32) 1
      in tab ! i AND msk \<noteq> 0)"

text \<open>The loop \<^verbatim>\<open>for (i = 7; i >= 0; i--)\<close>, as a recursion on the number of words left.\<close>

fun highest_from :: "vectab \<Rightarrow> nat \<Rightarrow> int" where
  "highest_from tab 0 = -1"
| "highest_from tab (Suc i) =
     (if tab ! i \<noteq> 0 then int (i * 32) + apic_fls_bit (tab ! i) else highest_from tab i)"

definition get_highest_priority_int :: "vectab \<Rightarrow> int" where
  "get_highest_priority_int tab = highest_from tab 8"

section \<open>The array as a set of vectors\<close>

definition wf_vectab :: "vectab \<Rightarrow> bool" where
  "wf_vectab tab \<longleftrightarrow> length tab = 8"

definition vectors :: "vectab \<Rightarrow> nat set" where
  "vectors tab = {v. v < 256 \<and> bit (tab ! (v div 32)) (v mod 32)}"

lemma finite_vectors [simp]: "finite (vectors tab)"
  by (rule finite_subset [of _ "{..<256}"]) (auto simp: vectors_def)

lemma vectors_bound: "v \<in> vectors tab \<Longrightarrow> v < 256"
  by (simp add: vectors_def)

lemma vectors_none: "vectors (replicate 8 0) = {}"
  by (auto simp: vectors_def)

lemma wf_vectab_none: "wf_vectab (replicate 8 w)"
  by (simp add: wf_vectab_def)

lemma wf_apic_set_bit [simp]: "wf_vectab (apic_set_bit tab v) = wf_vectab tab"
  by (simp add: wf_vectab_def apic_set_bit_def Let_def)

lemma wf_apic_reset_bit [simp]: "wf_vectab (apic_reset_bit tab v) = wf_vectab tab"
  by (simp add: wf_vectab_def apic_reset_bit_def Let_def)

lemma div_mod_32_eq: "v div 32 = k div 32 \<Longrightarrow> v mod 32 = k mod 32 \<Longrightarrow> v = (k::nat)"
  by (metis div_mult_mod_eq)

lemma vectors_set_bit [vector_simps]:
  assumes "wf_vectab tab" and "v < 256"
  shows "vectors (apic_set_bit tab v) = insert v (vectors tab)"
proof (rule set_eqI)
  fix k
  have "v div 32 < 8" using assms(2) by simp
  then show "k \<in> vectors (apic_set_bit tab v) \<longleftrightarrow> k \<in> insert v (vectors tab)"
    using assms div_mod_32_eq [of k v]
    by (cases "k div 32 = v div 32")
       (auto simp: vectors_def apic_set_bit_def Let_def wf_vectab_def mask_simps bit_or_iff nth_list_update)
qed

lemma vectors_reset_bit [vector_simps]:
  assumes "wf_vectab tab" and "v < 256"
  shows "vectors (apic_reset_bit tab v) = vectors tab - {v}"
proof (rule set_eqI)
  fix k
  have "v div 32 < 8" using assms(2) by simp
  then show "k \<in> vectors (apic_reset_bit tab v) \<longleftrightarrow> k \<in> vectors tab - {v}"
    using assms div_mod_32_eq [of k v]
    by (cases "k div 32 = v div 32")
       (auto simp: vectors_def apic_reset_bit_def Let_def wf_vectab_def mask_simps nth_list_update)
qed

lemma apic_get_bit_iff [vector_simps]: "v < 256 \<Longrightarrow> apic_get_bit tab v \<longleftrightarrow> v \<in> vectors tab"
  by (simp add: apic_get_bit_def vectors_def mask_simps)

lemma apic_fls_bit_nonzero:
  assumes "w \<noteq> 0"
  shows "0 \<le> apic_fls_bit w" and "apic_fls_bit w < 32" and "bit w (nat (apic_fls_bit w))"
    and "bit w k \<Longrightarrow> int k \<le> apic_fls_bit w"
proof -
  note facts = clz_nonzero [OF assms]
  then show "0 \<le> apic_fls_bit w" and "apic_fls_bit w < 32"
    by (simp_all add: apic_fls_bit_def)
  have eq: "nat (apic_fls_bit w) = 31 - clz w"
    using facts(1) by (simp add: apic_fls_bit_def nat_diff_distrib)
  with facts(2) show "bit w (nat (apic_fls_bit w))" by simp
  show "int k \<le> apic_fls_bit w" if "bit w k"
    using facts(1) facts(3) [of k] that by (cases "31 - clz w < k") (auto simp: apic_fls_bit_def)
qed

text \<open>What the scan has seen after the words from \<open>i\<close> upwards are known to be zero.\<close>

lemma highest_from_Max:
  assumes "i \<le> 8" and "vectors tab \<subseteq> {..<32 * i}"
  shows "highest_from tab i = (if vectors tab = {} then -1 else int (Max (vectors tab)))"
  using assms
proof (induction i)
  case 0
  then show ?case by simp
next
  case (Suc i)
  show ?case
  proof (cases "tab ! i = 0")
    case True
    have "v < 32 * i" if "v \<in> vectors tab" for v
      using that True Suc.prems by (cases "v div 32 = i") (auto simp: vectors_def)
    then have "vectors tab \<subseteq> {..<32 * i}" by auto
    with True Suc show ?thesis by simp
  next
    case False
    note f = apic_fls_bit_nonzero [OF False]
    let ?v = "i * 32 + nat (apic_fls_bit (tab ! i))"
    have in_v: "?v \<in> vectors tab"
      using f Suc.prems(1) by (simp add: vectors_def nat_less_iff)
    have "v \<le> ?v" if v: "v \<in> vectors tab" for v
    proof (cases "v div 32 = i")
      case True
      with v have "int (v mod 32) \<le> apic_fls_bit (tab ! i)" by (intro f(4)) (auto simp: vectors_def)
      with True show ?thesis by (metis add_left_mono div_mult_mod_eq nat_le_iff nat_int nat_mono)
    next
      case False
      with v Suc.prems(2) have "v div 32 < i" by (auto simp: less_mult_imp_div_less)
      then show ?thesis by (metis div_less_iff_less_mult less_imp_le_nat trans_le_add1 zero_less_numeral)
    qed
    then have "Max (vectors tab) = ?v" using in_v by (intro Max_eqI) auto
    with False in_v f(1) show ?thesis by auto
  qed
qed

lemma get_highest_priority_int_Max [vector_simps]:
  "get_highest_priority_int tab = (if vectors tab = {} then -1 else int (Max (vectors tab)))"
  unfolding get_highest_priority_int_def
  by (rule highest_from_Max) (auto dest: vectors_bound)

section \<open>The interface\<close>

text \<open>
  What a client of a vector array may use: insertion, removal and lookup behave as on the
  set \<open>vecs r\<close>, and \<open>top r\<close> is its largest element, or \<open>-1\<close>.
\<close>

locale vector_file =
  fixes ins :: "'r \<Rightarrow> nat \<Rightarrow> 'r" and del :: "'r \<Rightarrow> nat \<Rightarrow> 'r" and has :: "'r \<Rightarrow> nat \<Rightarrow> bool"
    and top :: "'r \<Rightarrow> int" and vecs :: "'r \<Rightarrow> nat set" and ok :: "'r \<Rightarrow> bool"
  assumes ok_ins: "ok r \<Longrightarrow> v < 256 \<Longrightarrow> ok (ins r v)"
    and ok_del: "ok r \<Longrightarrow> v < 256 \<Longrightarrow> ok (del r v)"
    and vecs_ins: "ok r \<Longrightarrow> v < 256 \<Longrightarrow> vecs (ins r v) = insert v (vecs r)"
    and vecs_del: "ok r \<Longrightarrow> v < 256 \<Longrightarrow> vecs (del r v) = vecs r - {v}"
    and has_iff: "v < 256 \<Longrightarrow> has r v \<longleftrightarrow> v \<in> vecs r"
    and vecs_bound: "vecs r \<subseteq> {..<256}"
    and top_Max: "top r = (if vecs r = {} then -1 else int (Max (vecs r)))"
begin

lemma finite_vecs: "finite (vecs r)"
  by (rule finite_subset [OF vecs_bound]) simp

lemma top_neg_iff: "top r < 0 \<longleftrightarrow> vecs r = {}"
  by (simp add: top_Max)

lemma top_nonneg_iff: "0 \<le> top r \<longleftrightarrow> vecs r \<noteq> {}"
  by (simp add: top_Max)

lemma top_upper: "v \<in> vecs r \<Longrightarrow> int v \<le> top r"
  by (auto simp: top_Max finite_vecs)

lemma top_range: "-1 \<le> top r" "top r < 256"
proof -
  show "-1 \<le> top r" by (simp add: top_Max)
  have "Max (vecs r) \<in> vecs r" if "vecs r \<noteq> {}"
    using that finite_vecs by (rule Max_in [rotated])
  then show "top r < 256" using vecs_bound [of r] by (auto simp: top_Max)
qed

lemma top_eq_iff: "top r = int v \<longleftrightarrow> v \<in> vecs r \<and> (\<forall>k\<in>vecs r. k \<le> v)"
proof
  assume "top r = int v"
  then have ne: "vecs r \<noteq> {}" and "Max (vecs r) = v" by (auto simp: top_Max split: if_splits)
  then show "v \<in> vecs r \<and> (\<forall>k\<in>vecs r. k \<le> v)" using finite_vecs Max_in [OF finite_vecs ne] by auto
next
  assume a: "v \<in> vecs r \<and> (\<forall>k\<in>vecs r. k \<le> v)"
  then have "Max (vecs r) = v" by (intro Max_eqI) (auto simp: finite_vecs)
  with a show "top r = int v" by (auto simp: top_Max)
qed

lemma top_obtain:
  assumes "0 \<le> top r"
  obtains v where "top r = int v" and "v \<in> vecs r" and "v < 256" and "\<And>k. k \<in> vecs r \<Longrightarrow> k \<le> v"
proof (rule that)
  show eq: "top r = int (nat (top r))" using assms by simp
  then show mem: "nat (top r) \<in> vecs r" and "\<And>k. k \<in> vecs r \<Longrightarrow> k \<le> nat (top r)"
    by (simp_all only: top_eq_iff)
  with vecs_bound [of r] show "nat (top r) < 256" by auto
qed

text \<open>A vector above every recorded one becomes the largest, and taking it out again restores the set.\<close>

lemma top_ins_above:
  assumes "ok r" and "v < 256" and "top r < int v"
  shows "top (ins r v) = int v" and "vecs (del (ins r v) v) = vecs r"
proof -
  have le: "k < v" if "k \<in> vecs r" for k using top_upper [OF that] assms(3) by simp
  with assms show "top (ins r v) = int v" by (auto simp: top_eq_iff vecs_ins intro: less_imp_le)
  from le have "v \<notin> vecs r" by blast
  with assms show "vecs (del (ins r v) v) = vecs r" by (simp add: vecs_ins vecs_del ok_ins)
qed

end

interpretation vf: vector_file apic_set_bit apic_reset_bit apic_get_bit get_highest_priority_int
    vectors wf_vectab
  by unfold_locales (auto simp: vector_simps dest: vectors_bound)

end
