(* ===== verification/I8259.thy ===== *)
theory I8259
  imports Prelude
begin

text \<open>
  One i8259 interrupt controller chip (\<^verbatim>\<open>hw/intc/i8259.c\<close> and \<^verbatim>\<open>hw/intc/i8259_common.c\<close>).
  An operation that ends in \<^verbatim>\<open>pic_update_irq\<close> returns the new registers together with the
  level it drives on \<^verbatim>\<open>int_out[0]\<close>; \<open>None\<close> means that it drives nothing. The wiring of the
  two chips to each other and to the processors is in \<^verbatim>\<open>PC_Wiring\<close>.
\<close>

section \<open>State\<close>

record PICCommonState =
  last_irr :: u8
  pic_irr :: u8
  pic_imr :: u8
  pic_isr :: u8
  priority_add :: u8
  irq_base :: u8
  read_reg_select :: u8
  poll :: u8
  special_mask :: u8
  init_state :: u8
  auto_eoi :: u8
  rotate_on_auto_eoi :: u8
  special_fully_nested_mode :: u8
  init4 :: u8
  single_mode :: u8
  elcr :: u8
  elcr_mask :: u8
  master :: bool

section \<open>Priority resolution\<close>

text \<open>From any place of the rotated order there is a set bit ahead; the distance to it decreases.\<close>

lemma set_bit_ahead:
  fixes msk :: u8
  assumes "msk \<noteq> 0"
  shows "\<exists>d<8. bit msk ((p + d) mod 8)"
proof -
  obtain n where n: "bit msk n" using assms by (auto simp: word_neq_0_bit)
  then have "n < 8" using bit_imp_le_length [of msk n] by simp
  have "p + (n + 8 - p mod 8) = n + 8 * (p div 8 + 1)" by presburger
  then have "(p + (n + 8 - p mod 8) mod 8) mod 8 = n"
    using \<open>n < 8\<close> by (simp only: mod_add_right_eq mod_mult_self2 mod_less)
  with n have "bit msk ((p + (n + 8 - p mod 8) mod 8) mod 8)" by simp
  moreover have "(n + 8 - p mod 8) mod 8 < 8" by simp
  ultimately show ?thesis by blast
qed

text \<open>
  The loop \<^verbatim>\<open>while ((mask & (1 << ((priority + s->priority_add) & 7))) == 0) priority++\<close>. It
  is entered with a non-zero mask only; the model keeps that as part of the loop condition.
\<close>

function get_priority_from :: "u8 \<Rightarrow> u8 \<Rightarrow> nat \<Rightarrow> nat" where
  "get_priority_from add msk priority =
     (if msk \<noteq> 0 \<and> msk AND push_bit ((priority + unat add) mod 8) 1 = 0
      then get_priority_from add msk (Suc priority) else priority)"
  by pat_completeness auto

termination
proof (relation "measure (\<lambda>(add, msk, p). LEAST d. bit msk ((p + unat add + d) mod 8))")
  fix add msk :: u8 and p :: nat
  assume loop: "msk \<noteq> 0 \<and> msk AND push_bit ((p + unat add) mod 8) 1 = 0"
  let ?P = "\<lambda>p d. bit msk ((p + unat add + d) mod 8)"
  from loop obtain d where d: "?P p d" using set_bit_ahead [of msk "p + unat add"] by auto
  have least: "?P p (LEAST d. ?P p d)" by (rule LeastI) (rule d)
  from loop have "\<not> ?P p 0" by (simp add: mask_simps)
  with least obtain e where e: "(LEAST d. ?P p d) = Suc e" by (metis not0_implies_Suc)
  then have "?P (Suc p) e" using least by simp
  then have "(LEAST d. ?P (Suc p) d) \<le> e" by (rule Least_le)
  with e show "((add, msk, Suc p), (add, msk, p))
      \<in> measure (\<lambda>(add, msk, p). LEAST d. bit msk ((p + unat add + d) mod 8))"
    by simp
qed simp

declare get_priority_from.simps [simp del]

definition get_priority :: "PICCommonState \<Rightarrow> u8 \<Rightarrow> nat" where
  "get_priority s msk = (if msk = 0 then 8 else get_priority_from (priority_add s) msk 0)"

definition pic_get_irq :: "PICCommonState \<Rightarrow> int" where
  "pic_get_irq s =
     (let msk = pic_irr s AND NOT (pic_imr s); priority = get_priority s msk in
      if priority = 8 then -1
      else
        let msk = pic_isr s;
            msk = (if special_mask s \<noteq> 0 then msk AND NOT (pic_imr s) else msk);
            msk = (if special_fully_nested_mode s \<noteq> 0 \<and> master s
                    then msk AND NOT (push_bit 2 1) else msk);
            cur_priority = get_priority s msk in
        if priority < cur_priority then int ((priority + unat (priority_add s)) mod 8) else -1)"

section \<open>Operations\<close>

definition pic_update_irq :: "PICCommonState \<Rightarrow> bool" where
  "pic_update_irq s \<longleftrightarrow> pic_get_irq s \<ge> 0"

definition pic_get_output :: "PICCommonState \<Rightarrow> bool" where
  "pic_get_output s \<longleftrightarrow> pic_get_irq s \<ge> 0"

definition pic_set_irq :: "PICCommonState \<Rightarrow> nat \<Rightarrow> int \<Rightarrow> PICCommonState \<times> bool option" where
  "pic_set_irq s irq level =
     (let msk = push_bit irq 1;
          s' = (if elcr s AND msk \<noteq> 0 then
                  (if level \<noteq> 0
                   then s\<lparr>pic_irr := pic_irr s OR msk, last_irr := last_irr s OR msk\<rparr>
                   else s\<lparr>pic_irr := pic_irr s AND NOT msk, last_irr := last_irr s AND NOT msk\<rparr>)
                else
                  (if level \<noteq> 0
                   then s\<lparr>pic_irr := (if last_irr s AND msk = 0 then pic_irr s OR msk else pic_irr s),
                          last_irr := last_irr s OR msk\<rparr>
                   else s\<lparr>last_irr := last_irr s AND NOT msk\<rparr>))
      in (s', Some (pic_update_irq s')))"

definition pic_intack :: "PICCommonState \<Rightarrow> nat \<Rightarrow> PICCommonState \<times> bool option" where
  "pic_intack s irq =
     (let s1 = (if auto_eoi s \<noteq> 0 then
                  (if rotate_on_auto_eoi s \<noteq> 0
                   then s\<lparr>priority_add := of_nat ((irq + 1) mod 8)\<rparr> else s)
                else s\<lparr>pic_isr := pic_isr s OR push_bit irq 1\<rparr>);
          s2 = (if elcr s1 AND push_bit irq 1 = 0
                then s1\<lparr>pic_irr := pic_irr s1 AND NOT (push_bit irq 1)\<rparr> else s1)
      in (s2, Some (pic_update_irq s2)))"

definition pic_reset_common :: "PICCommonState \<Rightarrow> PICCommonState" where
  "pic_reset_common s = s\<lparr>
     last_irr := 0, pic_irr := pic_irr s AND elcr s, pic_imr := 0, pic_isr := 0,
     priority_add := 0, irq_base := 0, read_reg_select := 0, poll := 0, special_mask := 0,
     init_state := 0, auto_eoi := 0, rotate_on_auto_eoi := 0,
     special_fully_nested_mode := 0, init4 := 0, single_mode := 0\<rparr>"

definition pic_init_reset :: "PICCommonState \<Rightarrow> PICCommonState \<times> bool option" where
  "pic_init_reset s = (let s' = pic_reset_common s in (s', Some (pic_update_irq s')))"

definition pic_reset :: "PICCommonState \<Rightarrow> PICCommonState \<times> bool option" where
  "pic_reset s = pic_init_reset (s\<lparr>elcr := 0\<rparr>)"

text \<open>The operation command words \<^verbatim>\<open>OCW2\<close> (\<^verbatim>\<open>val & 0x18 == 0\<close>): \<open>cmd\<close> is \<^verbatim>\<open>val >> 5\<close>.\<close>

definition pic_ocw2 :: "PICCommonState \<Rightarrow> u32 \<Rightarrow> PICCommonState \<times> bool option" where
  "pic_ocw2 s val =
     (let cmd = drop_bit 5 val; irq = unat (val AND 7) in
      if cmd = 0 \<or> cmd = 4 then (s\<lparr>rotate_on_auto_eoi := ucast (drop_bit 2 cmd)\<rparr>, None)
      else if cmd = 1 \<or> cmd = 5 then
        (let priority = get_priority s (pic_isr s) in
         if priority \<noteq> 8 then
           (let irq = (priority + unat (priority_add s)) mod 8;
                s1 = s\<lparr>pic_isr := pic_isr s AND NOT (push_bit irq 1)\<rparr>;
                s2 = (if cmd = 5 then s1\<lparr>priority_add := of_nat ((irq + 1) mod 8)\<rparr> else s1)
            in (s2, Some (pic_update_irq s2)))
         else (s, None))
      else if cmd = 3 then
        (let s' = s\<lparr>pic_isr := pic_isr s AND NOT (push_bit irq 1)\<rparr>
         in (s', Some (pic_update_irq s')))
      else if cmd = 6 then
        (let s' = s\<lparr>priority_add := ucast ((val + 1) AND 7)\<rparr>
         in (s', Some (pic_update_irq s')))
      else if cmd = 7 then
        (let s' = s\<lparr>pic_isr := pic_isr s AND NOT (push_bit irq 1),
                    priority_add := of_nat ((irq + 1) mod 8)\<rparr>
         in (s', Some (pic_update_irq s')))
      else (s, None))"

definition pic_ioport_write :: "PICCommonState \<Rightarrow> u64 \<Rightarrow> u64 \<Rightarrow> PICCommonState \<times> bool option" where
  "pic_ioport_write s addr64 val64 =
     (let addr = ucast addr64 :: u32; val = ucast val64 :: u32 in
      if addr = 0 then
        if val AND 0x10 \<noteq> 0 then
          (let (s', out) = pic_init_reset s in
           (s'\<lparr>init_state := 1, init4 := ucast (val AND 1), single_mode := ucast (val AND 2)\<rparr>, out))
        else if val AND 0x08 \<noteq> 0 then
          (let s1 = (if val AND 0x04 \<noteq> 0 then s\<lparr>poll := 1\<rparr> else s);
               s2 = (if val AND 0x02 \<noteq> 0 then s1\<lparr>read_reg_select := ucast (val AND 1)\<rparr> else s1);
               s3 = (if val AND 0x40 \<noteq> 0
                     then s2\<lparr>special_mask := ucast (drop_bit 5 val AND 1)\<rparr> else s2)
           in (s3, None))
        else pic_ocw2 s val
      else
        if init_state s = 0 then
          (let s' = s\<lparr>pic_imr := ucast val\<rparr> in (s', Some (pic_update_irq s')))
        else if init_state s = 1 then
          (s\<lparr>irq_base := ucast (val AND 0xf8),
             init_state := (if single_mode s \<noteq> 0 then (if init4 s \<noteq> 0 then 3 else 0) else 2)\<rparr>, None)
        else if init_state s = 2 then
          (s\<lparr>init_state := (if init4 s \<noteq> 0 then 3 else 0)\<rparr>, None)
        else if init_state s = 3 then
          (s\<lparr>special_fully_nested_mode := ucast (drop_bit 4 val AND 1),
             auto_eoi := ucast (drop_bit 1 val AND 1), init_state := 0\<rparr>, None)
        else (s, None))"

definition pic_ioport_read :: "PICCommonState \<Rightarrow> u64 \<Rightarrow> int \<times> PICCommonState \<times> bool option" where
  "pic_ioport_read s addr =
     (if poll s \<noteq> 0 then
        (let ret = pic_get_irq s in
         if ret \<ge> 0 then
           (let (s', out) = pic_intack s (nat ret) in (or ret 0x80, s'\<lparr>poll := 0\<rparr>, out))
         else (0, s\<lparr>poll := 0\<rparr>, None))
      else
        (if addr = 0 then
           (if read_reg_select s \<noteq> 0 then uint (pic_isr s) else uint (pic_irr s))
         else uint (pic_imr s), s, None))"

definition elcr_ioport_write :: "PICCommonState \<Rightarrow> u64 \<Rightarrow> u64 \<Rightarrow> PICCommonState" where
  "elcr_ioport_write s addr val = s\<lparr>elcr := ucast (val AND ucast (elcr_mask s))\<rparr>"

definition elcr_ioport_read :: "PICCommonState \<Rightarrow> u64 \<Rightarrow> u64" where
  "elcr_ioport_read s addr = ucast (elcr s)"

section \<open>The priority order\<close>

text \<open>
  \<open>pic_rank s k\<close> is the place of line \<open>k\<close> in the rotated priority order: 0 for the line
  \<^verbatim>\<open>priority_add\<close> points at, 7 for the line before it. \<open>pic_in_service s\<close> is the part of the
  in-service register that blocks new requests.
\<close>

definition pic_rank :: "PICCommonState \<Rightarrow> nat \<Rightarrow> nat" where
  "pic_rank s k = (k + 8 - unat (priority_add s) mod 8) mod 8"

definition pic_requests :: "PICCommonState \<Rightarrow> u8" where
  "pic_requests s = pic_irr s AND NOT (pic_imr s)"

definition pic_in_service :: "PICCommonState \<Rightarrow> u8" where
  "pic_in_service s =
     (let msk = (if special_mask s \<noteq> 0 then pic_isr s AND NOT (pic_imr s) else pic_isr s) in
      if special_fully_nested_mode s \<noteq> 0 \<and> master s then msk AND NOT (push_bit 2 1) else msk)"

lemma pic_rank_less: "pic_rank s k < 8"
  by (simp add: pic_rank_def)

lemma rotate_cancel:
  fixes a k :: nat
  assumes "k < 8"
  shows "((k + 8 - a mod 8) mod 8 + a) mod 8 = k"
proof -
  have "k + 8 - a mod 8 + a = k + 8 * (a div 8 + 1)" by presburger
  then show ?thesis using assms by (simp only: mod_add_left_eq mod_mult_self2 mod_less)
qed

lemma pic_rank_inverse: "k < 8 \<Longrightarrow> (pic_rank s k + unat (priority_add s)) mod 8 = k"
  unfolding pic_rank_def by (rule rotate_cancel)

lemma pic_rank_of_priority:
  assumes "p < 8"
  shows "pic_rank s ((p + unat (priority_add s)) mod 8) = p"
proof -
  define b where "b = unat (priority_add s) mod 8"
  have b: "b < 8" by (simp add: b_def)
  have "(p + unat (priority_add s)) mod 8 = (p + b) mod 8"
    by (simp add: b_def mod_add_right_eq)
  also have "\<dots> = (if p + b < 8 then p + b else p + b - 8)"
    using assms b by (simp add: mod_if)
  finally show ?thesis using assms b by (simp add: pic_rank_def flip: b_def)
qed

lemma get_priority_from_spec:
  assumes "msk \<noteq> 0"
  shows "p \<le> get_priority_from add msk p
    \<and> bit msk ((get_priority_from add msk p + unat add) mod 8)
    \<and> (\<forall>k. p \<le> k \<and> k < get_priority_from add msk p \<longrightarrow> \<not> bit msk ((k + unat add) mod 8))"
  using assms
proof (induction add msk p rule: get_priority_from.induct)
  case (1 add msk p)
  show ?case
  proof (cases "bit msk ((p + unat add) mod 8)")
    case True
    then have "get_priority_from add msk p = p"
      by (subst get_priority_from.simps) (simp add: mask_simps)
    with True show ?thesis by auto
  next
    case False
    then have eq: "get_priority_from add msk p = get_priority_from add msk (Suc p)"
      using 1(2) by (subst get_priority_from.simps) (simp add: mask_simps)
    have cont: "msk \<noteq> 0 \<and> msk AND push_bit ((p + unat add) mod 8) 1 = 0"
      using False 1(2) by (simp add: mask_simps)
    show ?thesis unfolding eq using 1(1) [OF cont 1(2)] False
      by (metis Suc_leD Suc_leI le_neq_implies_less)
  qed
qed

lemma get_priority_zero [simp]: "get_priority s 0 = 8"
  by (simp add: get_priority_def)

lemma get_priority_le_rank:
  assumes "bit msk k"
  shows "get_priority s msk \<le> pic_rank s k"
proof -
  have k: "k < 8" using bit_imp_le_length [OF assms] by simp
  have nz: "msk \<noteq> 0" using assms by auto
  show ?thesis
  proof (rule ccontr)
    assume "\<not> get_priority s msk \<le> pic_rank s k"
    then have "\<not> bit msk ((pic_rank s k + unat (priority_add s)) mod 8)"
      using get_priority_from_spec [OF nz, of 0 "priority_add s"] nz by (simp add: get_priority_def)
    with assms k show False by (simp add: pic_rank_inverse)
  qed
qed

lemma get_priority_attained:
  assumes "msk \<noteq> 0"
  shows "get_priority s msk < 8"
    and "bit msk ((get_priority s msk + unat (priority_add s)) mod 8)"
proof -
  obtain k where k: "bit msk k" using assms by (auto simp: word_neq_0_bit)
  show "get_priority s msk < 8"
    using get_priority_le_rank [OF k, of s] pic_rank_less [of s k] by simp
  show "bit msk ((get_priority s msk + unat (priority_add s)) mod 8)"
    using get_priority_from_spec [OF assms, of 0 "priority_add s"] assms by (simp add: get_priority_def)
qed

lemma get_priority_eq_8: "get_priority s msk = 8 \<longleftrightarrow> msk = 0"
  using get_priority_attained(1) [of msk s] by (cases "msk = 0") auto

lemma less_get_priority_iff:
  assumes "p < 8"
  shows "p < get_priority s msk \<longleftrightarrow> (\<forall>k. bit msk k \<longrightarrow> p < pic_rank s k)"
proof
  show "\<forall>k. bit msk k \<longrightarrow> p < pic_rank s k" if "p < get_priority s msk"
    using that get_priority_le_rank less_le_trans by blast
  show "p < get_priority s msk" if all: "\<forall>k. bit msk k \<longrightarrow> p < pic_rank s k"
  proof (cases "msk = 0")
    case False
    from get_priority_attained [OF False, of s] all
    show ?thesis by (metis pic_rank_of_priority)
  qed (use assms in simp)
qed

lemma pic_get_irq_unfold:
  "pic_get_irq s =
     (let p = get_priority s (pic_requests s) in
      if p < 8 \<and> p < get_priority s (pic_in_service s)
      then int ((p + unat (priority_add s)) mod 8) else -1)"
proof -
  have "get_priority s msk \<noteq> 8 \<longleftrightarrow> get_priority s msk < 8" for msk
    using get_priority_attained(1) [of msk s] by (cases "msk = 0") auto
  then show ?thesis
    by (auto simp: pic_get_irq_def pic_requests_def pic_in_service_def Let_def)
qed

lemma pic_get_irq_range: "-1 \<le> pic_get_irq s" "pic_get_irq s < 8"
  by (simp_all add: pic_get_irq_unfold Let_def)

lemma pic_get_irq_eq:
  "pic_get_irq s = int k \<longleftrightarrow>
     bit (pic_requests s) k \<and> (\<forall>j. bit (pic_requests s) j \<longrightarrow> pic_rank s k \<le> pic_rank s j)
     \<and> (\<forall>j. bit (pic_in_service s) j \<longrightarrow> pic_rank s k < pic_rank s j)" (is "_ \<longleftrightarrow> ?R")
proof
  let ?p = "get_priority s (pic_requests s)"
  assume a: "pic_get_irq s = int k"
  then have p: "?p < 8" "?p < get_priority s (pic_in_service s)"
      and k: "k = (?p + unat (priority_add s)) mod 8"
    by (auto simp: pic_get_irq_unfold Let_def split: if_splits)
  then have "pic_requests s \<noteq> 0" by (auto simp: get_priority_eq_8)
  then have "bit (pic_requests s) k" using k get_priority_attained(2) by blast
  moreover have rk: "pic_rank s k = ?p" using k p(1) by (simp add: pic_rank_of_priority)
  ultimately show ?R using p less_get_priority_iff [OF p(1)] by (auto simp: get_priority_le_rank)
next
  let ?p = "get_priority s (pic_requests s)"
  assume r: ?R
  then have nz: "pic_requests s \<noteq> 0" by auto
  from r have k8: "k < 8" using bit_imp_le_length [of "pic_requests s" k] by simp
  note att = get_priority_attained [OF nz, of s]
  have "pic_rank s k \<le> ?p" using r att pic_rank_of_priority [OF att(1)] by metis
  moreover have "?p \<le> pic_rank s k" using r get_priority_le_rank by blast
  ultimately have eq: "pic_rank s k = ?p" by simp
  then have "?p < get_priority s (pic_in_service s)"
    using r less_get_priority_iff [OF att(1), of s "pic_in_service s"] by simp
  with eq att(1) k8 show "pic_get_irq s = int k"
    by (simp add: pic_get_irq_unfold Let_def flip: eq) (simp add: pic_rank_inverse)
qed

lemma pic_get_irq_neg:
  "pic_get_irq s < 0 \<longleftrightarrow> (\<forall>k. bit (pic_requests s) k \<longrightarrow>
     (\<exists>j. bit (pic_in_service s) j \<and> pic_rank s j \<le> pic_rank s k))" (is "?L \<longleftrightarrow> ?R")
proof -
  let ?p = "get_priority s (pic_requests s)" and ?q = "get_priority s (pic_in_service s)"
  have "?L \<longleftrightarrow> \<not> (?p < 8 \<and> ?p < ?q)" by (auto simp: pic_get_irq_unfold Let_def)
  also have "\<dots> \<longleftrightarrow> ?R"
  proof (cases "pic_requests s = 0")
    case False
    note att = get_priority_attained [OF False, of s]
    have "?R \<longleftrightarrow> (\<exists>j. bit (pic_in_service s) j \<and> pic_rank s j \<le> ?p)"
    proof
      assume ?R
      with att(2) obtain j where "bit (pic_in_service s) j"
          "pic_rank s j \<le> pic_rank s ((?p + unat (priority_add s)) mod 8)" by blast
      with att(1) show "\<exists>j. bit (pic_in_service s) j \<and> pic_rank s j \<le> ?p"
        by (auto simp: pic_rank_of_priority)
    qed (use get_priority_le_rank order_trans in blast)
    then show ?thesis using att(1) less_get_priority_iff [OF att(1), of s "pic_in_service s"]
      by (auto simp: not_less)
  qed simp
  finally show ?thesis .
qed

section \<open>Correctness of the chip\<close>

text \<open>C37: The interrupt the chip asks for is the unmasked requested line of the highest rotated
  priority, and it is asked for exactly when that priority beats every line in service; \<open>-1\<close> is
  returned when a line in service is at least as urgent as each request.\<close>

theorem pic_get_irq_spec:
  "(pic_get_irq s = int k \<longleftrightarrow>
      bit (pic_requests s) k \<and> (\<forall>j. bit (pic_requests s) j \<longrightarrow> pic_rank s k \<le> pic_rank s j)
      \<and> (\<forall>j. bit (pic_in_service s) j \<longrightarrow> pic_rank s k < pic_rank s j))
   \<and> (pic_get_irq s = -1 \<longleftrightarrow> (\<forall>j. bit (pic_requests s) j \<longrightarrow>
      (\<exists>i. bit (pic_in_service s) i \<and> pic_rank s i \<le> pic_rank s j)))"
proof -
  have "pic_get_irq s = -1 \<longleftrightarrow> pic_get_irq s < 0" using pic_get_irq_range(1) [of s] by linarith
  then show ?thesis using pic_get_irq_eq [of s k] pic_get_irq_neg [of s] by blast
qed

text \<open>
  A chip as \<^verbatim>\<open>i8259_init_chip\<close> and \<^verbatim>\<open>pic_reset\<close> leave it. The edge/level mask of the chip,
  \<open>chip_elcr_mask\<close>, is the \<^verbatim>\<open>elcr_mask\<close> property \<^verbatim>\<open>i8259_init_chip\<close> sets.
\<close>

definition chip_elcr_mask :: "bool \<Rightarrow> u8" where
  "chip_elcr_mask is_master = (if is_master then 0xf8 else 0xde)"

definition pic_after_init :: "bool \<Rightarrow> PICCommonState" where
  "pic_after_init is_master = \<lparr>
     last_irr = 0, pic_irr = 0, pic_imr = 0, pic_isr = 0, priority_add = 0, irq_base = 0,
     read_reg_select = 0, poll = 0, special_mask = 0, init_state = 0, auto_eoi = 0,
     rotate_on_auto_eoi = 0, special_fully_nested_mode = 0, init4 = 0, single_mode = 0,
     elcr = 0, elcr_mask = chip_elcr_mask is_master, master = is_master\<rparr>"

theorem pic_get_irq_spec_witness:
  "pic_get_irq (pic_after_init True\<lparr>pic_irr := 0x28, pic_isr := 0x80\<rparr>) = 3"
proof -
  let ?s = "pic_after_init True\<lparr>pic_irr := 0x28, pic_isr := 0x80\<rparr>"
  have bits: "bit (0x28 :: u8) j \<longleftrightarrow> j \<in> set [3, 5]" "bit (0x80 :: u8) j \<longleftrightarrow> j \<in> set [7]" for j
    by (rule bit_iff_listed, code_simp)+
  have regs: "pic_requests ?s = 0x28" "pic_in_service ?s = 0x80"
    by (simp_all add: pic_requests_def pic_in_service_def pic_after_init_def)
  have "pic_get_irq ?s = int 3"
    unfolding pic_get_irq_spec [of ?s 3, THEN conjunct1] regs bits
    by (simp add: pic_rank_def pic_after_init_def)
  then show ?thesis by simp
qed

lemma get_priority_eqI:
  assumes "bit msk k" and "\<And>j. bit msk j \<Longrightarrow> pic_rank s k \<le> pic_rank s j"
  shows "get_priority s msk = pic_rank s k"
proof -
  have nz: "msk \<noteq> 0" using assms(1) by auto
  note att = get_priority_attained [OF nz, of s]
  have "pic_rank s k \<le> get_priority s msk"
    using assms(2) [OF att(2)] pic_rank_of_priority [OF att(1), of s] by simp
  then show ?thesis using get_priority_le_rank [OF assms(1), of s] by simp
qed

lemma pic_rank_cong: "priority_add s = priority_add t \<Longrightarrow> pic_rank s k = pic_rank t k"
  by (simp add: pic_rank_def)

lemma pic_intack_fields:
  assumes "auto_eoi s = 0" and "fst (pic_intack s k) = s1"
  shows "pic_isr s1 = pic_isr s OR 2 ^ k" and "priority_add s1 = priority_add s"
    and "special_mask s1 = special_mask s" and "pic_imr s1 = pic_imr s"
    and "special_fully_nested_mode s1 = special_fully_nested_mode s"
  using assms by (auto simp: pic_intack_def Let_def)

text \<open>The non-specific end-of-interrupt command takes the most urgent line out of service.\<close>

lemma pic_eoi_clears:
  assumes "bit (pic_isr s) k" and "\<And>j. bit (pic_isr s) j \<Longrightarrow> pic_rank s k \<le> pic_rank s j"
  shows "fst (pic_ocw2 s 0x20) = s\<lparr>pic_isr := pic_isr s AND NOT (2 ^ k)\<rparr>"
proof -
  have k: "k < 8" using bit_imp_le_length [OF assms(1)] by simp
  have p: "get_priority s (pic_isr s) = pic_rank s k" using assms by (rule get_priority_eqI)
  moreover have "pic_rank s k \<noteq> 8" using pic_rank_less [of s k] by simp
  ultimately show ?thesis using k
    by (simp add: pic_ocw2_def Let_def pic_rank_inverse)
qed



section \<open>Reachable states of a chip\<close>

text \<open>
  The steps the rest of the machine can make a chip take. An acknowledge only ever names the
  line \<^verbatim>\<open>pic_get_irq\<close> returned.
\<close>

inductive pic_step :: "PICCommonState \<Rightarrow> PICCommonState \<Rightarrow> bool" where
  step_set_irq: "irq < 8 \<Longrightarrow> pic_step s (fst (pic_set_irq s irq level))"
| step_intack: "pic_get_irq s = int irq \<Longrightarrow> pic_step s (fst (pic_intack s irq))"
| step_write: "pic_step s (fst (pic_ioport_write s addr val))"
| step_read: "pic_step s (fst (snd (pic_ioport_read s addr)))"
| step_elcr: "pic_step s (elcr_ioport_write s addr val)"
| step_reset: "pic_step s (fst (pic_reset s))"

inductive pic_reachable :: "bool \<Rightarrow> PICCommonState \<Rightarrow> bool" for is_master where
  start: "pic_reachable is_master (pic_after_init is_master)"
| step: "pic_reachable is_master s \<Longrightarrow> pic_step s t \<Longrightarrow> pic_reachable is_master t"

text \<open>
  What every step keeps: the initialisation automaton is in one of its four states, the
  rotation points at a line, a programmed vector base is a multiple of eight, only the lines
  the edge/level mask allows are level triggered, and the identity of the chip does not change.
\<close>

definition pic_inv :: "bool \<Rightarrow> PICCommonState \<Rightarrow> bool" where
  "pic_inv is_master s \<longleftrightarrow>
     init_state s \<in> {0, 1, 2, 3} \<and> unat (priority_add s) < 8 \<and> irq_base s AND 7 = 0
     \<and> elcr s AND NOT (chip_elcr_mask is_master) = 0 \<and> master s = is_master
     \<and> elcr_mask s = chip_elcr_mask is_master"

lemma unat_of_nat_mod_8 [simp]: "unat (of_nat (n mod 8) :: u8) = n mod 8"
  by (simp add: unat_of_nat)

lemma ucast_and_7: "ucast ((w :: u32) AND 7) = (ucast w AND 7 :: u8)"
  by (simp add: unsigned_and_eq)

lemma unat_and_7 [simp]: "unat (ucast ((w :: u32) AND 7) :: u8) < 8"
proof -
  have "ucast w AND 7 \<le> (7 :: u8)" by (rule word_and_le1)
  then show ?thesis by (simp add: ucast_and_7 word_le_nat_alt)
qed

lemma ucast_f8: "ucast ((w :: u32) AND 0xf8) = (ucast w AND 0xf8 :: u8)"
  by (simp add: unsigned_and_eq)

lemma ucast_f8_and_7 [simp]: "ucast ((w :: u32) AND 0xf8) AND 7 = (0 :: u8)"
  by (simp add: ucast_f8 and.assoc)

lemma elcr_mask_idem [simp]: "ucast ((v :: u64) AND ucast m) AND NOT m = (0 :: u8)"
  by (rule bit_word_eqI) (auto simp: bit_simps)

lemma pic_inv_updates:
  assumes "pic_inv b s"
  shows "pic_inv b (s\<lparr>pic_irr := w1\<rparr>)" and "pic_inv b (s\<lparr>last_irr := w1\<rparr>)"
    and "pic_inv b (s\<lparr>pic_isr := w1\<rparr>)" and "pic_inv b (s\<lparr>pic_imr := w1\<rparr>)"
    and "pic_inv b (s\<lparr>poll := w1\<rparr>)" and "pic_inv b (s\<lparr>read_reg_select := w1\<rparr>)"
    and "pic_inv b (s\<lparr>special_mask := w1\<rparr>)" and "pic_inv b (s\<lparr>rotate_on_auto_eoi := w1\<rparr>)"
    and "unat w1 < 8 \<Longrightarrow> pic_inv b (s\<lparr>priority_add := w1\<rparr>)"
    and "pic_inv b (s\<lparr>init4 := w1\<rparr>)" and "pic_inv b (s\<lparr>single_mode := w1\<rparr>)"
    and "pic_inv b (s\<lparr>special_fully_nested_mode := w1\<rparr>)" and "pic_inv b (s\<lparr>auto_eoi := w1\<rparr>)"
    and "w1 \<in> {0, 1, 2, 3} \<Longrightarrow> pic_inv b (s\<lparr>init_state := w1\<rparr>)"
    and "w1 AND 7 = 0 \<Longrightarrow> pic_inv b (s\<lparr>irq_base := w1\<rparr>)"
  using assms by (simp_all add: pic_inv_def)

lemma pic_inv_set_irq: "pic_inv b s \<Longrightarrow> pic_inv b (fst (pic_set_irq s irq level))"
  by (simp add: pic_set_irq_def Let_def pic_inv_updates)

lemma pic_inv_intack: "pic_inv b s \<Longrightarrow> pic_inv b (fst (pic_intack s irq))"
  by (simp add: pic_intack_def Let_def pic_inv_updates)

lemma pic_inv_reset_common: "pic_inv b s \<Longrightarrow> pic_inv b (pic_reset_common s)"
  by (simp add: pic_reset_common_def pic_inv_def)

lemma pic_inv_reset: "pic_inv b s \<Longrightarrow> pic_inv b (fst (pic_reset s))"
  by (simp add: pic_reset_def pic_init_reset_def pic_reset_common_def pic_inv_def Let_def)

lemma pic_inv_ocw2: "pic_inv b s \<Longrightarrow> pic_inv b (fst (pic_ocw2 s val))"
  by (simp add: pic_ocw2_def Let_def pic_inv_updates)

lemma pic_inv_write: "pic_inv b s \<Longrightarrow> pic_inv b (fst (pic_ioport_write s addr val))"
  by (simp add: pic_ioport_write_def pic_init_reset_def Let_def pic_inv_ocw2 pic_inv_updates
      pic_inv_reset_common)

lemma pic_inv_read: "pic_inv b s \<Longrightarrow> pic_inv b (fst (snd (pic_ioport_read s addr)))"
  by (simp add: pic_ioport_read_def Let_def split_beta pic_inv_updates pic_inv_intack)

lemma pic_inv_elcr: "pic_inv b s \<Longrightarrow> pic_inv b (elcr_ioport_write s addr val)"
  by (simp add: elcr_ioport_write_def pic_inv_def)

lemma pic_step_inv: "pic_step s t \<Longrightarrow> pic_inv b s \<Longrightarrow> pic_inv b t"
  by (induction rule: pic_step.induct)
     (simp_all add: pic_inv_set_irq pic_inv_intack pic_inv_write pic_inv_read pic_inv_elcr pic_inv_reset)

text \<open>C39: In every state a chip can reach, its initialisation automaton is in one of the states
  the code switches on, the priority rotation points at a line, the vector base is a multiple of
  eight, and the lines hard-wired to edge triggering (on the master the timer, the keyboard and
  the cascade) are not level triggered.\<close>

theorem pic_reachable_inv:
  assumes "pic_reachable is_master s"
  shows "pic_inv is_master s \<and> (is_master \<longrightarrow> \<not> bit (elcr s) 0 \<and> \<not> bit (elcr s) 1 \<and> \<not> bit (elcr s) 2)"
proof -
  from assms have inv: "pic_inv is_master s"
  proof induction
    case start
    show ?case by (simp add: pic_inv_def pic_after_init_def)
  next
    case (step s t)
    then show ?case by (blast intro: pic_step_inv)
  qed
  have "\<not> bit (elcr s) k" if "is_master" "k < 3" for k
  proof
    assume "bit (elcr s) k"
    moreover have "bit (0xf8 :: u8) k \<longleftrightarrow> k \<in> set [3, 4, 5, 6, 7]"
      by (rule bit_iff_listed) code_simp
    moreover have "k \<notin> set [3, 4, 5, 6, 7]" using that(2) by auto
    ultimately have "bit (elcr s AND NOT (chip_elcr_mask is_master)) k"
      using that bit_imp_le_length [of "elcr s" k]
      by (simp only: pic_inv_def chip_elcr_mask_def bit_and_iff bit_not_iff) simp
    with inv show False by (simp add: pic_inv_def)
  qed
  with inv show ?thesis by simp
qed

theorem pic_reachable_inv_witness:
  "pic_inv True (elcr_ioport_write (pic_after_init True) 0 0xff)"
proof -
  have "pic_reachable True (elcr_ioport_write (pic_after_init True) 0 0xff)"
    by (rule pic_reachable.step [OF pic_reachable.start]) (rule pic_step.step_elcr)
  then show ?thesis using pic_reachable_inv by blast
qed

text \<open>The initialisation sequence: after \<^verbatim>\<open>ICW1\<close> the chip takes one, two or three data
  writes, as its single and \<^verbatim>\<open>ICW4\<close> bits say, and is then back in normal mode with everything
  unmasked, nothing in service, the vector base of \<^verbatim>\<open>ICW2\<close> and the modes of \<^verbatim>\<open>ICW4\<close>.\<close>

theorem pic_icw_sequence:
  fixes icw1 icw2 icw3 icw4 :: u8
  assumes "bit icw1 4"
    and "s1 = fst (pic_ioport_write s 0 (ucast icw1))"
    and "s2 = fst (pic_ioport_write s1 1 (ucast icw2))"
    and "s3 = (if bit icw1 1 then s2 else fst (pic_ioport_write s2 1 (ucast icw3)))"
    and "s4 = (if bit icw1 0 then fst (pic_ioport_write s3 1 (ucast icw4)) else s3)"
  shows "init_state s4 = 0 \<and> irq_base s4 = icw2 AND 0xf8 \<and> pic_imr s4 = 0 \<and> pic_isr s4 = 0
    \<and> auto_eoi s4 = (if bit icw1 0 then drop_bit 1 icw4 AND 1 else 0)
    \<and> special_fully_nested_mode s4 = (if bit icw1 0 then drop_bit 4 icw4 AND 1 else 0)"
proof -
  have tests: "(ucast icw1 :: u32) AND 0x10 \<noteq> 0"
    using assms(1) by (subst and_mask_test [of _ 4]) (simp_all add: bit_simps)
  have i4: "(ucast ((ucast icw1 :: u32) AND 1) :: u8) = 0 \<longleftrightarrow> \<not> bit icw1 0"
    by (subst and_mask_test [of _ 0, symmetric]) (simp_all add: unsigned_and_eq)
  have sm: "(ucast ((ucast icw1 :: u32) AND 2) :: u8) = 0 \<longleftrightarrow> \<not> bit icw1 1"
    by (subst and_mask_test [of _ 1, symmetric]) (simp_all add: unsigned_and_eq)
  have s1: "init_state s1 = 1" "pic_imr s1 = 0" "pic_isr s1 = 0" "auto_eoi s1 = 0"
      "special_fully_nested_mode s1 = 0" "init4 s1 = 0 \<longleftrightarrow> \<not> bit icw1 0"
      "single_mode s1 = 0 \<longleftrightarrow> \<not> bit icw1 1"
    using tests by (simp_all add: assms(2) pic_ioport_write_def pic_init_reset_def
        pic_reset_common_def Let_def i4 sm)
  have s2: "s2 = s1\<lparr>irq_base := icw2 AND 0xf8,
      init_state := if bit icw1 1 then (if bit icw1 0 then 3 else 0) else 2\<rparr>"
    using s1 by (simp add: assms(3) pic_ioport_write_def ucast_f8)
  have s3: "s3 = s1\<lparr>irq_base := icw2 AND 0xf8, init_state := if bit icw1 0 then 3 else 0\<rparr>"
    using s1 by (simp add: assms(4) s2 pic_ioport_write_def)
  show ?thesis
    using s1 by (simp add: assms(5) s3 pic_ioport_write_def unsigned_and_eq Let_def)
qed

theorem pic_icw_sequence_witness:
  "\<exists>s4. init_state s4 = 0 \<and> irq_base s4 = 0x20 \<and> auto_eoi s4 = 1 \<and>
     s4 = fst (pic_ioport_write (fst (pic_ioport_write (fst (pic_ioport_write (fst
       (pic_ioport_write (pic_after_init True) 0 0x11)) 1 0x20)) 1 4)) 1 3)"
  using pic_icw_sequence [of "0x11" _ "pic_after_init True" _ "0x20" _ 4 _ 3, OF _ refl refl refl refl]
  by simp

end
