(* ===== verification/Machine.thy ===== *)
theory Machine
  imports CPU_State Vector_Bits I8259
begin

text \<open>
  The state of the machine the interrupt controllers share: the registers of every local
  APIC and I/O APIC, the two i8259 chips, the processors, guest-physical memory and the
  virtual clock. A processor is named by the slot of \<^verbatim>\<open>local_apics\<close> its APIC was realized
  in; \<^verbatim>\<open>s->cpu\<close> and \<^verbatim>\<open>cpu->apic_state\<close> both become that slot.
\<close>

section \<open>Registers of the controllers\<close>

record APICCommonState =
  apicbase :: u32
  apic_id :: u8
  initial_apic_id :: u32
  version :: u8
  arb_id :: u8
  tpr :: u8
  spurious_vec :: u32
  log_dest :: u8
  dest_mode :: u8
  isr :: vectab
  tmr :: vectab
  irr :: vectab
  lvt :: "u32 list"
  esr :: u32
  icr :: "u32 list"
  divide_conf :: u32
  count_shift :: nat
  initial_count :: u32
  initial_count_load_time :: u64
  next_time :: u64
  timer :: "u64 option"
  timer_expiry :: u64
  sipi_vector :: u8
  wait_for_sipi :: bool
  vapic_paddr :: u64

text \<open>
  The \<^verbatim>\<open>QEMUTimer\<close> is the expiry time it is armed for, if any. Times are \<^verbatim>\<open>int64_t\<close>
  nanoseconds, kept as 64-bit words and read as signed numbers.
\<close>

record IOAPICCommonState =
  ioapic_id :: u8
  ioregsel :: u8
  io_irr :: u32
  ioredtbl :: "u64 list"
  io_version :: u8
  irq_count :: "u64 list"
  irq_level :: "int list"
  irq_eoi :: "nat list"
  delayed_timer :: "u64 option"

abbreviation (input) IOAPIC_NUM_PINS :: nat where "IOAPIC_NUM_PINS \<equiv> 24"
abbreviation (input) MAX_IOAPICS :: nat where "MAX_IOAPICS \<equiv> 2"
abbreviation (input) MAX_APICS :: nat where "MAX_APICS \<equiv> 255"
abbreviation (input) MAX_APIC_WORDS :: nat where "MAX_APIC_WORDS \<equiv> 8"

record machine =
  local_apics :: "nat \<Rightarrow> APICCommonState option"
  cpus :: "nat \<Rightarrow> CPUState"
  cpu_list :: "nat list"
  current_cpu :: "nat option"
  isa_pic :: "PICCommonState option"
  slave_pic :: PICCommonState
  ioapics :: "nat \<Rightarrow> IOAPICCommonState option"
  phys_mem :: mem
  clock_ns :: u64
  apic_irq_delivered :: u32

text \<open>Updating one APIC, one processor, or one processor's registers.\<close>

definition upd_apic :: "nat \<Rightarrow> (APICCommonState \<Rightarrow> APICCommonState) \<Rightarrow> machine \<Rightarrow> machine" where
  "upd_apic i f m = m\<lparr>local_apics := (local_apics m)(i := map_option f (local_apics m i))\<rparr>"

definition upd_cpu :: "nat \<Rightarrow> (CPUState \<Rightarrow> CPUState) \<Rightarrow> machine \<Rightarrow> machine" where
  "upd_cpu i f m = m\<lparr>cpus := (cpus m)(i := f (cpus m i))\<rparr>"

definition upd_env :: "nat \<Rightarrow> (CPUX86State \<Rightarrow> CPUX86State) \<Rightarrow> machine \<Rightarrow> machine" where
  "upd_env i f m = upd_cpu i (\<lambda>c. c\<lparr>env := f (env c)\<rparr>) m"

text \<open>The registers of the APIC in slot \<open>i\<close>, where the code has checked the pointer.\<close>

abbreviation apic_at :: "machine \<Rightarrow> nat \<Rightarrow> APICCommonState" where
  "apic_at m i \<equiv> the (local_apics m i)"

section \<open>Interrupt requests to processors\<close>

definition qemu_cpu_is_self :: "machine \<Rightarrow> nat \<Rightarrow> bool" where
  "qemu_cpu_is_self m i \<longleftrightarrow> current_cpu m = Some i"

text \<open>
  \<^verbatim>\<open>cpu_interrupt\<close> under TCG: the request is recorded, and the processor is kicked out of its
  wait, or its execution loop asked to stop when it is the calling processor itself.
\<close>

definition tcg_handle_interrupt :: "nat \<Rightarrow> u32 \<Rightarrow> machine \<Rightarrow> machine" where
  "tcg_handle_interrupt i msk m =
     upd_cpu i (\<lambda>c. c\<lparr>interrupt_request := interrupt_request c OR msk,
                      kicked := (kicked c \<or> \<not> qemu_cpu_is_self m i),
                      icount_exit := (icount_exit c \<or> qemu_cpu_is_self m i)\<rparr>) m"

abbreviation cpu_interrupt :: "nat \<Rightarrow> u32 \<Rightarrow> machine \<Rightarrow> machine" where
  "cpu_interrupt \<equiv> tcg_handle_interrupt"

definition cpu_reset_interrupt :: "nat \<Rightarrow> u32 \<Rightarrow> machine \<Rightarrow> machine" where
  "cpu_reset_interrupt i msk m =
     upd_cpu i (\<lambda>c. c\<lparr>interrupt_request := interrupt_request c AND NOT msk\<rparr>) m"

section \<open>Frame facts\<close>

lemma upd_apic_simps [frame_simps]:
  "local_apics (upd_apic i f m) = (local_apics m)(i := map_option f (local_apics m i))"
  "cpus (upd_apic i f m) = cpus m" "cpu_list (upd_apic i f m) = cpu_list m"
  "current_cpu (upd_apic i f m) = current_cpu m" "isa_pic (upd_apic i f m) = isa_pic m"
  "slave_pic (upd_apic i f m) = slave_pic m" "ioapics (upd_apic i f m) = ioapics m"
  "phys_mem (upd_apic i f m) = phys_mem m" "clock_ns (upd_apic i f m) = clock_ns m"
  "apic_irq_delivered (upd_apic i f m) = apic_irq_delivered m"
  by (simp_all add: upd_apic_def)

lemma upd_cpu_simps [frame_simps]:
  "cpus (upd_cpu i g m) = (cpus m)(i := g (cpus m i))"
  "local_apics (upd_cpu i g m) = local_apics m" "cpu_list (upd_cpu i g m) = cpu_list m"
  "current_cpu (upd_cpu i g m) = current_cpu m" "isa_pic (upd_cpu i g m) = isa_pic m"
  "slave_pic (upd_cpu i g m) = slave_pic m" "ioapics (upd_cpu i g m) = ioapics m"
  "phys_mem (upd_cpu i g m) = phys_mem m" "clock_ns (upd_cpu i g m) = clock_ns m"
  "apic_irq_delivered (upd_cpu i g m) = apic_irq_delivered m"
  by (simp_all add: upd_cpu_def)

lemma cpu_interrupt_simps [frame_simps]:
  "local_apics (cpu_interrupt i w m) = local_apics m" "cpu_list (cpu_interrupt i w m) = cpu_list m"
  "current_cpu (cpu_interrupt i w m) = current_cpu m" "isa_pic (cpu_interrupt i w m) = isa_pic m"
  "slave_pic (cpu_interrupt i w m) = slave_pic m" "ioapics (cpu_interrupt i w m) = ioapics m"
  "phys_mem (cpu_interrupt i w m) = phys_mem m" "clock_ns (cpu_interrupt i w m) = clock_ns m"
  "interrupt_request (cpus (cpu_interrupt i w m) k) =
     (if k = i then interrupt_request (cpus m k) OR w else interrupt_request (cpus m k))"
  "env (cpus (cpu_interrupt i w m) k) = env (cpus m k)"
  by (simp_all add: tcg_handle_interrupt_def frame_simps)

lemma cpu_reset_interrupt_simps [frame_simps]:
  "local_apics (cpu_reset_interrupt i w m) = local_apics m"
  "cpu_list (cpu_reset_interrupt i w m) = cpu_list m"
  "current_cpu (cpu_reset_interrupt i w m) = current_cpu m"
  "isa_pic (cpu_reset_interrupt i w m) = isa_pic m"
  "slave_pic (cpu_reset_interrupt i w m) = slave_pic m"
  "ioapics (cpu_reset_interrupt i w m) = ioapics m"
  "phys_mem (cpu_reset_interrupt i w m) = phys_mem m"
  "clock_ns (cpu_reset_interrupt i w m) = clock_ns m"
  "interrupt_request (cpus (cpu_reset_interrupt i w m) k) =
     (if k = i then interrupt_request (cpus m k) AND NOT w else interrupt_request (cpus m k))"
  "env (cpus (cpu_reset_interrupt i w m) k) = env (cpus m k)"
  by (simp_all add: cpu_reset_interrupt_def frame_simps)

section \<open>A small machine\<close>

text \<open>
  Two processors in long mode at ring 3 with interrupts enabled, each with an enabled and
  idle local APIC; no 8259, no I/O APIC, memory cleared. Processor 0 is the one running.
\<close>

definition flat_seg :: SegmentCache where
  "flat_seg = \<lparr>selector = 0, base = 0, limit = 0xffffffff, seg_flags = 0\<rparr>"

definition example_env :: CPUX86State where
  "example_env =
     \<lparr>regs = (\<lambda>_. 0), eip = 0x1000, eflags = 0x202, cc_flags = 0, df = 1,
      hflags = 0x00d0c033, hflags2 = 1, segs = (\<lambda>_. flat_seg), ldt = flat_seg, tr = flat_seg,
      gdt = flat_seg, idt = flat_seg, cr = (\<lambda>_. 0), a20_mask = -1, bndcs_cfgu = 0, msr_bndcfgs = 0,
      efer = 0x500, uintr_rr = 0, uintr_handler = 0x400000, uintr_stackadjust = 128,
      uintr_misc = 0, uintr_pd = 0, uintr_tt = 0, uintr_uif = 1, xcr0 = 1, pkru = 0, pkrs = 0,
      error_code = 0, vm_vmcb = 0, intercept_exceptions = 0, nested_cr3 = 0, nested_pg_mode = 0,
      features_1_edx = 0x200, phys_bits = 40\<rparr>"

definition example_cpu :: CPUState where
  "example_cpu = \<lparr>interrupt_request = 0, halted = False, kicked = False, icount_exit = False,
                  env = example_env\<rparr>"

definition example_apic :: "u8 \<Rightarrow> APICCommonState" where
  "example_apic i =
     \<lparr>apicbase = 0xfee00800, apic_id = i, initial_apic_id = ucast i, version = 0x14, arb_id = 0,
      tpr = 0, spurious_vec = 0x1ff, log_dest = 0, dest_mode = 0xf, isr = replicate 8 0,
      tmr = replicate 8 0, irr = replicate 8 0, lvt = replicate 6 0x10000, esr = 0, icr = [0, 0],
      divide_conf = 0, count_shift = 0, initial_count = 0, initial_count_load_time = 0,
      next_time = 0, timer = None, timer_expiry = -1, sipi_vector = 0, wait_for_sipi = False,
      vapic_paddr = 0\<rparr>"

definition example_machine :: machine where
  "example_machine =
     \<lparr>local_apics = [0 \<mapsto> example_apic 0, 1 \<mapsto> example_apic 1], cpus = (\<lambda>_. example_cpu),
      cpu_list = [0, 1], current_cpu = Some 0, isa_pic = None,
      slave_pic = pic_after_init False, ioapics = (\<lambda>_. None), phys_mem = (\<lambda>_. 0),
      clock_ns = 0, apic_irq_delivered = 0\<rparr>"

lemma example_apics [simp]:
  "local_apics example_machine i = (if i < 2 then Some (example_apic (of_nat i)) else None)"
  by (auto simp: example_machine_def less_2_cases_iff)

end
