(* ===== verification/Local_APIC.thy ===== *)
theory Local_APIC
  imports Machine
begin

text \<open>
  The local APICs (\<^verbatim>\<open>hw/intc/apic.c\<close> and \<^verbatim>\<open>hw/intc/apic_common.c\<close>): priorities and the
  request/in-service registers, delivery over the APIC bus, acknowledge and end of
  interrupt, the timer, the register file and the message-signalled interrupts. Operations
  name the APIC by its slot. The two things an APIC calls outside itself and the processors
  are gathered in \<open>apic_hooks\<close>: the EOI broadcast of the I/O APICs and the report of TPR
  accesses to the \<^verbatim>\<open>kvmvapic\<close> device.
\<close>

record apic_hooks =
  eoi_broadcast :: "nat \<Rightarrow> machine \<Rightarrow> machine"
  report_tpr_access :: "bool \<Rightarrow> nat \<Rightarrow> machine \<Rightarrow> machine"

abbreviation (input) APIC_LVT_TIMER :: nat where "APIC_LVT_TIMER \<equiv> 0"
abbreviation (input) APIC_LVT_LINT0 :: nat where "APIC_LVT_LINT0 \<equiv> 3"
abbreviation (input) APIC_LVT_LINT1 :: nat where "APIC_LVT_LINT1 \<equiv> 4"
abbreviation (input) APIC_LVT_NB :: nat where "APIC_LVT_NB \<equiv> 6"
abbreviation (input) APIC_LVT_MASKED_SHIFT :: nat where "APIC_LVT_MASKED_SHIFT \<equiv> 16"
abbreviation (input) APIC_LVT_TIMER_SHIFT :: nat where "APIC_LVT_TIMER_SHIFT \<equiv> 17"
abbreviation (input) APIC_LVT_LEVEL_TRIGGER_SHIFT :: nat where "APIC_LVT_LEVEL_TRIGGER_SHIFT \<equiv> 15"
abbreviation (input) APIC_DM_FIXED :: u8 where "APIC_DM_FIXED \<equiv> 0"
abbreviation (input) APIC_DM_LOWPRI :: u8 where "APIC_DM_LOWPRI \<equiv> 1"
abbreviation (input) APIC_DM_SMI :: u8 where "APIC_DM_SMI \<equiv> 2"
abbreviation (input) APIC_DM_NMI :: u8 where "APIC_DM_NMI \<equiv> 4"
abbreviation (input) APIC_DM_INIT :: u8 where "APIC_DM_INIT \<equiv> 5"
abbreviation (input) APIC_DM_SIPI :: u8 where "APIC_DM_SIPI \<equiv> 6"
abbreviation (input) APIC_DM_EXTINT :: u8 where "APIC_DM_EXTINT \<equiv> 7"
abbreviation (input) APIC_SV_ENABLE_SHIFT :: nat where "APIC_SV_ENABLE_SHIFT \<equiv> 8"
abbreviation (input) APIC_SV_DIRECTED_IO_SHIFT :: nat where "APIC_SV_DIRECTED_IO_SHIFT \<equiv> 12"
abbreviation (input) APICBASE_BSP_SHIFT :: nat where "APICBASE_BSP_SHIFT \<equiv> 8"
abbreviation (input) APICBASE_EXTD_SHIFT :: nat where "APICBASE_EXTD_SHIFT \<equiv> 10"
abbreviation (input) APICBASE_ENABLE_SHIFT :: nat where "APICBASE_ENABLE_SHIFT \<equiv> 11"
abbreviation (input) APIC_ESR_ILLEGAL_ADDRESS :: u32 where "APIC_ESR_ILLEGAL_ADDRESS \<equiv> 0x80"

abbreviation (input) SYNC_FROM_VAPIC :: u32 where "SYNC_FROM_VAPIC \<equiv> 1"
abbreviation (input) SYNC_TO_VAPIC :: u32 where "SYNC_TO_VAPIC \<equiv> 2"
abbreviation (input) SYNC_ISR_IRR_TO_VAPIC :: u32 where "SYNC_ISR_IRR_TO_VAPIC \<equiv> 4"

section \<open>The VAPIC page\<close>

text \<open>
  The page holds five bytes: \<^verbatim>\<open>tpr\<close>, \<^verbatim>\<open>isr\<close>, \<^verbatim>\<open>zero\<close>, \<^verbatim>\<open>irr\<close>, \<^verbatim>\<open>enabled\<close>. A full
  synchronisation writes all of them, the ISR/IRR one only the middle three.
\<close>

definition vapic_vector :: "vectab \<Rightarrow> nat" where
  "vapic_vector tab =
     (let v = get_highest_priority_int tab in nat (if v < 0 then 0 else v))"

definition apic_sync_vapic :: "nat \<Rightarrow> u32 \<Rightarrow> machine \<Rightarrow> machine" where
  "apic_sync_vapic i sync_type m =
     (if vapic_paddr (apic_at m i) = 0 then m
      else
        let m1 = (if bit sync_type 0
                  then upd_apic i (\<lambda>s. s\<lparr>tpr := phys_mem m (vapic_paddr s)\<rparr>) m else m);
            s = apic_at m1 i;
            isr_b = of_nat (vapic_vector (isr s)) AND 0xf0;
            irr_b = of_nat (vapic_vector (irr s)) AND 0xff
        in if bit sync_type 1 then
             m1\<lparr>phys_mem := store_bytes (phys_mem m1) (vapic_paddr s) [tpr s, isr_b, 0, irr_b, 1]\<rparr>
           else if bit sync_type 2 then
             m1\<lparr>phys_mem := store_bytes (phys_mem m1) (vapic_paddr s + 1) [isr_b, 0, irr_b]\<rparr>
           else m1)"

definition apic_vapic_base_update :: "nat \<Rightarrow> machine \<Rightarrow> machine" where
  "apic_vapic_base_update i m = apic_sync_vapic i SYNC_TO_VAPIC m"

section \<open>Priorities\<close>

definition apic_get_ppr :: "APICCommonState \<Rightarrow> int" where
  "apic_get_ppr s =
     (let tp = drop_bit 4 (uint (tpr s));
          isrv = get_highest_priority_int (isr s);
          isrv = drop_bit 4 (if isrv < 0 then 0 else isrv)
      in if tp \<ge> isrv then uint (tpr s) else push_bit 4 isrv)"

definition apic_get_arb_pri :: "APICCommonState \<Rightarrow> int" where
  "apic_get_arb_pri s = 0"

definition apic_irq_pending :: "APICCommonState \<Rightarrow> int" where
  "apic_irq_pending s =
     (if \<not> bit (spurious_vec s) APIC_SV_ENABLE_SHIFT then 0
      else
        let irrv = get_highest_priority_int (irr s) in
        if irrv < 0 then 0
        else
          let ppr = apic_get_ppr s in
          if ppr \<noteq> 0 \<and> irrv AND 0xf0 \<le> ppr AND 0xf0 then -1 else irrv)"

definition apic_get_highest_priority_irr :: "APICCommonState option \<Rightarrow> int" where
  "apic_get_highest_priority_irr dev =
     (case dev of None \<Rightarrow> -1 | Some s \<Rightarrow> get_highest_priority_int (irr s))"

section \<open>Signalling the processor\<close>

definition apic_accept_pic_intr :: "nat \<Rightarrow> machine \<Rightarrow> bool" where
  "apic_accept_pic_intr i m =
     (case local_apics m i of
        None \<Rightarrow> True
      | Some s \<Rightarrow>
          let lvt0 = lvt s ! APIC_LVT_LINT0 in
          if \<not> bit (apicbase s) APICBASE_ENABLE_SHIFT \<or> \<not> bit lvt0 APIC_LVT_MASKED_SHIFT
          then isa_pic m \<noteq> None else False)"

text \<open>\<^verbatim>\<open>pic_get_output(isa_pic)\<close>, only asked where \<^verbatim>\<open>isa_pic\<close> is known to exist.\<close>

definition isa_pic_output :: "machine \<Rightarrow> bool" where
  "isa_pic_output m = (case isa_pic m of None \<Rightarrow> False | Some p \<Rightarrow> pic_get_output p)"

definition apic_update_irq :: "nat \<Rightarrow> machine \<Rightarrow> machine" where
  "apic_update_irq i m =
     (if \<not> qemu_cpu_is_self m i then cpu_interrupt i CPU_INTERRUPT_POLL m
      else if apic_irq_pending (apic_at m i) > 0 then cpu_interrupt i CPU_INTERRUPT_HARD m
      else if \<not> apic_accept_pic_intr i m \<or> \<not> isa_pic_output m
      then cpu_reset_interrupt i CPU_INTERRUPT_HARD m
      else m)"

definition apic_poll_irq :: "nat \<Rightarrow> machine \<Rightarrow> machine" where
  "apic_poll_irq i m = apic_update_irq i (apic_sync_vapic i SYNC_FROM_VAPIC m)"

definition apic_report_irq_delivered :: "bool \<Rightarrow> machine \<Rightarrow> machine" where
  "apic_report_irq_delivered delivered m =
     m\<lparr>apic_irq_delivered := apic_irq_delivered m + of_bool delivered\<rparr>"

definition apic_reset_irq_delivered :: "machine \<Rightarrow> machine" where
  "apic_reset_irq_delivered m = m\<lparr>apic_irq_delivered := 0\<rparr>"

definition apic_set_irq :: "nat \<Rightarrow> nat \<Rightarrow> bool \<Rightarrow> machine \<Rightarrow> machine" where
  "apic_set_irq i vector_num trigger_mode m =
     (let m1 = apic_report_irq_delivered (\<not> apic_get_bit (irr (apic_at m i)) vector_num) m;
          m2 = upd_apic i (\<lambda>s. s\<lparr>irr := apic_set_bit (irr s) vector_num,
                 tmr := (if trigger_mode then apic_set_bit (tmr s) vector_num
                         else apic_reset_bit (tmr s) vector_num)\<rparr>) m1;
          m3 = (if vapic_paddr (apic_at m2 i) \<noteq> 0
                then apic_sync_vapic i SYNC_FROM_VAPIC
                       (apic_sync_vapic i SYNC_ISR_IRR_TO_VAPIC m2)
                else m2)
      in apic_update_irq i m3)"

section \<open>End of interrupt\<close>

definition apic_eoi :: "apic_hooks \<Rightarrow> nat \<Rightarrow> machine \<Rightarrow> machine" where
  "apic_eoi h i m =
     (let s = apic_at m i; isrv = get_highest_priority_int (isr s) in
      if isrv < 0 then m
      else
        let m1 = upd_apic i (\<lambda>s. s\<lparr>isr := apic_reset_bit (isr s) (nat isrv)\<rparr>) m;
            m2 = (if \<not> bit (spurious_vec s) APIC_SV_DIRECTED_IO_SHIFT
                     \<and> apic_get_bit (tmr s) (nat isrv)
                  then eoi_broadcast h (nat isrv) m1 else m1)
        in apic_update_irq i (apic_sync_vapic i (SYNC_FROM_VAPIC OR SYNC_TO_VAPIC) m2))"

text \<open>The same steps, exported for the user-interrupt code.\<close>

definition apic_clear_eoi :: "apic_hooks \<Rightarrow> nat \<Rightarrow> machine \<Rightarrow> machine" where
  "apic_clear_eoi h i m =
     (let s = apic_at m i; isrv = get_highest_priority_int (isr s) in
      if isrv < 0 then m
      else
        let m1 = upd_apic i (\<lambda>s. s\<lparr>isr := apic_reset_bit (isr s) (nat isrv)\<rparr>) m;
            m2 = (if \<not> bit (spurious_vec s) APIC_SV_DIRECTED_IO_SHIFT
                     \<and> apic_get_bit (tmr s) (nat isrv)
                  then eoi_broadcast h (nat isrv) m1 else m1)
        in apic_update_irq i (apic_sync_vapic i (SYNC_FROM_VAPIC OR SYNC_TO_VAPIC) m2))"

section \<open>Local sources\<close>

definition apic_local_deliver :: "nat \<Rightarrow> nat \<Rightarrow> machine \<Rightarrow> machine" where
  "apic_local_deliver i vector m =
     (let l = lvt (apic_at m i) ! vector; dm = ucast (drop_bit 8 l AND 7) :: u8 in
      if bit l APIC_LVT_MASKED_SHIFT then m
      else if dm = APIC_DM_SMI then cpu_interrupt i CPU_INTERRUPT_SMI m
      else if dm = APIC_DM_NMI then cpu_interrupt i CPU_INTERRUPT_NMI m
      else if dm = APIC_DM_EXTINT then cpu_interrupt i CPU_INTERRUPT_HARD m
      else if dm = APIC_DM_FIXED then
        apic_set_irq i (unat (l AND 0xff))
          ((vector = APIC_LVT_LINT0 \<or> vector = APIC_LVT_LINT1)
            \<and> bit l APIC_LVT_LEVEL_TRIGGER_SHIFT) m
      else m)"

definition apic_deliver_pic_intr :: "nat \<Rightarrow> bool \<Rightarrow> machine \<Rightarrow> machine" where
  "apic_deliver_pic_intr i level m =
     (if level then apic_local_deliver i APIC_LVT_LINT0 m
      else
        let l = lvt (apic_at m i) ! APIC_LVT_LINT0; dm = ucast (drop_bit 8 l AND 7) :: u8 in
        if dm = APIC_DM_FIXED then
          if \<not> bit l APIC_LVT_LEVEL_TRIGGER_SHIFT then m
          else apic_update_irq i
                 (upd_apic i (\<lambda>s. s\<lparr>irr := apic_reset_bit (irr s) (unat (l AND 0xff))\<rparr>) m)
        else if dm = APIC_DM_EXTINT then apic_update_irq i m
        else m)"

definition apic_external_nmi :: "nat \<Rightarrow> machine \<Rightarrow> machine" where
  "apic_external_nmi i m = apic_local_deliver i APIC_LVT_LINT1 m"

definition apic_check_pic :: "nat \<Rightarrow> machine \<Rightarrow> bool \<times> machine" where
  "apic_check_pic i m =
     (if \<not> apic_accept_pic_intr i m \<or> \<not> isa_pic_output m then (False, m)
      else (True, apic_deliver_pic_intr i True m))"

section \<open>Acknowledge\<close>

definition apic_get_interrupt :: "nat \<Rightarrow> machine \<Rightarrow> int \<times> machine" where
  "apic_get_interrupt i m =
     (if local_apics m i = None then (-1, m)
      else if \<not> bit (spurious_vec (apic_at m i)) APIC_SV_ENABLE_SHIFT then (-1, m)
      else
        let m1 = apic_sync_vapic i SYNC_FROM_VAPIC m;
            intno = apic_irq_pending (apic_at m1 i) in
        if intno = 0 then (-1, apic_sync_vapic i SYNC_TO_VAPIC m1)
        else
          let (pic, m2) = apic_check_pic i m1 in
          if pic then (-1, apic_sync_vapic i SYNC_TO_VAPIC m2)
          else if intno < 0
          then (uint (spurious_vec (apic_at m2 i) AND 0xff), apic_sync_vapic i SYNC_TO_VAPIC m2)
          else
            let m3 = upd_apic i (\<lambda>s. s\<lparr>irr := apic_reset_bit (irr s) (nat intno),
                                      isr := apic_set_bit (isr s) (nat intno)\<rparr>) m2
            in (intno, apic_update_irq i (apic_sync_vapic i SYNC_TO_VAPIC m3)))"

section \<open>The bus\<close>

text \<open>\<^verbatim>\<open>foreach_apic\<close>: the APICs a bitmask selects, in slot order.\<close>

definition foreach_apic :: "vectab \<Rightarrow> (nat \<Rightarrow> machine \<Rightarrow> machine) \<Rightarrow> machine \<Rightarrow> machine" where
  "foreach_apic deliver_bitmask code =
     fold (\<lambda>i m.
       let msk = deliver_bitmask ! i in
       if msk \<noteq> 0 then
         fold (\<lambda>j m.
           if msk AND push_bit j 1 \<noteq> 0 then
             (if local_apics m (i * 32 + j) \<noteq> None then code (i * 32 + j) m else m)
           else m) [0..<32] m
       else m) [0..<MAX_APIC_WORDS]"

text \<open>The first selected slot, \<open>-1\<close> when there is none.\<close>

fun first_selected :: "vectab \<Rightarrow> nat list \<Rightarrow> int" where
  "first_selected deliver_bitmask [] = -1"
| "first_selected deliver_bitmask (i # is) =
     (if deliver_bitmask ! i \<noteq> 0 then int (i * 32) + apic_ffs_bit (deliver_bitmask ! i)
      else first_selected deliver_bitmask is)"

definition apic_bus_deliver :: "vectab \<Rightarrow> u8 \<Rightarrow> u8 \<Rightarrow> u8 \<Rightarrow> machine \<Rightarrow> machine" where
  "apic_bus_deliver deliver_bitmask delivery_mode vector_num trigger_mode m =
     (if delivery_mode = APIC_DM_LOWPRI then
        (let d = first_selected deliver_bitmask [0..<MAX_APIC_WORDS] in
         if d \<ge> 0 \<and> local_apics m (nat d) \<noteq> None
         then apic_set_irq (nat d) (unat vector_num) (trigger_mode \<noteq> 0) m else m)
      else if delivery_mode = APIC_DM_SMI then
        foreach_apic deliver_bitmask (\<lambda>k. cpu_interrupt k CPU_INTERRUPT_SMI) m
      else if delivery_mode = APIC_DM_NMI then
        foreach_apic deliver_bitmask (\<lambda>k. cpu_interrupt k CPU_INTERRUPT_NMI) m
      else if delivery_mode = APIC_DM_INIT then
        foreach_apic deliver_bitmask (\<lambda>k. cpu_interrupt k CPU_INTERRUPT_INIT) m
      else if delivery_mode = APIC_DM_FIXED \<or> delivery_mode = APIC_DM_EXTINT then
        foreach_apic deliver_bitmask
          (\<lambda>k. apic_set_irq k (unat vector_num) (trigger_mode \<noteq> 0)) m
      else m)"

fun find_dest_from :: "machine \<Rightarrow> u8 \<Rightarrow> nat list \<Rightarrow> int" where
  "find_dest_from m dest [] = -1"
| "find_dest_from m dest (i # is) =
     (case local_apics m i of
        None \<Rightarrow> -1
      | Some s \<Rightarrow> if apic_id s = dest then int i else find_dest_from m dest is)"

definition apic_find_dest :: "machine \<Rightarrow> u8 \<Rightarrow> int" where
  "apic_find_dest m dest =
     (case local_apics m (unat dest) of
        Some s \<Rightarrow> if apic_id s = dest then int (unat dest) else find_dest_from m dest [0..<MAX_APICS]
      | None \<Rightarrow> find_dest_from m dest [0..<MAX_APICS])"

abbreviation no_apics :: vectab where "no_apics \<equiv> replicate MAX_APIC_WORDS 0"
abbreviation all_apics :: vectab where "all_apics \<equiv> replicate MAX_APIC_WORDS 0xffffffff"

text \<open>Whether an APIC accepts a logical destination: flat mode, or one cluster.\<close>

definition logical_match :: "u8 \<Rightarrow> APICCommonState \<Rightarrow> bool" where
  "logical_match dest s =
     (if dest_mode s = 0xf then dest AND log_dest s \<noteq> 0
      else if dest_mode s = 0 then
        dest AND 0xf0 = log_dest s AND 0xf0 \<and> dest AND log_dest s AND 0x0f \<noteq> 0
      else False)"

fun logical_bitmask_from :: "machine \<Rightarrow> u8 \<Rightarrow> nat list \<Rightarrow> vectab \<Rightarrow> vectab" where
  "logical_bitmask_from m dest [] bm = bm"
| "logical_bitmask_from m dest (i # is) bm =
     (case local_apics m i of
        None \<Rightarrow> bm
      | Some s \<Rightarrow> logical_bitmask_from m dest is
                    (if logical_match dest s then apic_set_bit bm i else bm))"

definition apic_get_delivery_bitmask :: "machine \<Rightarrow> u8 \<Rightarrow> u8 \<Rightarrow> vectab" where
  "apic_get_delivery_bitmask m dest dest_md =
     (if dest_md = 0 then
        if dest = 0xff then all_apics
        else let idx = apic_find_dest m dest in
             if idx \<ge> 0 then apic_set_bit no_apics (nat idx) else no_apics
      else logical_bitmask_from m dest [0..<MAX_APICS] no_apics)"

definition apic_deliver_irq :: "u8 \<Rightarrow> u8 \<Rightarrow> u8 \<Rightarrow> u8 \<Rightarrow> u8 \<Rightarrow> machine \<Rightarrow> machine" where
  "apic_deliver_irq dest dest_md delivery_mode vector_num trigger_mode m =
     apic_bus_deliver (apic_get_delivery_bitmask m dest dest_md)
       delivery_mode vector_num trigger_mode m"

definition send_ipi :: "u8 \<Rightarrow> u8 \<Rightarrow> machine \<Rightarrow> machine" where
  "send_ipi dest nv m = apic_deliver_irq dest 0 APIC_DM_FIXED nv 0 m"

definition apic_startup :: "nat \<Rightarrow> u8 \<Rightarrow> machine \<Rightarrow> machine" where
  "apic_startup i vector_num m =
     cpu_interrupt i CPU_INTERRUPT_SIPI (upd_apic i (\<lambda>s. s\<lparr>sipi_vector := vector_num\<rparr>) m)"

definition apic_sipi :: "nat \<Rightarrow> machine \<Rightarrow> machine" where
  "apic_sipi i m =
     (let m1 = cpu_reset_interrupt i CPU_INTERRUPT_SIPI m in
      if \<not> wait_for_sipi (apic_at m1 i) then m1
      else
        let m2 = upd_cpu i (\<lambda>c. cpu_x86_load_seg_cache_sipi c (sipi_vector (apic_at m1 i))) m1
        in upd_apic i (\<lambda>s. s\<lparr>wait_for_sipi := False\<rparr>) m2)"

definition apic_deliver :: "nat \<Rightarrow> u8 \<Rightarrow> u8 \<Rightarrow> u8 \<Rightarrow> u8 \<Rightarrow> u8 \<Rightarrow> machine \<Rightarrow> machine" where
  "apic_deliver i dest dest_md delivery_mode vector_num trigger_mode m =
     (let s = apic_at m i; icr0 = icr s ! 0;
          dest_shorthand = drop_bit 18 icr0 AND 3;
          deliver_bitmask =
            (if dest_shorthand = 0 then apic_get_delivery_bitmask m dest dest_md
             else if dest_shorthand = 1 then apic_set_bit no_apics (unat (apic_id s))
             else if dest_shorthand = 2 then all_apics
             else apic_reset_bit all_apics (unat (apic_id s)))
      in if delivery_mode = APIC_DM_INIT \<and> \<not> bit icr0 14 \<and> bit icr0 15 then
           foreach_apic deliver_bitmask (\<lambda>k. upd_apic k (\<lambda>s. s\<lparr>arb_id := apic_id s\<rparr>)) m
         else if delivery_mode = APIC_DM_SIPI then
           foreach_apic deliver_bitmask (\<lambda>k. apic_startup k vector_num) m
         else apic_bus_deliver deliver_bitmask delivery_mode vector_num trigger_mode m)"

section \<open>Frame facts\<close>

lemma apic_update_irq_simps [frame_simps]:
  "local_apics (apic_update_irq i m) = local_apics m" "cpu_list (apic_update_irq i m) = cpu_list m"
  "current_cpu (apic_update_irq i m) = current_cpu m" "isa_pic (apic_update_irq i m) = isa_pic m"
  "slave_pic (apic_update_irq i m) = slave_pic m" "ioapics (apic_update_irq i m) = ioapics m"
  "phys_mem (apic_update_irq i m) = phys_mem m" "clock_ns (apic_update_irq i m) = clock_ns m"
  "env (cpus (apic_update_irq i m) k) = env (cpus m k)"
  by (simp_all add: apic_update_irq_def frame_simps)

lemma apic_sync_vapic_frame [frame_simps]:
  "cpus (apic_sync_vapic i t m) = cpus m" "cpu_list (apic_sync_vapic i t m) = cpu_list m"
  "current_cpu (apic_sync_vapic i t m) = current_cpu m" "isa_pic (apic_sync_vapic i t m) = isa_pic m"
  "slave_pic (apic_sync_vapic i t m) = slave_pic m" "ioapics (apic_sync_vapic i t m) = ioapics m"
  "clock_ns (apic_sync_vapic i t m) = clock_ns m"
  by (simp_all add: apic_sync_vapic_def Let_def frame_simps)

text \<open>Synchronising with the VAPIC page changes no register but the task priority.\<close>

lemma apic_sync_vapic_apics:
  "local_apics (apic_sync_vapic i t m) =
     (if vapic_paddr (apic_at m i) \<noteq> 0 \<and> bit t 0
      then (local_apics m)(i := map_option (\<lambda>s. s\<lparr>tpr := phys_mem m (vapic_paddr s)\<rparr>) (local_apics m i))
      else local_apics m)"
  by (simp add: apic_sync_vapic_def Let_def frame_simps)

lemma apic_sync_vapic_none: "vapic_paddr (apic_at m i) = 0 \<Longrightarrow> apic_sync_vapic i t m = m"
  by (simp add: apic_sync_vapic_def)

section \<open>Well-formed registers\<close>

definition apic_wf :: "APICCommonState \<Rightarrow> bool" where
  "apic_wf s \<longleftrightarrow> wf_vectab (isr s) \<and> wf_vectab (tmr s) \<and> wf_vectab (irr s)
     \<and> length (lvt s) = APIC_LVT_NB \<and> length (icr s) = 2 \<and> count_shift s < 8
     \<and> spurious_vec s AND NOT 0x1ff = 0"

definition apics_wf :: "machine \<Rightarrow> bool" where
  "apics_wf m \<longleftrightarrow> (\<forall>i s. local_apics m i = Some s \<longrightarrow> i < 256 \<and> apic_wf s)"

lemma apics_wfD: "apics_wf m \<Longrightarrow> local_apics m i = Some s \<Longrightarrow> i < 256 \<and> apic_wf s"
  by (simp add: apics_wf_def)

lemma apics_wf_cong: "local_apics m = local_apics m' \<Longrightarrow> apics_wf m = apics_wf m'"
  by (simp add: apics_wf_def)

lemma apics_wf_upd:
  assumes "apics_wf m" and "\<And>s. apic_wf s \<Longrightarrow> apic_wf (f s)"
  shows "apics_wf (upd_apic i f m)"
  using assms by (auto simp: apics_wf_def frame_simps)

lemma apics_wf_simps [simp]:
  "apics_wf (upd_cpu i g m) = apics_wf m" "apics_wf (cpu_interrupt i w m) = apics_wf m"
  "apics_wf (cpu_reset_interrupt i w m) = apics_wf m" "apics_wf (apic_update_irq i m) = apics_wf m"
  "apics_wf (apic_report_irq_delivered b m) = apics_wf m"
  by (rule apics_wf_cong; simp add: frame_simps apic_report_irq_delivered_def)+

lemma apics_wf_sync_vapic: "apics_wf m \<Longrightarrow> apics_wf (apic_sync_vapic i t m)"
  by (auto simp: apics_wf_def apic_sync_vapic_apics apic_wf_def)

lemma apics_wf_set_irq: "apics_wf m \<Longrightarrow> apics_wf (apic_set_irq i v t m)"
  by (simp add: apic_set_irq_def Let_def apics_wf_sync_vapic)
     (auto intro!: apics_wf_upd apics_wf_sync_vapic simp: apic_wf_def)

section \<open>Views of the registers\<close>

abbreviation irr_set :: "machine \<Rightarrow> nat \<Rightarrow> nat set" where "irr_set m i \<equiv> vectors (irr (apic_at m i))"
abbreviation isr_set :: "machine \<Rightarrow> nat \<Rightarrow> nat set" where "isr_set m i \<equiv> vectors (isr (apic_at m i))"
abbreviation tmr_set :: "machine \<Rightarrow> nat \<Rightarrow> nat set" where "tmr_set m i \<equiv> vectors (tmr (apic_at m i))"

text \<open>Requesting a vector: what it does to the registers of its APIC, and that it leaves the others alone.\<close>

lemma apic_set_irq_apics:
  "local_apics (apic_set_irq i v t m) =
     (local_apics m)(i := map_option (\<lambda>s. s\<lparr>
        irr := apic_set_bit (irr s) v,
        tmr := (if t then apic_set_bit (tmr s) v else apic_reset_bit (tmr s) v),
        tpr := (if vapic_paddr s \<noteq> 0
                then store_bytes (phys_mem m) (vapic_paddr s + 1)
                       [of_nat (vapic_vector (isr s)) AND 0xf0, 0,
                        of_nat (vapic_vector (apic_set_bit (irr s) v)) AND 0xff] (vapic_paddr s)
                else tpr s)\<rparr>) (local_apics m i))"
  by (cases "local_apics m i")
     (auto simp: apic_set_irq_def Let_def frame_simps apic_sync_vapic_def
        apic_report_irq_delivered_def)

lemma apic_set_irq_other: "k \<noteq> i \<Longrightarrow> local_apics (apic_set_irq i v t m) k = local_apics m k"
  by (simp add: apic_set_irq_apics)

lemma apic_set_irq_exists [simp]: "local_apics (apic_set_irq i v t m) k = None \<longleftrightarrow> local_apics m k = None"
  by (simp add: apic_set_irq_apics)

lemma apic_set_irq_frame [frame_simps]:
  "cpu_list (apic_set_irq i v t m) = cpu_list m" "current_cpu (apic_set_irq i v t m) = current_cpu m"
  "isa_pic (apic_set_irq i v t m) = isa_pic m" "slave_pic (apic_set_irq i v t m) = slave_pic m"
  "ioapics (apic_set_irq i v t m) = ioapics m" "clock_ns (apic_set_irq i v t m) = clock_ns m"
  "env (cpus (apic_set_irq i v t m) k) = env (cpus m k)"
  by (simp_all add: apic_set_irq_def Let_def frame_simps apic_report_irq_delivered_def)

lemma apic_set_irq_sets:
  assumes "apics_wf m" and "v < 256" and "local_apics m i \<noteq> None"
  shows "irr_set (apic_set_irq i v t m) i = insert v (irr_set m i)"
    and "tmr_set (apic_set_irq i v t m) i = (if t then insert v (tmr_set m i) else tmr_set m i - {v})"
    and "isr (apic_at (apic_set_irq i v t m) i) = isr (apic_at m i)"
proof -
  from assms(3) obtain s where s: "local_apics m i = Some s" by blast
  then have "apic_wf s" using assms(1) by (simp add: apics_wf_def)
  then have "wf_vectab (irr s)" and "wf_vectab (tmr s)" by (simp_all add: apic_wf_def)
  with s assms(2) show "irr_set (apic_set_irq i v t m) i = insert v (irr_set m i)"
    and "tmr_set (apic_set_irq i v t m) i = (if t then insert v (tmr_set m i) else tmr_set m i - {v})"
    and "isr (apic_at (apic_set_irq i v t m) i) = isr (apic_at m i)"
    by (simp_all add: apic_set_irq_apics vector_simps)
qed

section \<open>Priority classes\<close>

lemma and_f0_int:
  fixes x :: int
  assumes "0 \<le> x" and "x < 256"
  shows "x AND 0xf0 = 16 * (x div 16)"
proof -
  have "x div 16 < 16" using assms by simp
  then have "take_bit 4 (x div 16) = x div 16"
    using assms by (intro take_bit_int_eq_self) simp_all
  moreover have "x AND 0xf0 = push_bit 4 (take_bit 4 (drop_bit 4 x))"
  proof (rule bit_eqI)
    fix n
    have m: "(0xf0 :: int) = push_bit 4 (mask 4)" by (simp add: mask_eq_exp_minus_1)
    show "bit (x AND 0xf0) n \<longleftrightarrow> bit (push_bit 4 (take_bit 4 (drop_bit 4 x))) n"
      unfolding m by (auto simp: bit_and_iff bit_push_bit_iff bit_mask_iff bit_take_bit_iff bit_drop_bit_eq)
  qed
  ultimately show ?thesis by (simp add: drop_bit_eq_div push_bit_eq_mult)
qed

text \<open>The class of the most urgent vector in service, 0 when there is none.\<close>

definition isr_class :: "APICCommonState \<Rightarrow> nat" where
  "isr_class s = (if vectors (isr s) = {} then 0 else Max (vectors (isr s)) div 16)"

lemma apic_get_ppr_eq:
  "apic_get_ppr s = (if isr_class s \<le> unat (tpr s) div 16 then int (unat (tpr s)) else int (16 * isr_class s))"
proof -
  have t: "drop_bit 4 (uint (tpr s)) = int (unat (tpr s) div 16)"
    by (simp add: drop_bit_eq_div zdiv_int)
  have c: "drop_bit 4 (if get_highest_priority_int (isr s) < 0 then 0 else get_highest_priority_int (isr s))
      = int (isr_class s)"
    by (simp add: vector_simps isr_class_def drop_bit_eq_div zdiv_int)
  show ?thesis by (simp add: apic_get_ppr_def Let_def t c push_bit_eq_mult flip: uint_nat)
qed

lemma isr_class_less: "isr_class s < 16"
proof -
  have "Max (vectors (isr s)) < 256" if "vectors (isr s) \<noteq> {}"
    using Max_in [OF finite_vectors that] vectors_bound by blast
  then show ?thesis by (simp add: isr_class_def less_mult_imp_div_less)
qed

lemma apic_get_ppr_range: "0 \<le> apic_get_ppr s" "apic_get_ppr s < 256"
proof -
  have "uint (tpr s) < 256" using uint_bounded [of "tpr s"] by simp
  with isr_class_less [of s] show "0 \<le> apic_get_ppr s" and "apic_get_ppr s < 256"
    by (auto simp: apic_get_ppr_eq)
qed

lemma apic_get_ppr_class: "apic_get_ppr s div 16 = int (max (unat (tpr s) div 16) (isr_class s))"
  by (simp add: apic_get_ppr_eq max_def zdiv_int)

lemma apic_get_ppr_zero: "apic_get_ppr s = 0 \<Longrightarrow> tpr s = 0 \<and> isr_class s = 0"
  by (auto simp: apic_get_ppr_eq uint_0_iff split: if_splits)

text \<open>
  When the APIC passes the vector \<open>v\<close> on: the processor priority is zero, or the class of
  \<open>v\<close> is above it.
\<close>

definition apic_accepts :: "APICCommonState \<Rightarrow> nat \<Rightarrow> bool" where
  "apic_accepts s v \<longleftrightarrow> apic_get_ppr s = 0 \<or> max (unat (tpr s) div 16) (isr_class s) < v div 16"

lemma apic_irq_pending_eq:
  "apic_irq_pending s =
     (if \<not> bit (spurious_vec s) APIC_SV_ENABLE_SHIFT \<or> vectors (irr s) = {} then 0
      else if apic_accepts s (Max (vectors (irr s))) then int (Max (vectors (irr s))) else -1)"
proof (cases "vectors (irr s) = {}")
  case False
  let ?v = "Max (vectors (irr s))"
  have v: "?v < 256" using Max_in [OF finite_vectors False] vectors_bound by blast
  have "apic_get_ppr s \<noteq> 0 \<and> int ?v AND 0xf0 \<le> apic_get_ppr s AND 0xf0 \<longleftrightarrow> \<not> apic_accepts s ?v"
  proof -
    have "int ?v div 16 \<le> int n \<longleftrightarrow> ?v div 16 \<le> n" for n
      by (metis of_nat_le_iff of_nat_numeral zdiv_int)
    then show ?thesis
      using v apic_get_ppr_range [of s]
      by (simp only: apic_accepts_def and_f0_int apic_get_ppr_class) (simp add: not_less le_max_iff_disj)
  qed
  with False show ?thesis by (simp add: apic_irq_pending_def Let_def vector_simps)
qed (simp add: apic_irq_pending_def vector_simps)

lemma apic_accepts_above_isr:
  assumes "apic_accepts s v" and "16 \<le> v" and "k \<in> vectors (isr s)"
  shows "k div 16 < v div 16"
proof -
  have "k div 16 \<le> isr_class s"
    using assms(3) by (auto simp: isr_class_def intro!: div_le_mono)
  moreover have "isr_class s < v div 16"
    using assms(1,2) apic_get_ppr_zero [of s] by (auto simp: apic_accepts_def)
  ultimately show ?thesis by simp
qed

section \<open>Acknowledge and end of interrupt\<close>

lemma apic_sync_vapic_regs [simp]:
  "irr (apic_at (apic_sync_vapic i t m) k) = irr (apic_at m k)"
  "isr (apic_at (apic_sync_vapic i t m) k) = isr (apic_at m k)"
  "tmr (apic_at (apic_sync_vapic i t m) k) = tmr (apic_at m k)"
  "spurious_vec (apic_at (apic_sync_vapic i t m) k) = spurious_vec (apic_at m k)"
  "local_apics (apic_sync_vapic i t m) k = None \<longleftrightarrow> local_apics m k = None"
  by (cases "local_apics m k"; auto simp: apic_sync_vapic_apics)+

text \<open>No 8259 interrupt is waiting to be passed through the APIC of slot \<open>i\<close>.\<close>

definition no_pic_intr :: "nat \<Rightarrow> machine \<Rightarrow> bool" where
  "no_pic_intr i m \<longleftrightarrow> \<not> apic_accept_pic_intr i m \<or> \<not> isa_pic_output m"

lemma no_pic_intr_synced [simp]: "no_pic_intr i (apic_sync_vapic i t m) = no_pic_intr i m"
  by (cases "local_apics m i")
     (auto simp: no_pic_intr_def apic_accept_pic_intr_def isa_pic_output_def apic_sync_vapic_apics frame_simps)

text \<open>The task priority the decision is taken with: the guest's, when it keeps one in a VAPIC page.\<close>

abbreviation apic_now :: "machine \<Rightarrow> nat \<Rightarrow> APICCommonState" where
  "apic_now m i \<equiv> apic_at (apic_sync_vapic i SYNC_FROM_VAPIC m) i"

lemma apic_get_interrupt_idle:
  assumes "local_apics m i \<noteq> None" and "no_pic_intr i m" and "irr_set m i = {}"
  shows "fst (apic_get_interrupt i m) = -1"
    and "irr (apic_at (snd (apic_get_interrupt i m)) i) = irr (apic_at m i)"
    and "isr (apic_at (snd (apic_get_interrupt i m)) i) = isr (apic_at m i)"
  using assms by (simp_all add: apic_get_interrupt_def Let_def apic_irq_pending_eq)

lemma apic_get_interrupt_masked:
  assumes "local_apics m i \<noteq> None" and "no_pic_intr i m" and "irr_set m i \<noteq> {}"
    and "bit (spurious_vec (apic_at m i)) APIC_SV_ENABLE_SHIFT"
    and "\<not> apic_accepts (apic_now m i) (Max (irr_set m i))"
  shows "fst (apic_get_interrupt i m) = uint (spurious_vec (apic_at m i) AND 0xff)"
    and "irr (apic_at (snd (apic_get_interrupt i m)) i) = irr (apic_at m i)"
    and "isr (apic_at (snd (apic_get_interrupt i m)) i) = isr (apic_at m i)"
proof -
  have "\<not> (apic_accept_pic_intr i (apic_sync_vapic i SYNC_FROM_VAPIC m)
      \<and> isa_pic_output (apic_sync_vapic i SYNC_FROM_VAPIC m))"
    using assms(2) no_pic_intr_synced [of i SYNC_FROM_VAPIC m] by (simp add: no_pic_intr_def)
  then have p: "apic_check_pic i (apic_sync_vapic i SYNC_FROM_VAPIC m) = (False, apic_sync_vapic i SYNC_FROM_VAPIC m)"
    by (auto simp: apic_check_pic_def)
  show "fst (apic_get_interrupt i m) = uint (spurious_vec (apic_at m i) AND 0xff)"
    and "irr (apic_at (snd (apic_get_interrupt i m)) i) = irr (apic_at m i)"
    and "isr (apic_at (snd (apic_get_interrupt i m)) i) = isr (apic_at m i)"
    using assms(1,3,4,5) by (simp_all add: apic_get_interrupt_def Let_def apic_irq_pending_eq p del: not_None_eq)
qed

lemma apic_get_interrupt_accepted:
  assumes "local_apics m i \<noteq> None" and "no_pic_intr i m" and "irr_set m i \<noteq> {}"
    and "bit (spurious_vec (apic_at m i)) APIC_SV_ENABLE_SHIFT"
    and "apic_accepts (apic_now m i) (Max (irr_set m i))" and "0 < Max (irr_set m i)"
  shows "fst (apic_get_interrupt i m) = int (Max (irr_set m i))"
    and "irr (apic_at (snd (apic_get_interrupt i m)) i) = apic_reset_bit (irr (apic_at m i)) (Max (irr_set m i))"
    and "isr (apic_at (snd (apic_get_interrupt i m)) i) = apic_set_bit (isr (apic_at m i)) (Max (irr_set m i))"
    and "tmr (apic_at (snd (apic_get_interrupt i m)) i) = tmr (apic_at m i)"
proof -
  have "\<not> (apic_accept_pic_intr i (apic_sync_vapic i SYNC_FROM_VAPIC m)
      \<and> isa_pic_output (apic_sync_vapic i SYNC_FROM_VAPIC m))"
    using assms(2) no_pic_intr_synced [of i SYNC_FROM_VAPIC m] by (simp add: no_pic_intr_def)
  then have p: "apic_check_pic i (apic_sync_vapic i SYNC_FROM_VAPIC m) = (False, apic_sync_vapic i SYNC_FROM_VAPIC m)"
    by (auto simp: apic_check_pic_def)
  obtain s where s: "local_apics (apic_sync_vapic i SYNC_FROM_VAPIC m) i = Some s"
    using assms(1) by (meson apic_sync_vapic_regs(5) not_None_eq)
  then have "irr s = irr (apic_at m i)" "isr s = isr (apic_at m i)" "tmr s = tmr (apic_at m i)"
    "spurious_vec s = spurious_vec (apic_at m i)"
    using apic_sync_vapic_regs(1-4) [of i SYNC_FROM_VAPIC m i] by simp_all
  then show "fst (apic_get_interrupt i m) = int (Max (irr_set m i))"
    and "irr (apic_at (snd (apic_get_interrupt i m)) i) = apic_reset_bit (irr (apic_at m i)) (Max (irr_set m i))"
    and "isr (apic_at (snd (apic_get_interrupt i m)) i) = apic_set_bit (isr (apic_at m i)) (Max (irr_set m i))"
    and "tmr (apic_at (snd (apic_get_interrupt i m)) i) = tmr (apic_at m i)"
    using assms(1,3,4,5,6) s
    by (simp_all add: apic_get_interrupt_def Let_def apic_irq_pending_eq p frame_simps del: not_None_eq)
qed



lemma example_apics_wf: "apics_wf example_machine"
  by (auto simp: apics_wf_def apic_wf_def wf_vectab_def example_apic_def split: if_splits)

text \<open>The small machine with vector 0x31 requested at the first APIC.\<close>

definition example_pending :: machine where
  "example_pending = apic_set_irq 0 0x31 False example_machine"

lemma example_pending:
  "apics_wf example_pending" "local_apics example_pending 0 \<noteq> None" "no_pic_intr 0 example_pending"
  "bit (spurious_vec (apic_at example_pending 0)) APIC_SV_ENABLE_SHIFT" "irr_set example_pending 0 = {0x31}"
  "apic_accepts (apic_now example_pending 0) 0x31"
proof -
  let ?m = "apic_set_irq 0 0x31 False example_machine"
  have apic: "local_apics ?m 0 \<noteq> None" "vapic_paddr (apic_at ?m 0) = 0" "tpr (apic_at ?m 0) = 0"
    "isr (apic_at ?m 0) = replicate 8 0"
    by (simp_all add: apic_set_irq_apics example_apic_def)
  show "apics_wf example_pending" unfolding example_pending_def by (rule apics_wf_set_irq [OF example_apics_wf])
  show "local_apics example_pending 0 \<noteq> None" unfolding example_pending_def by (rule apic(1))
  show "no_pic_intr 0 example_pending"
    by (simp add: example_pending_def no_pic_intr_def isa_pic_output_def frame_simps example_machine_def)
  show "bit (spurious_vec (apic_at example_pending 0)) APIC_SV_ENABLE_SHIFT"
    by (simp add: example_pending_def apic_set_irq_apics example_apic_def)
  have "irr_set example_machine 0 = {}" by (simp add: example_apic_def vectors_none)
  then show "irr_set example_pending 0 = {0x31}"
    unfolding example_pending_def using apic_set_irq_sets(1) [OF example_apics_wf, of "0x31" 0 False] by simp
  have "isr_class (apic_at ?m 0) = 0" unfolding isr_class_def apic vectors_none by simp
  then show "apic_accepts (apic_now example_pending 0) 0x31"
    unfolding example_pending_def by (simp add: apic_sync_vapic_none [OF apic(2)] apic_accepts_def apic)
qed


section \<open>What the local sources keep\<close>

lemma apic_local_deliver_frame [frame_simps]:
  "ioapics (apic_local_deliver i n m) = ioapics m"
  "local_apics (apic_local_deliver i n m) k = None \<longleftrightarrow> local_apics m k = None"
  by (simp_all add: apic_local_deliver_def Let_def frame_simps)

lemma apics_wf_local_deliver: "apics_wf m \<Longrightarrow> apics_wf (apic_local_deliver i n m)"
  by (simp add: apic_local_deliver_def Let_def apics_wf_set_irq)

lemma apics_wf_deliver_pic_intr: "apics_wf m \<Longrightarrow> apics_wf (apic_deliver_pic_intr i l m)"
  by (auto simp: apic_deliver_pic_intr_def Let_def apics_wf_local_deliver apic_wf_def intro!: apics_wf_upd)

lemma apic_check_pic_frame [frame_simps]:
  "ioapics (snd (apic_check_pic i m)) = ioapics m"
  "local_apics (snd (apic_check_pic i m)) k = None \<longleftrightarrow> local_apics m k = None"
  by (simp_all add: apic_check_pic_def apic_deliver_pic_intr_def frame_simps)

lemma apics_wf_check_pic: "apics_wf m \<Longrightarrow> apics_wf (snd (apic_check_pic i m))"
  by (simp add: apic_check_pic_def apics_wf_deliver_pic_intr)

lemma apic_get_interrupt_ioapics: "ioapics (snd (apic_get_interrupt i m)) = ioapics m"
  by (simp add: apic_get_interrupt_def Let_def case_prod_beta frame_simps)

lemma apic_get_interrupt_exists: "local_apics (snd (apic_get_interrupt i m)) k = None \<longleftrightarrow> local_apics m k = None"
  by (simp add: apic_get_interrupt_def Let_def case_prod_beta frame_simps)

lemma apics_wf_get_interrupt: "apics_wf m \<Longrightarrow> apics_wf (snd (apic_get_interrupt i m))"
  by (auto simp: apic_get_interrupt_def Let_def case_prod_beta apic_wf_def
      intro!: apics_wf_sync_vapic apics_wf_upd apics_wf_check_pic)

section \<open>End of interrupt\<close>

lemma apic_clear_eoi_eq: "apic_clear_eoi h i m = apic_eoi h i m"
  by (simp add: apic_clear_eoi_def apic_eoi_def)

lemma apic_eoi_none: "isr_set m i = {} \<Longrightarrow> apic_eoi h i m = m"
  by (simp add: apic_eoi_def Let_def vector_simps)

text \<open>
  What the rest of the chipset promises an APIC that signals the end of an interrupt: in a
  \<open>sane\<close> machine the broadcast to the I/O APICs comes back, if at all, as new requests.
\<close>

locale apic_environment =
  fixes h :: apic_hooks and sane :: "machine \<Rightarrow> bool"
  assumes eoi_wf: "sane m \<Longrightarrow> apics_wf m \<Longrightarrow> apics_wf (eoi_broadcast h v m)"
    and eoi_isr: "sane m \<Longrightarrow> isr (apic_at (eoi_broadcast h v m) i) = isr (apic_at m i)"
    and eoi_exists: "sane m \<Longrightarrow> local_apics (eoi_broadcast h v m) i = None \<longleftrightarrow> local_apics m i = None"
    and sane_cong: "ioapics m = ioapics m' \<Longrightarrow> sane m \<longleftrightarrow> sane m'"
begin

lemma apic_eoi_isr_wf:
  assumes "sane m" and "apics_wf m" and "local_apics m i \<noteq> None"
  shows "isr_set (apic_eoi h i m) i = isr_set m i - {Max (isr_set m i)}" and "apics_wf (apic_eoi h i m)"
proof -
  from assms(3) obtain s where s: "local_apics m i = Some s" by blast
  then have wf: "wf_vectab (isr s)" using assms(2) by (simp add: apics_wf_def apic_wf_def)
  let ?v = "Max (vectors (isr s))"
  let ?m = "upd_apic i (\<lambda>s. s\<lparr>isr := apic_reset_bit (isr s) ?v\<rparr>) m"
  have sane: "sane ?m" using assms(1) sane_cong [of m ?m] by (simp add: frame_simps)
  have wf': "apics_wf ?m" using assms(2) by (auto intro!: apics_wf_upd simp: apic_wf_def)
  have v: "?v < 256" if "vectors (isr s) \<noteq> {}"
    using Max_in [OF finite_vectors that] vectors_bound by blast
  show "isr_set (apic_eoi h i m) i = isr_set m i - {Max (isr_set m i)}"
    using s wf v by (auto simp: apic_eoi_def Let_def vector_simps frame_simps eoi_isr [OF sane])
  show "apics_wf (apic_eoi h i m)"
    using s wf' assms(2) eoi_wf [OF sane wf']
    by (auto simp: apic_eoi_def Let_def vector_simps intro!: apics_wf_sync_vapic)
qed

text \<open>The in-service register is a stack: acknowledge pushes the vector that end of interrupt pops.\<close>

lemma ack_eoi_isr:
  assumes "sane m" and "apics_wf m" and "local_apics m i \<noteq> None" and "no_pic_intr i m"
    and "bit (spurious_vec (apic_at m i)) APIC_SV_ENABLE_SHIFT" and "irr_set m i \<noteq> {}"
    and "apic_accepts (apic_now m i) (Max (irr_set m i))" and "16 \<le> Max (irr_set m i)"
    and m': "m' = snd (apic_get_interrupt i m)"
  shows "isr_set (apic_eoi h i m') i = isr_set m i"
proof -
  have "sane m'" using assms(1) sane_cong [of m m'] by (simp add: m' apic_get_interrupt_ioapics)
  note ok' = this apics_wf_get_interrupt [OF assms(2), of i, folded m']
  let ?v = "Max (irr_set m i)"
  from assms(2,3) have wf: "wf_vectab (irr (apic_at m i))" "wf_vectab (isr (apic_at m i))"
    by (auto simp: apics_wf_def apic_wf_def)
  have v: "?v < 256" using Max_in [OF finite_vectors assms(6)] vectors_bound by blast
  have isr': "isr_set m' i = insert ?v (isr_set m i)"
    using apic_get_interrupt_accepted(3) [OF assms(3,4,6,5,7)] assms(8) wf v by (simp add: m' vector_simps)
  have above: "k < ?v" if "k \<in> isr_set m i" for k
    using apic_accepts_above_isr [OF assms(7,8), of k] that by (auto simp: div_less_mono dest: div_le_mono)
  have "Max (isr_set m' i) = ?v"
    unfolding isr' by (rule Max_eqI) (use above in \<open>auto intro: finite_vectors less_imp_le\<close>)
  moreover have "local_apics m' i \<noteq> None" using assms(3) by (simp add: m' apic_get_interrupt_exists)
  ultimately show ?thesis
    using apic_eoi_isr_wf(1) [OF ok'] isr' above by fastforce
qed

end

end
