(* ===== verification/APIC_Regs.thy ===== *)
theory APIC_Regs
  imports Local_APIC
begin

text \<open>
  The guest's and the machine's view of a local APIC: its timer, the memory-mapped register
  file, message-signalled interrupts, the APIC base and task-priority accessors, reset and
  realization (\<^verbatim>\<open>apic.c\<close>, \<^verbatim>\<open>apic_common.c\<close>).
\<close>

section \<open>The timer\<close>

text \<open>
  \<^verbatim>\<open>d\<close> is an \<^verbatim>\<open>int64_t\<close>: the shift is arithmetic, the comparison signed, while the division
  and the product are done in \<^verbatim>\<open>uint64_t\<close> because their other operand is.
\<close>

definition apic_next_timer :: "APICCommonState \<Rightarrow> u64 \<Rightarrow> bool \<times> APICCommonState" where
  "apic_next_timer s current_time =
     (let s = s\<lparr>timer_expiry := -1\<rparr> in
      if bit (lvt s ! APIC_LVT_TIMER) APIC_LVT_MASKED_SHIFT then (False, s)
      else
        let d = signed_drop_bit (count_shift s) (current_time - initial_count_load_time s);
            count = ucast (initial_count s) :: u64 in
        if bit (lvt s ! APIC_LVT_TIMER) APIC_LVT_TIMER_SHIFT then
          if initial_count s = 0 then (False, s)
          else
            let d = (d div (count + 1) + 1) * (count + 1);
                nt = initial_count_load_time s + push_bit (count_shift s) d
            in (True, s\<lparr>next_time := nt, timer_expiry := nt\<rparr>)
        else if sint d \<ge> uint (initial_count s) then (False, s)
        else
          let d = count + 1;
              nt = initial_count_load_time s + push_bit (count_shift s) d
          in (True, s\<lparr>next_time := nt, timer_expiry := nt\<rparr>))"

definition apic_get_current_count :: "APICCommonState \<Rightarrow> u64 \<Rightarrow> u32" where
  "apic_get_current_count s now =
     (let d = signed_drop_bit (count_shift s) (now - initial_count_load_time s);
          count = ucast (initial_count s) :: u64 in
      if bit (lvt s ! APIC_LVT_TIMER) APIC_LVT_TIMER_SHIFT
      then ucast (count - d mod (count + 1))
      else if sint d \<ge> uint (initial_count s) then 0
      else ucast (count - d))"

definition apic_timer_update :: "nat \<Rightarrow> u64 \<Rightarrow> machine \<Rightarrow> machine" where
  "apic_timer_update i current_time m =
     upd_apic i (\<lambda>s. let (armed, s') = apic_next_timer s current_time in
                     s'\<lparr>timer := (if armed then Some (next_time s') else None)\<rparr>) m"

definition apic_timer :: "nat \<Rightarrow> machine \<Rightarrow> machine" where
  "apic_timer i m =
     (let m1 = apic_local_deliver i APIC_LVT_TIMER m
      in apic_timer_update i (next_time (apic_at m1 i)) m1)"

section \<open>Base address and task priority\<close>

definition apic_set_base :: "nat \<Rightarrow> u64 \<Rightarrow> machine \<Rightarrow> machine" where
  "apic_set_base i val m =
     (let m1 = upd_apic i (\<lambda>s. s\<lparr>apicbase := ucast (val AND 0xfffff000) OR (apicbase s AND 0x900)\<rparr>) m
      in if \<not> bit val APICBASE_ENABLE_SHIFT then
           upd_apic i (\<lambda>s. s\<lparr>spurious_vec := spurious_vec s AND NOT (push_bit APIC_SV_ENABLE_SHIFT 1)\<rparr>)
             (upd_env i (\<lambda>e. e\<lparr>features_1_edx := features_1_edx e AND NOT (push_bit 9 1)\<rparr>)
               (upd_apic i (\<lambda>s. s\<lparr>apicbase := apicbase s AND NOT (push_bit APICBASE_ENABLE_SHIFT 1)\<rparr>) m1))
         else m1)"

definition cpu_set_apic_base :: "nat \<Rightarrow> u64 \<Rightarrow> machine \<Rightarrow> machine" where
  "cpu_set_apic_base i val m =
     (case local_apics m i of
        None \<Rightarrow> m
      | Some s \<Rightarrow>
          apic_set_base i val
            (if \<not> bit (apicbase s) APICBASE_EXTD_SHIFT \<and> bit val APICBASE_EXTD_SHIFT
             then upd_apic i (\<lambda>s. s\<lparr>apic_id := ucast (initial_apic_id s)\<rparr>) m else m))"

definition cpu_get_apic_base :: "nat \<Rightarrow> machine \<Rightarrow> u64" where
  "cpu_get_apic_base i m =
     (case local_apics m i of Some s \<Rightarrow> ucast (apicbase s) | None \<Rightarrow> push_bit APICBASE_BSP_SHIFT 1)"

definition apic_set_tpr :: "nat \<Rightarrow> u8 \<Rightarrow> machine \<Rightarrow> machine" where
  "apic_set_tpr i val m =
     (if vapic_paddr (apic_at m i) = 0
      then apic_update_irq i (upd_apic i (\<lambda>s. s\<lparr>tpr := push_bit 4 val\<rparr>) m) else m)"

definition apic_get_tpr :: "nat \<Rightarrow> machine \<Rightarrow> u8 \<times> machine" where
  "apic_get_tpr i m =
     (let m1 = apic_sync_vapic i SYNC_FROM_VAPIC m in (drop_bit 4 (tpr (apic_at m1 i)), m1))"

definition cpu_set_apic_tpr :: "nat \<Rightarrow> u8 \<Rightarrow> machine \<Rightarrow> machine" where
  "cpu_set_apic_tpr i val m = (if local_apics m i = None then m else apic_set_tpr i val m)"

definition cpu_get_apic_tpr :: "nat \<Rightarrow> machine \<Rightarrow> u8 \<times> machine" where
  "cpu_get_apic_tpr i m = (if local_apics m i = None then (0, m) else apic_get_tpr i m)"

definition apic_enable_vapic :: "nat \<Rightarrow> u64 \<Rightarrow> machine \<Rightarrow> machine" where
  "apic_enable_vapic i paddr m =
     apic_vapic_base_update i (upd_apic i (\<lambda>s. s\<lparr>vapic_paddr := paddr\<rparr>) m)"

section \<open>Reset and realization\<close>

definition cpu_is_bsp :: "nat \<Rightarrow> machine \<Rightarrow> bool" where
  "cpu_is_bsp i m = bit (cpu_get_apic_base i m) APICBASE_BSP_SHIFT"

definition apic_init_reset :: "nat \<Rightarrow> machine \<Rightarrow> machine" where
  "apic_init_reset i m =
     (if local_apics m i = None then m
      else upd_apic i (\<lambda>s. s\<lparr>
        tpr := 0, spurious_vec := 0xff, log_dest := 0, dest_mode := 0xf,
        isr := no_apics, tmr := no_apics, irr := no_apics,
        lvt := replicate APIC_LVT_NB (push_bit APIC_LVT_MASKED_SHIFT 1),
        esr := 0, icr := [0, 0], divide_conf := 0, count_shift := 0, initial_count := 0,
        initial_count_load_time := 0, next_time := 0, wait_for_sipi := \<not> cpu_is_bsp i m,
        timer := None, timer_expiry := -1\<rparr>) m)"

definition apic_designate_bsp :: "nat \<Rightarrow> bool \<Rightarrow> machine \<Rightarrow> machine" where
  "apic_designate_bsp i bsp m =
     (if local_apics m i = None then m
      else upd_apic i (\<lambda>s. s\<lparr>apicbase := (if bsp then apicbase s OR push_bit APICBASE_BSP_SHIFT 1
             else apicbase s AND NOT (push_bit APICBASE_BSP_SHIFT 1))\<rparr>) m)"

definition apic_reset_common :: "nat \<Rightarrow> machine \<Rightarrow> machine" where
  "apic_reset_common i m =
     (let m1 = upd_apic i (\<lambda>s. s\<lparr>
            apicbase := 0xfee00000 OR (apicbase s AND push_bit APICBASE_BSP_SHIFT 1)
                          OR push_bit APICBASE_ENABLE_SHIFT 1,
            apic_id := ucast (initial_apic_id s)\<rparr>) m;
          m2 = apic_reset_irq_delivered m1;
          m3 = apic_vapic_base_update i (upd_apic i (\<lambda>s. s\<lparr>vapic_paddr := 0\<rparr>) m2)
      in apic_init_reset i m3)"

definition apic_realize :: "APICCommonState \<Rightarrow> machine \<Rightarrow> string + machine" where
  "apic_realize s m =
     (if unat (apic_id s) \<ge> MAX_APICS
      then Inl ''initialization failed. APIC ID is invalid''
      else Inr (m\<lparr>local_apics := (local_apics m)(unat (apic_id s) \<mapsto> s\<lparr>timer := None\<rparr>)\<rparr>))"

definition apic_unrealize :: "nat \<Rightarrow> machine \<Rightarrow> machine" where
  "apic_unrealize i m =
     m\<lparr>local_apics := (local_apics m)(unat (apic_id (apic_at m i)) := None)\<rparr>"

definition apic_post_load :: "APICCommonState \<Rightarrow> APICCommonState" where
  "apic_post_load s = s\<lparr>timer := (if timer_expiry s \<noteq> -1 then Some (timer_expiry s) else None)\<rparr>"

section \<open>Message-signalled interrupts\<close>

definition apic_send_msi :: "u64 \<Rightarrow> u32 \<Rightarrow> machine \<Rightarrow> machine" where
  "apic_send_msi addr dat m =
     (let dest = ucast (drop_bit 12 (addr AND 0x000ff000)) :: u8;
          vector = ucast (dat AND 0xff) :: u8;
          dest_md = ucast (drop_bit 2 addr AND 1) :: u8;
          trigger_md = ucast (drop_bit 15 dat AND 1) :: u8;
          delivery = ucast (drop_bit 8 dat AND 7) :: u8
      in apic_deliver_irq dest dest_md delivery vector trigger_md m)"

section \<open>The register file\<close>

definition cpu_get_current_apic :: "machine \<Rightarrow> nat option" where
  "cpu_get_current_apic m =
     (case current_cpu m of
        None \<Rightarrow> None
      | Some i \<Rightarrow> if local_apics m i = None then None else Some i)"

definition apic_reg_index :: "u64 \<Rightarrow> nat" where
  "apic_reg_index addr = unat (drop_bit 4 addr AND 0xff)"

definition apic_mem_read :: "apic_hooks \<Rightarrow> u64 \<Rightarrow> nat \<Rightarrow> machine \<Rightarrow> u64 \<times> machine" where
  "apic_mem_read h addr siz m =
     (if siz < 4 then (0, m)
      else case cpu_get_current_apic m of
        None \<Rightarrow> (0, m)
      | Some i \<Rightarrow>
          let s = apic_at m i; index = apic_reg_index addr;
              ret = (\<lambda>v :: u32. (ucast v :: u64, m)) in
          if index = 0x02 then ret (push_bit 24 (ucast (apic_id s)))
          else if index = 0x03 then ret (ucast (version s) OR push_bit 16 5)
          else if index = 0x08 then
            (let m1 = report_tpr_access h False i (apic_sync_vapic i SYNC_FROM_VAPIC m)
             in (ucast (tpr (apic_at m1 i)), m1))
          else if index = 0x09 then ret (word_of_int (apic_get_arb_pri s))
          else if index = 0x0a then ret (word_of_int (apic_get_ppr s))
          else if index = 0x0b then ret 0
          else if index = 0x0d then ret (push_bit 24 (ucast (log_dest s)))
          else if index = 0x0e then ret (push_bit 28 (ucast (dest_mode s)) OR 0xfffffff)
          else if index = 0x0f then ret (spurious_vec s)
          else if 0x10 \<le> index \<and> index \<le> 0x17 then ret (isr s ! (index mod 8))
          else if 0x18 \<le> index \<and> index \<le> 0x1f then ret (tmr s ! (index mod 8))
          else if 0x20 \<le> index \<and> index \<le> 0x27 then ret (irr s ! (index mod 8))
          else if index = 0x28 then ret (esr s)
          else if index = 0x30 \<or> index = 0x31 then ret (icr s ! (index mod 2))
          else if 0x32 \<le> index \<and> index \<le> 0x37 then ret (lvt s ! (index - 0x32))
          else if index = 0x38 then ret (initial_count s)
          else if index = 0x39 then ret (apic_get_current_count s (clock_ns m))
          else if index = 0x3e then ret (divide_conf s)
          else (0, upd_apic i (\<lambda>s. s\<lparr>esr := esr s OR APIC_ESR_ILLEGAL_ADDRESS\<rparr>) m))"

text \<open>The write to the interrupt command register sends the message it describes.\<close>

definition apic_icr_write :: "nat \<Rightarrow> u32 \<Rightarrow> machine \<Rightarrow> machine" where
  "apic_icr_write i val m =
     (let m1 = upd_apic i (\<lambda>s. s\<lparr>icr := (icr s)[0 := val]\<rparr>) m;
          icr0 = icr (apic_at m1 i) ! 0; icr1 = icr (apic_at m1 i) ! 1
      in apic_deliver i (ucast (drop_bit 24 icr1 AND 0xff)) (ucast (drop_bit 11 icr0 AND 1))
           (ucast (drop_bit 8 icr0 AND 7)) (ucast (icr0 AND 0xff)) (ucast (drop_bit 15 icr0 AND 1)) m1)"

definition apic_reg_write :: "apic_hooks \<Rightarrow> nat \<Rightarrow> nat \<Rightarrow> u64 \<Rightarrow> machine \<Rightarrow> machine" where
  "apic_reg_write h i index val m =
     (if index = 0x02 then upd_apic i (\<lambda>s. s\<lparr>apic_id := ucast (drop_bit 24 val)\<rparr>) m
      else if index = 0x03 then m
      else if index = 0x08 then
        apic_update_irq i (apic_sync_vapic i SYNC_TO_VAPIC
          (upd_apic i (\<lambda>s. s\<lparr>tpr := ucast val\<rparr>) (report_tpr_access h True i m)))
      else if index = 0x09 \<or> index = 0x0a then m
      else if index = 0x0b then apic_eoi h i m
      else if index = 0x0d then upd_apic i (\<lambda>s. s\<lparr>log_dest := ucast (drop_bit 24 val)\<rparr>) m
      else if index = 0x0e then upd_apic i (\<lambda>s. s\<lparr>dest_mode := ucast (drop_bit 28 val)\<rparr>) m
      else if index = 0x0f then
        apic_update_irq i (upd_apic i (\<lambda>s. s\<lparr>spurious_vec := ucast (val AND 0x1ff)\<rparr>) m)
      else if 0x10 \<le> index \<and> index \<le> 0x28 then m
      else if index = 0x30 then apic_icr_write i (ucast val) m
      else if index = 0x31 then upd_apic i (\<lambda>s. s\<lparr>icr := (icr s)[1 := ucast val]\<rparr>) m
      else if 0x32 \<le> index \<and> index \<le> 0x37 then
        (let n = index - 0x32; m1 = upd_apic i (\<lambda>s. s\<lparr>lvt := (lvt s)[n := ucast val]\<rparr>) m in
         if n = APIC_LVT_TIMER then apic_timer_update i (clock_ns m1) m1
         else if n = APIC_LVT_LINT0 then
           (let (pic, m2) = apic_check_pic i m1 in if pic then apic_update_irq i m2 else m2)
         else m1)
      else if index = 0x38 then
        apic_timer_update i (clock_ns m)
          (upd_apic i (\<lambda>s. s\<lparr>initial_count := ucast val, initial_count_load_time := clock_ns m\<rparr>) m)
      else if index = 0x39 then m
      else if index = 0x3e then
        upd_apic i (\<lambda>s.
          let dc = ucast (val AND 0xb) :: u32;
              v = (dc AND 3) OR (drop_bit 1 dc AND 4)
          in s\<lparr>divide_conf := dc, count_shift := unat ((v + 1) AND 7)\<rparr>) m
      else upd_apic i (\<lambda>s. s\<lparr>esr := esr s OR APIC_ESR_ILLEGAL_ADDRESS\<rparr>) m)"

definition apic_mem_write :: "apic_hooks \<Rightarrow> u64 \<Rightarrow> u64 \<Rightarrow> nat \<Rightarrow> machine \<Rightarrow> machine" where
  "apic_mem_write h addr val siz m =
     (if siz < 4 then m
      else if addr > 0xfff \<or> apic_reg_index addr = 0 then apic_send_msi addr (ucast val) m
      else case cpu_get_current_apic m of
        None \<Rightarrow> m
      | Some i \<Rightarrow> apic_reg_write h i (apic_reg_index addr) val m)"

end
