(* ===== verification/APIC_Delivery.thy ===== *)
theory APIC_Delivery
  imports APIC_Regs
begin

text \<open>
  What delivery over the APIC bus achieves: which APICs a destination names, that a fixed
  message reaches exactly the selected ones, and that message-signalled interrupts and
  inter-processor interrupts are instances of it.
\<close>

section \<open>Visiting the selected APICs\<close>

definition visit :: "vectab \<Rightarrow> (nat \<Rightarrow> machine \<Rightarrow> machine) \<Rightarrow> nat \<Rightarrow> machine \<Rightarrow> machine" where
  "visit bm code k m = (if k \<in> vectors bm \<and> local_apics m k \<noteq> None then code k m else m)"

lemma slots_256: "[0..<256] = concat (map (\<lambda>i. map (\<lambda>j. i * 32 + j) [0..<32]) [0..<8])"
  by code_simp

lemma fold_id: "(\<And>x. x \<in> set xs \<Longrightarrow> f x = id) \<Longrightarrow> fold f xs = id"
  by (induction xs) auto

lemma fold_concat: "fold f (concat xss) = fold (fold f) xss"
  by (induction xss) auto

lemma foreach_apic_eq: "foreach_apic bm code = fold (visit bm code) [0..<256]"
proof -
  have inner: "(let msk = bm ! i in if msk \<noteq> 0 then
         fold (\<lambda>j m. if msk AND push_bit j 1 \<noteq> 0 then
             (if local_apics m (i * 32 + j) \<noteq> None then code (i * 32 + j) m else m) else m) [0..<32] m
       else m) = fold (visit bm code) (map (\<lambda>j. i * 32 + j) [0..<32]) m" if "i < 8" for i m
  proof -
    have v: "visit bm code (i * 32 + j) =
        (\<lambda>m. if bit (bm ! i) j then (if local_apics m (i * 32 + j) \<noteq> None then code (i * 32 + j) m else m) else m)"
      if "j < 32" for j
      using that \<open>i < 8\<close> by (auto simp: visit_def vectors_def fun_eq_iff)
    have "fold (visit bm code) (map (\<lambda>j. i * 32 + j) [0..<32]) m =
        fold (\<lambda>j m. if bit (bm ! i) j then
             (if local_apics m (i * 32 + j) \<noteq> None then code (i * 32 + j) m else m) else m) [0..<32] m"
      unfolding fold_map by (rule fold_cong) (simp_all add: v)
    then show ?thesis by (simp add: mask_simps fold_id fun_eq_iff Let_def del: not_None_eq upt_conv_Cons)
  qed
  show ?thesis
    unfolding foreach_apic_def slots_256 fold_concat fold_map
    by (rule ext) (intro fold_cong refl, simp add: inner fold_map comp_def del: upt_conv_Cons)
qed

text \<open>
  Visiting distinct slots with code that only touches its own slot: each slot ends as its
  own visit leaves it, started from some intermediate machine that still has the slot as it was.
\<close>

lemma fold_visit_local:
  assumes "distinct ks" and "Q m" and keep: "\<And>k m. Q m \<Longrightarrow> Q (code k m)"
    and own: "\<And>k j m. j \<noteq> k \<Longrightarrow> local_apics (code k m) j = local_apics m j"
  shows "\<exists>m'. Q m' \<and> local_apics m' k = local_apics m k \<and>
    local_apics (fold (visit bm code) ks m) k =
      (if k \<in> set ks then local_apics (visit bm code k m') k else local_apics m k)"
  using assms(1,2)
proof (induction ks arbitrary: m)
  case (Cons a ks)
  have Q: "Q (visit bm code a m)" using Cons.prems(2) by (simp add: visit_def keep)
  have other: "local_apics (visit bm code a m) k = local_apics m k" if "k \<noteq> a"
    using that by (simp add: visit_def own)
  obtain m' where m': "Q m'" "local_apics m' k = local_apics (visit bm code a m) k"
    "local_apics (fold (visit bm code) ks (visit bm code a m)) k =
      (if k \<in> set ks then local_apics (visit bm code k m') k else local_apics (visit bm code a m) k)"
    using Cons.IH [OF _ Q] Cons.prems(1) by auto
  show ?case
  proof (cases "k = a")
    case True
    with Cons.prems m'(3) show ?thesis by (intro exI [of _ m]) auto
  next
    case False
    with m' other show ?thesis by (intro exI [of _ m']) auto
  qed
qed auto

text \<open>
  A fixed message on the bus: the vector is requested at every selected APIC that exists,
  with the message's trigger mode, and nothing else is requested, dropped or put in service.
\<close>

lemma foreach_set_irq:
  assumes "apics_wf m" and "v < 256"
  shows "irr_set (foreach_apic bm (\<lambda>k. apic_set_irq k v t) m) k =
      (if k \<in> vectors bm \<and> local_apics m k \<noteq> None then insert v (irr_set m k) else irr_set m k)"
    and "tmr_set (foreach_apic bm (\<lambda>k. apic_set_irq k v t) m) k =
      (if k \<in> vectors bm \<and> local_apics m k \<noteq> None
       then (if t then insert v (tmr_set m k) else tmr_set m k - {v}) else tmr_set m k)"
    and "isr (apic_at (foreach_apic bm (\<lambda>k. apic_set_irq k v t) m) k) = isr (apic_at m k)"
    and "local_apics (foreach_apic bm (\<lambda>k. apic_set_irq k v t) m) k = None \<longleftrightarrow> local_apics m k = None"
proof -
  obtain m' where wf: "apics_wf m'" and eq: "local_apics m' k = local_apics m k"
    and res: "local_apics (foreach_apic bm (\<lambda>k. apic_set_irq k v t) m) k =
      (if k < 256 then local_apics (visit bm (\<lambda>k. apic_set_irq k v t) k m') k else local_apics m k)"
    using fold_visit_local [of "[0..<256]" apics_wf m "\<lambda>k. apic_set_irq k v t" k bm]
    by (auto simp: foreach_apic_eq assms apics_wf_set_irq apic_set_irq_other simp del: upt_conv_Cons)
  note sets = apic_set_irq_sets [OF wf assms(2), of k t]
  show "irr_set (foreach_apic bm (\<lambda>k. apic_set_irq k v t) m) k =
      (if k \<in> vectors bm \<and> local_apics m k \<noteq> None then insert v (irr_set m k) else irr_set m k)"
    and "tmr_set (foreach_apic bm (\<lambda>k. apic_set_irq k v t) m) k =
      (if k \<in> vectors bm \<and> local_apics m k \<noteq> None
       then (if t then insert v (tmr_set m k) else tmr_set m k - {v}) else tmr_set m k)"
    and "isr (apic_at (foreach_apic bm (\<lambda>k. apic_set_irq k v t) m) k) = isr (apic_at m k)"
    and "local_apics (foreach_apic bm (\<lambda>k. apic_set_irq k v t) m) k = None \<longleftrightarrow> local_apics m k = None"
    using sets vectors_bound [of k bm] by (auto simp: res visit_def eq)
qed

lemma apics_wf_foreach:
  assumes "apics_wf m" and "\<And>k m. apics_wf m \<Longrightarrow> apics_wf (code k m)"
  shows "apics_wf (foreach_apic bm code m)"
proof -
  have "apics_wf (fold (visit bm code) ks m)" for ks
    using assms(1) by (induction ks arbitrary: m) (auto simp: visit_def assms(2))
  then show ?thesis by (simp add: foreach_apic_eq)
qed

section \<open>Destinations\<close>

lemma vectors_all_apics: "vectors all_apics = {..<256}"
proof -
  have "bit (0xffffffff :: u32) j" if "j < 32" for j
  proof -
    have "(0xffffffff :: u32) = mask 32" by (simp add: mask_eq_exp_minus_1)
    then show ?thesis using that by (simp only: bit_mask_iff) simp
  qed
  then show ?thesis by (auto simp: vectors_def)
qed

lemma find_dest_from_eq:
  assumes "\<forall>j\<in>set ks. j < n \<longrightarrow> local_apics m j \<noteq> None \<and> apic_id (apic_at m j) \<noteq> dest"
    and "n \<in> set ks" and "sorted ks" and "local_apics m n = Some s" and "apic_id s = dest"
  shows "find_dest_from m dest ks = int n"
  using assms(1-3)
proof (induction ks)
  case (Cons a ks)
  show ?case
  proof (cases "a = n")
    case True
    with assms(4,5) show ?thesis by simp
  next
    case False
    with Cons.prems have n: "n \<in> set ks" and "a < n" by auto
    with Cons.prems(1) obtain t where "local_apics m a = Some t" "apic_id t \<noteq> dest" by auto
    moreover have "find_dest_from m dest ks = int n"
      by (rule Cons.IH) (use Cons.prems n in \<open>simp_all del: not_None_eq\<close>)
    ultimately show ?thesis by simp
  qed
qed simp

lemma find_dest_from_sound:
  "find_dest_from m dest ks = int k \<Longrightarrow> \<exists>s. local_apics m k = Some s \<and> apic_id s = dest"
  by (induction ks) (auto split: option.splits if_splits)

lemma apic_find_dest_sound:
  "0 \<le> apic_find_dest m dest \<Longrightarrow>
     \<exists>s. local_apics m (nat (apic_find_dest m dest)) = Some s \<and> apic_id s = dest"
  using find_dest_from_sound [of m dest "[0..<MAX_APICS]" "nat (apic_find_dest m dest)"]
  by (auto simp: apic_find_dest_def split: option.splits if_splits)

text \<open>The machine has its APICs in the slots below \<open>n\<close>, with different identifiers.\<close>

definition apics_populated :: "machine \<Rightarrow> nat \<Rightarrow> bool" where
  "apics_populated m n \<longleftrightarrow> n \<le> MAX_APICS \<and> (\<forall>k. local_apics m k \<noteq> None \<longleftrightarrow> k < n)
     \<and> (\<forall>j<n. \<forall>k<n. apic_id (apic_at m j) = apic_id (apic_at m k) \<longrightarrow> j = k)"

lemma apics_populatedD:
  assumes "apics_populated m n"
  shows "n \<le> MAX_APICS" and "local_apics m k \<noteq> None \<longleftrightarrow> k < n"
    and "j < n \<Longrightarrow> k < n \<Longrightarrow> apic_id (apic_at m j) = apic_id (apic_at m k) \<Longrightarrow> j = k"
  using assms unfolding apics_populated_def by blast+

lemma apic_find_dest_eq:
  assumes "apics_populated m n" and "k < n"
  shows "apic_find_dest m (apic_id (apic_at m k)) = int k"
proof -
  let ?d = "apic_id (apic_at m k)"
  note ex = apics_populatedD(2) [OF assms(1)]
  note uniq = apics_populatedD(3) [OF assms(1) _ assms(2)]
  obtain s where s: "local_apics m k = Some s" using ex [of k] assms(2) by auto
  have k: "k < MAX_APICS" using assms(2) apics_populatedD(1) [OF assms(1)] by simp
  have "find_dest_from m ?d [0..<MAX_APICS] = int k"
  proof (rule find_dest_from_eq)
    show "\<forall>j\<in>set [0..<MAX_APICS]. j < k \<longrightarrow> local_apics m j \<noteq> None \<and> apic_id (apic_at m j) \<noteq> ?d"
    proof (intro ballI impI conjI notI)
      fix j assume j: "j < k"
      then have "j < n" using assms(2) by simp
      then show "local_apics m j = None \<Longrightarrow> False" and "apic_id (apic_at m j) = ?d \<Longrightarrow> False"
        using ex [of j] uniq [of j] j by blast+
    qed
    show "k \<in> set [0..<MAX_APICS]" using k by (simp only: set_upt atLeastLessThan_iff) simp
    show "sorted [0..<MAX_APICS]" by (rule sorted_upt)
    show "local_apics m k = Some s" and "apic_id s = ?d" using s by simp_all
  qed
  then have eq: "apic_find_dest m ?d = (case local_apics m (unat ?d) of
      Some t \<Rightarrow> if apic_id t = ?d then int (unat ?d) else int k | None \<Rightarrow> int k)"
    by (simp only: apic_find_dest_def)
  show ?thesis
  proof (cases "local_apics m (unat ?d)")
    case (Some t)
    show ?thesis
    proof (cases "apic_id t = ?d")
      case True
      have "unat ?d = k" by (rule uniq) (use Some True ex [of "unat ?d"] in simp_all)
      moreover have "apic_find_dest m ?d = int (unat ?d)"
        using eq by (simp only: Some True option.case if_True refl)
      ultimately show ?thesis by (simp only:)
    qed (use eq Some in simp)
  qed (use eq in simp)
qed

lemma logical_bitmask_from_vectors:
  assumes "wf_vectab bm" and "set ks \<subseteq> {..<256}"
  shows "vectors (logical_bitmask_from m dest ks bm) =
    vectors bm \<union> {k \<in> set (takeWhile (\<lambda>k. local_apics m k \<noteq> None) ks). logical_match dest (apic_at m k)}"
  using assms
proof (induction ks arbitrary: bm)
  case (Cons a ks)
  then show ?case by (cases "local_apics m a") (auto simp: vector_simps)
qed simp

text \<open>Which of the APICs a destination field addresses.\<close>

definition addressed :: "u8 \<Rightarrow> u8 \<Rightarrow> APICCommonState \<Rightarrow> bool" where
  "addressed dest dest_md s \<longleftrightarrow>
     (if dest_md = 0 then dest = 0xff \<or> apic_id s = dest else logical_match dest s)"

lemma apic_find_dest_none:
  assumes "apics_populated m n" and "\<forall>k<n. apic_id (apic_at m k) \<noteq> dest"
  shows "apic_find_dest m dest < 0"
proof (rule ccontr)
  assume "\<not> apic_find_dest m dest < 0"
  then obtain s where s: "local_apics m (nat (apic_find_dest m dest)) = Some s" "apic_id s = dest"
    using apic_find_dest_sound [of m dest] by auto
  then have "nat (apic_find_dest m dest) < n" using apics_populatedD(2) [OF assms(1)] by blast
  with assms(2) s show False by auto
qed

lemma delivery_bitmask_physical:
  assumes "apics_populated m n" and "dest \<noteq> 0xff"
  shows "vectors (apic_get_delivery_bitmask m dest 0) = {k. k < n \<and> apic_id (apic_at m k) = dest}"
proof (cases "\<exists>k<n. apic_id (apic_at m k) = dest")
  case True
  then obtain k where k: "k < n" "apic_id (apic_at m k) = dest" by blast
  then have "apic_find_dest m dest = int k" using apic_find_dest_eq [OF assms(1)] by blast
  moreover have "k < 256" using k(1) apics_populatedD(1) [OF assms(1)] by simp
  ultimately have "vectors (apic_get_delivery_bitmask m dest 0) = {k}"
    using assms(2) by (simp add: apic_get_delivery_bitmask_def vectors_set_bit vectors_none wf_vectab_none)
  moreover have "{k. k < n \<and> apic_id (apic_at m k) = dest} = {k}"
  proof -
    have uniq: "j = k" if "j < n" "apic_id (apic_at m j) = dest" for j
      using that(2) k(2) by (intro apics_populatedD(3) [OF assms(1) that(1) k(1)]) (rule trans, assumption, rule sym)
    show ?thesis
    proof (rule set_eqI)
      fix j
      show "j \<in> {k. k < n \<and> apic_id (apic_at m k) = dest} \<longleftrightarrow> j \<in> {k}"
        unfolding mem_Collect_eq singleton_iff using k by (metis uniq)
    qed
  qed
  ultimately show ?thesis by (simp only:)
next
  case False
  then have "apic_find_dest m dest < 0" using apic_find_dest_none [OF assms(1)] by blast
  with assms(2) False show ?thesis by (auto simp: apic_get_delivery_bitmask_def vectors_none)
qed

lemma delivery_bitmask_logical:
  assumes "apics_populated m n" and "dest_md \<noteq> 0"
  shows "vectors (apic_get_delivery_bitmask m dest dest_md) = {k. k < n \<and> logical_match dest (apic_at m k)}"
proof -
  note n = apics_populatedD(1) [OF assms(1)] and ex = apics_populatedD(2) [OF assms(1)]
  have "takeWhile (\<lambda>k. k < n) [0..<MAX_APICS] = [0..<n]"
  proof -
    have split: "[0..<MAX_APICS] = [0..<n] @ [n..<MAX_APICS]" using n by (metis le_add_diff_inverse upt_add_eq_append zero_le)
    have "takeWhile (\<lambda>k. k < n) [n..<MAX_APICS] = []" by (cases "n < MAX_APICS") (simp_all add: upt_rec)
    then show ?thesis unfolding split by (subst takeWhile_append2) simp_all
  qed
  then have "vectors (logical_bitmask_from m dest [0..<MAX_APICS] no_apics) =
      {} \<union> {k \<in> set [0..<n]. logical_match dest (apic_at m k)}"
    by (subst logical_bitmask_from_vectors) (simp_all only: ex wf_vectab_none vectors_none set_upt, auto)
  moreover have "apic_get_delivery_bitmask m dest dest_md = logical_bitmask_from m dest [0..<MAX_APICS] no_apics"
    using assms(2) by (simp only: apic_get_delivery_bitmask_def if_False)
  ultimately show ?thesis by auto
qed

lemma delivery_bitmask_existing:
  assumes "apics_populated m n"
  shows "k \<in> vectors (apic_get_delivery_bitmask m dest dest_md) \<and> local_apics m k \<noteq> None \<longleftrightarrow>
    k < n \<and> addressed dest dest_md (apic_at m k)"
proof -
  note n = apics_populatedD(1) [OF assms] and ex = apics_populatedD(2) [OF assms, of k]
  consider "dest_md = 0" "dest = 0xff" | "dest_md = 0" "dest \<noteq> 0xff" | "dest_md \<noteq> 0" by blast
  then have "k \<in> vectors (apic_get_delivery_bitmask m dest dest_md) \<and> k < n \<longleftrightarrow>
      k < n \<and> addressed dest dest_md (apic_at m k)"
  proof cases
    case 1
    have "vectors (apic_get_delivery_bitmask m dest dest_md) = {..<256}"
      by (simp only: 1 apic_get_delivery_bitmask_def if_True refl vectors_all_apics)
    moreover have "addressed dest dest_md (apic_at m k)" by (simp add: addressed_def 1)
    moreover have "k \<in> {..<256}" if "k < n" unfolding lessThan_iff using that n by simp
    ultimately show ?thesis by blast
  next
    case 2
    have "vectors (apic_get_delivery_bitmask m dest dest_md) = {k. k < n \<and> apic_id (apic_at m k) = dest}"
      unfolding 2(1) by (rule delivery_bitmask_physical [OF assms 2(2)])
    moreover have "addressed dest dest_md (apic_at m k) \<longleftrightarrow> apic_id (apic_at m k) = dest"
      by (simp add: addressed_def 2)
    ultimately show ?thesis by blast
  next
    case 3
    have "vectors (apic_get_delivery_bitmask m dest dest_md) = {k. k < n \<and> logical_match dest (apic_at m k)}"
      by (rule delivery_bitmask_logical [OF assms 3])
    moreover have "addressed dest dest_md (apic_at m k) \<longleftrightarrow> logical_match dest (apic_at m k)"
      by (simp add: addressed_def 3)
    ultimately show ?thesis by blast
  qed
  then show ?thesis unfolding ex .
qed

section \<open>Delivery\<close>

lemma deliver_fixed:
  assumes "apics_wf m" and "apics_populated m n"
    and hit: "hit = (k < n \<and> addressed dest dest_md (apic_at m k))" and m': "m' = apic_deliver_irq dest dest_md APIC_DM_FIXED v t m"
  shows "irr_set m' k = (if hit then insert (unat v) (irr_set m k) else irr_set m k)"
    and "tmr_set m' k = (if hit then (if t \<noteq> 0 then insert (unat v) (tmr_set m k) else tmr_set m k - {unat v}) else tmr_set m k)"
    and "isr_set m' k = isr_set m k"
proof -
  have v: "unat v < 256" using unat_bound [of v] by simp
  have eq: "m' = foreach_apic (apic_get_delivery_bitmask m dest dest_md) (\<lambda>k. apic_set_irq k (unat v) (t \<noteq> 0)) m"
    by (simp add: m' apic_deliver_irq_def apic_bus_deliver_def)
  note facts = foreach_set_irq [OF assms(1) v, of "apic_get_delivery_bitmask m dest dest_md" "t \<noteq> 0" k]
    delivery_bitmask_existing [OF assms(2), of k dest dest_md]
  show "irr_set m' k = (if hit then insert (unat v) (irr_set m k) else irr_set m k)"
    and "tmr_set m' k = (if hit then (if t \<noteq> 0 then insert (unat v) (tmr_set m k) else tmr_set m k - {unat v}) else tmr_set m k)"
    and "isr_set m' k = isr_set m k"
    unfolding eq hit using facts by (simp_all del: not_None_eq)
qed

text \<open>
  C33: a fixed-mode message on the APIC bus requests its vector at exactly the local APICs its
  destination addresses (all of them for 0xff, the one with that identifier, or those whose
  logical identifier matches), records the trigger mode there, and changes no other request
  and no in-service register.
\<close>

theorem apic_deliver_irq_fixed:
  assumes "apics_wf m" and "apics_populated m n"
  shows "let m' = apic_deliver_irq dest dest_md APIC_DM_FIXED v t m;
             hit = k < n \<and> addressed dest dest_md (apic_at m k); v' = unat v
         in irr_set m' k = (if hit then insert v' (irr_set m k) else irr_set m k)
          \<and> tmr_set m' k = (if hit then (if t \<noteq> 0 then insert v' (tmr_set m k) else tmr_set m k - {v'})
                            else tmr_set m k)
          \<and> isr_set m' k = isr_set m k"
  unfolding Let_def by (intro conjI deliver_fixed [OF assms refl refl])

lemma example_populated: "apics_populated example_machine 2"
  by (auto simp: apics_populated_def example_apic_def less_2_cases_iff)

lemma example_irr: "irr_set example_machine 0 = {}" "irr_set example_machine 1 = {}"
  by (simp_all add: example_apic_def vectors_none)

theorem apic_deliver_irq_fixed_witness:
  "irr_set (apic_deliver_irq 1 0 APIC_DM_FIXED 0x31 0 example_machine) 0 = {}
   \<and> irr_set (apic_deliver_irq 1 0 APIC_DM_FIXED 0x31 0 example_machine) 1 = {0x31}"
  using apic_deliver_irq_fixed [OF example_apics_wf example_populated, of 1 0 "0x31" 0 0]
    apic_deliver_irq_fixed [OF example_apics_wf example_populated, of 1 0 "0x31" 0 1] example_irr
  by (simp add: Let_def addressed_def) (simp add: example_apic_def)

lemma first_selected_word:
  fixes deliver_bitmask :: vectab
  assumes "deliver_bitmask ! i \<noteq> 0"
  shows "bit (deliver_bitmask ! i) (ctz (deliver_bitmask ! i))" "ctz (deliver_bitmask ! i) < 32"
    "bit (deliver_bitmask ! i) j \<Longrightarrow> ctz (deliver_bitmask ! i) \<le> j"
  using ctz_nonzero [OF assms] by (simp_all, meson not_less)

lemma first_selected_Min:
  assumes "i \<le> 8" and "vectors bm \<subseteq> {32 * i..}"
  shows "first_selected bm [i..<8] = (if vectors bm = {} then -1 else int (Min (vectors bm)))"
  using assms
proof (induction "8 - i" arbitrary: i)
  case 0
  then have "vectors bm = {}" using vectors_bound [of _ bm] by fastforce
  with 0 show ?case by simp
next
  case (Suc d)
  then have i: "i < 8" by simp
  then have step: "[i..<8] = i # [Suc i..<8]" by (rule upt_conv_Cons)
  show ?case
  proof (cases "bm ! i = 0")
    case True
    have "32 * Suc i \<le> v" if "v \<in> vectors bm" for v
      using that True Suc.prems by (cases "v div 32 = i") (auto simp: vectors_def)
    then have "vectors bm \<subseteq> {32 * Suc i..}" by auto
    then have "first_selected bm [Suc i..<8] = (if vectors bm = {} then -1 else int (Min (vectors bm)))"
      using Suc.hyps(2) i by (intro Suc.hyps(1)) simp_all
    with True show ?thesis by (simp only: step first_selected.simps) simp
  next
    case False
    note f = first_selected_word [OF False]
    let ?v = "i * 32 + ctz (bm ! i)"
    have in_v: "?v \<in> vectors bm" using f i by (simp add: vectors_def)
    have "?v \<le> v" if v: "v \<in> vectors bm" for v
    proof (cases "v div 32 = i")
      case True
      with v have "ctz (bm ! i) \<le> v mod 32" by (intro f(3)) (auto simp: vectors_def)
      with True show ?thesis by (metis add_left_mono div_mult_mod_eq)
    next
      case False
      moreover have "32 * i \<le> v" using v Suc.prems(2) by auto
      ultimately show ?thesis using f(2) by linarith
    qed
    then have "Min (vectors bm) = ?v" using in_v by (intro Min_eqI) auto
    with False in_v show ?thesis by (simp only: step first_selected.simps) (auto simp: apic_ffs_bit_def)
  qed
qed

text \<open>
  a lowest-priority message is given to one APIC only: the first slot its destination
  selects, and to nobody when that slot is empty or nothing is selected.
\<close>

theorem apic_deliver_irq_lowpri:
  "apic_deliver_irq dest dest_md APIC_DM_LOWPRI v t m =
     (let sel = vectors (apic_get_delivery_bitmask m dest dest_md) in
      if sel \<noteq> {} \<and> local_apics m (Min sel) \<noteq> None then apic_set_irq (Min sel) (unat v) (t \<noteq> 0) m else m)"
proof -
  have "first_selected bm [0..<MAX_APIC_WORDS] = (if vectors bm = {} then -1 else int (Min (vectors bm)))" for bm
    by (rule first_selected_Min) auto
  then show ?thesis by (simp only: apic_deliver_irq_def apic_bus_deliver_def if_True refl Let_def) simp
qed

lemma fold_cpu_interrupt:
  assumes "distinct ks"
  shows "interrupt_request (cpus (fold (visit bm (\<lambda>k. cpu_interrupt k w)) ks m) k) =
      (if k \<in> set ks \<and> k \<in> vectors bm \<and> local_apics m k \<noteq> None
       then interrupt_request (cpus m k) OR w else interrupt_request (cpus m k))
    \<and> local_apics (fold (visit bm (\<lambda>k. cpu_interrupt k w)) ks m) = local_apics m"
  using assms by (induction ks arbitrary: m) (auto simp: visit_def frame_simps)

lemma foreach_cpu_interrupt:
  "interrupt_request (cpus (foreach_apic bm (\<lambda>k. cpu_interrupt k w) m) k) =
      (if k \<in> vectors bm \<and> local_apics m k \<noteq> None
       then interrupt_request (cpus m k) OR w else interrupt_request (cpus m k))"
  "local_apics (foreach_apic bm (\<lambda>k. cpu_interrupt k w) m) = local_apics m"
proof -
  have "k \<in> vectors bm \<Longrightarrow> k \<in> set [0..<256]"
    by (simp only: set_upt atLeastLessThan_iff vectors_bound) simp
  then show "interrupt_request (cpus (foreach_apic bm (\<lambda>k. cpu_interrupt k w) m) k) =
      (if k \<in> vectors bm \<and> local_apics m k \<noteq> None
       then interrupt_request (cpus m k) OR w else interrupt_request (cpus m k))"
    and "local_apics (foreach_apic bm (\<lambda>k. cpu_interrupt k w) m) = local_apics m"
    unfolding foreach_apic_eq using fold_cpu_interrupt [of "[0..<256]" bm w m k, OF distinct_upt]
    by (auto simp del: not_None_eq upt_rec_numeral)
qed

text \<open>
  system-management, non-maskable and INIT messages raise the corresponding request at
  exactly the processors addressed, and leave the registers of every APIC alone.
\<close>

theorem apic_deliver_irq_special:
  assumes "apics_populated m n"
    and "(mode, line) \<in> {(APIC_DM_SMI, CPU_INTERRUPT_SMI), (APIC_DM_NMI, CPU_INTERRUPT_NMI),
                          (APIC_DM_INIT, CPU_INTERRUPT_INIT)}"
  shows "interrupt_request (cpus (apic_deliver_irq dest dest_md mode v t m) k) =
      (if k < n \<and> addressed dest dest_md (apic_at m k)
       then interrupt_request (cpus m k) OR line else interrupt_request (cpus m k))
    \<and> local_apics (apic_deliver_irq dest dest_md mode v t m) = local_apics m"
proof -
  have "apic_deliver_irq dest dest_md mode v t m =
      foreach_apic (apic_get_delivery_bitmask m dest dest_md) (\<lambda>k. cpu_interrupt k line) m"
    using assms(2) by (auto simp: apic_deliver_irq_def apic_bus_deliver_def)
  then show ?thesis
    using delivery_bitmask_existing [OF assms(1), of k dest dest_md]
    by (simp only: foreach_cpu_interrupt)
qed

theorem apic_deliver_irq_special_witness:
  "interrupt_request (cpus (apic_deliver_irq 1 0 APIC_DM_NMI 0 0 example_machine) 1) = CPU_INTERRUPT_NMI"
  using apic_deliver_irq_special [OF example_populated, of APIC_DM_NMI CPU_INTERRUPT_NMI 1 0 0 0 1]
  by (simp add: addressed_def) (simp add: example_apic_def example_machine_def example_cpu_def)

section \<open>Inter-processor interrupts\<close>

text \<open>A processor other than the running one is told of a new request by a poll request.\<close>

lemma apic_set_irq_poll:
  "current_cpu m \<noteq> Some i \<Longrightarrow> bit (interrupt_request (cpus (apic_set_irq i v t m) i)) 4"
  by (simp add: apic_set_irq_def Let_def apic_update_irq_def qemu_cpu_is_self_def frame_simps
      apic_report_irq_delivered_def bit_or_iff)

lemma apic_update_irq_poll:
  "bit (interrupt_request (cpus m k)) 4 \<Longrightarrow> bit (interrupt_request (cpus (apic_update_irq i m) k)) 4"
  by (auto simp: apic_update_irq_def frame_simps bit_or_iff bit_and_iff bit_not_iff)

lemma interrupt_request_mono:
  "bit (interrupt_request (cpus m k)) 4 \<Longrightarrow> bit (interrupt_request (cpus (apic_set_irq i v t m) k)) 4"
  by (auto simp: apic_set_irq_def Let_def frame_simps apic_report_irq_delivered_def intro!: apic_update_irq_poll)

lemma fold_visit_poll:
  assumes "bit (interrupt_request (cpus m k)) 4 \<or>
      (current_cpu m \<noteq> Some k \<and> k \<in> set ks \<and> k \<in> vectors bm \<and> local_apics m k \<noteq> None)"
  shows "bit (interrupt_request (cpus (fold (visit bm (\<lambda>k. apic_set_irq k v t)) ks m) k)) 4"
  using assms
proof (induction ks arbitrary: m)
  case (Cons a ks)
  show ?case unfolding fold.simps comp_def
    by (rule Cons.IH) (use Cons.prems in \<open>auto simp: visit_def frame_simps interrupt_request_mono apic_set_irq_poll simp del: not_None_eq\<close>)
qed simp

lemma send_ipi_to:
  assumes "apics_wf m" and "apics_populated m n" and "k < n" and "apic_id (apic_at m k) \<noteq> 0xff"
  shows "let m' = send_ipi (apic_id (apic_at m k)) nv m
         in (\<forall>j. irr_set m' j = (if j = k then insert (unat nv) (irr_set m k) else irr_set m j))
          \<and> unat nv \<notin> tmr_set m' k \<and> (\<forall>j. isr_set m' j = isr_set m j)
          \<and> (current_cpu m \<noteq> Some k \<longrightarrow> bit (interrupt_request (cpus m' k)) 4)"
proof -
  let ?d = "apic_id (apic_at m k)"
  have v: "unat nv < 256" using unat_bound [of nv] by simp
  have eq: "send_ipi ?d nv m = foreach_apic (apic_get_delivery_bitmask m ?d 0) (\<lambda>k. apic_set_irq k (unat nv) False) m"
    by (simp add: send_ipi_def apic_deliver_irq_def apic_bus_deliver_def)
  have hit: "j \<in> vectors (apic_get_delivery_bitmask m ?d 0) \<and> local_apics m j \<noteq> None \<longleftrightarrow> j = k" for j
    unfolding delivery_bitmask_existing [OF assms(2)] addressed_def
    using assms(3,4) apics_populatedD(3) [OF assms(2) _ assms(3), of j] by auto
  note sets = foreach_set_irq [OF assms(1) v, of "apic_get_delivery_bitmask m ?d 0" False, unfolded hit, folded eq]
  have "k \<in> set [0..<256]" using assms(3) apics_populatedD(1) [OF assms(2)] by (simp only: set_upt atLeastLessThan_iff) simp
  then have "bit (interrupt_request (cpus (send_ipi ?d nv m) k)) 4" if "current_cpu m \<noteq> Some k"
    unfolding eq foreach_apic_eq using that hit [of k] by (intro fold_visit_poll) blast
  with sets show ?thesis by (simp add: Let_def)
qed

text \<open>
  C34: an inter-processor interrupt sent by \<^verbatim>\<open>send_ipi\<close> to the identifier of an existing APIC
  requests the vector at that APIC and at no other, edge triggered, and leaves a poll request
  with its processor unless that processor is the sender itself.
\<close>

theorem send_ipi_spec:
  assumes "apics_wf m" and "apics_populated m n" and "k < n" and "apic_id (apic_at m k) \<noteq> 0xff"
  shows "let m' = send_ipi (apic_id (apic_at m k)) nv m
         in (\<forall>j. irr_set m' j = (if j = k then insert (unat nv) (irr_set m k) else irr_set m j))
          \<and> unat nv \<notin> tmr_set m' k \<and> (\<forall>j. isr_set m' j = isr_set m j)
          \<and> (current_cpu m \<noteq> Some k \<longrightarrow> bit (interrupt_request (cpus m' k)) 4)"
  using assms by (rule send_ipi_to)

theorem send_ipi_spec_witness:
  "irr_set (send_ipi 1 0x31 example_machine) 1 = {0x31}
   \<and> bit (interrupt_request (cpus (send_ipi 1 0x31 example_machine) 1)) 4"
proof -
  have id: "apic_id (apic_at example_machine 1) = 1" by (simp add: example_apic_def)
  have "current_cpu example_machine \<noteq> Some 1" by (simp add: example_machine_def)
  then show ?thesis
    using send_ipi_spec [OF example_apics_wf example_populated, of 1 "0x31"] example_irr(2)
    unfolding id Let_def by simp
qed

end
