(* ===== verification/PIC_Wiring.thy ===== *)
theory PIC_Wiring
  imports APIC_Regs
begin

text \<open>
  The pair of i8259 chips as the board connects them (\<^verbatim>\<open>i8259_init\<close>, \<^verbatim>\<open>x86.c\<close>): the output of
  the slave is line 2 of the master, the output of the master is the legacy interrupt line of
  the processors, passed through the LINT0 pins of their local APICs. A chip operation that
  drives its output line does so as its last access to the chip.
\<close>

section \<open>The output lines\<close>

text \<open>\<^verbatim>\<open>pic_irq_request\<close>: \<^verbatim>\<open>first_cpu\<close> is the head of \<^verbatim>\<open>cpu_list\<close>, \<^verbatim>\<open>CPU_FOREACH\<close> walks it.\<close>

definition pic_irq_request :: "bool \<Rightarrow> machine \<Rightarrow> machine" where
  "pic_irq_request level m =
     (case cpu_list m of
        [] \<Rightarrow> m
      | cs # _ \<Rightarrow>
          if local_apics m cs \<noteq> None then
            fold (\<lambda>i m. if apic_accept_pic_intr i m then apic_deliver_pic_intr i level m else m)
              (cpu_list m) m
          else if level then cpu_interrupt cs CPU_INTERRUPT_HARD m
          else cpu_reset_interrupt cs CPU_INTERRUPT_HARD m)"

text \<open>Run a chip operation on the master or the slave and drive the line it reports.\<close>

definition on_master :: "(PICCommonState \<Rightarrow> PICCommonState \<times> bool option) \<Rightarrow> machine \<Rightarrow> machine" where
  "on_master f m =
     (case isa_pic m of
        None \<Rightarrow> m
      | Some p \<Rightarrow>
          let (p', out) = f p; m1 = m\<lparr>isa_pic := Some p'\<rparr> in
          case out of None \<Rightarrow> m1 | Some level \<Rightarrow> pic_irq_request level m1)"

definition on_slave :: "(PICCommonState \<Rightarrow> PICCommonState \<times> bool option) \<Rightarrow> machine \<Rightarrow> machine" where
  "on_slave f m =
     (let (p', out) = f (slave_pic m); m1 = m\<lparr>slave_pic := p'\<rparr> in
      case out of
        None \<Rightarrow> m1
      | Some level \<Rightarrow> on_master (\<lambda>p. pic_set_irq p 2 (of_bool level)) m1)"

text \<open>The sixteen ISA lines \<^verbatim>\<open>i8259_init\<close> returns.\<close>

definition isa_set_irq :: "nat \<Rightarrow> int \<Rightarrow> machine \<Rightarrow> machine" where
  "isa_set_irq n level m =
     (if n < 8 then on_master (\<lambda>p. pic_set_irq p n level) m
      else on_slave (\<lambda>p. pic_set_irq p (n - 8) level) m)"

section \<open>Acknowledge\<close>

text \<open>Reading the vector; the machine is taken to have the chip pair when it is asked.\<close>

definition pic_read_irq :: "machine \<Rightarrow> int \<times> machine" where
  "pic_read_irq m =
     (let s = the (isa_pic m); irq = pic_get_irq s in
      if irq \<ge> 0 then
        if irq = 2 then
          let irq2 = pic_get_irq (slave_pic m);
              m1 = (if irq2 \<ge> 0 then on_slave (\<lambda>p. pic_intack p (nat irq2)) m else m);
              irq2 = (if irq2 \<ge> 0 then irq2 else 7);
              intno = uint (irq_base (slave_pic m1)) + irq2
          in (intno, on_master (\<lambda>p. pic_intack p (nat irq)) m1)
        else (uint (irq_base s) + irq, on_master (\<lambda>p. pic_intack p (nat irq)) m)
      else (uint (irq_base s) + 7, m))"

definition cpu_get_pic_interrupt :: "nat \<Rightarrow> machine \<Rightarrow> int \<times> machine" where
  "cpu_get_pic_interrupt i m =
     (let (intno, m1) = apic_get_interrupt i m in
      if intno \<ge> 0 then (intno, m1)
      else if \<not> apic_accept_pic_intr i m1 then (-1, m1)
      else pic_read_irq m1)"

section \<open>Port accesses\<close>

text \<open>The ports \<^verbatim>\<open>i8259_init_chip\<close> gives the chips: 0x20/0x21, 0xa0/0xa1, and 0x4d0, 0x4d1 for the ELCRs.\<close>

definition pic_outb :: "u64 \<Rightarrow> u64 \<Rightarrow> machine \<Rightarrow> machine" where
  "pic_outb port val m =
     (if port = 0x20 \<or> port = 0x21 then on_master (\<lambda>p. pic_ioport_write p (port - 0x20) val) m
      else if port = 0xa0 \<or> port = 0xa1 then on_slave (\<lambda>p. pic_ioport_write p (port - 0xa0) val) m
      else if port = 0x4d0 then on_master (\<lambda>p. (elcr_ioport_write p 0 val, None)) m
      else if port = 0x4d1 then on_slave (\<lambda>p. (elcr_ioport_write p 0 val, None)) m
      else m)"

section \<open>Frame facts\<close>

lemma apic_deliver_pic_intr_frame [frame_simps]:
  "isa_pic (apic_deliver_pic_intr i l m) = isa_pic m" "slave_pic (apic_deliver_pic_intr i l m) = slave_pic m"
  "ioapics (apic_deliver_pic_intr i l m) = ioapics m" "current_cpu (apic_deliver_pic_intr i l m) = current_cpu m"
  "cpu_list (apic_deliver_pic_intr i l m) = cpu_list m" "clock_ns (apic_deliver_pic_intr i l m) = clock_ns m"
  "isr (apic_at (apic_deliver_pic_intr i l m) k) = isr (apic_at m k)"
  "local_apics (apic_deliver_pic_intr i l m) k = None \<longleftrightarrow> local_apics m k = None"
  by (cases "k = i"; cases "local_apics m k";
      simp add: apic_deliver_pic_intr_def apic_local_deliver_def Let_def frame_simps apic_set_irq_apics)+

lemma fold_frame:
  assumes "\<And>x m. F (f x m) = F m"
  shows "F (fold f xs m) = F m"
  using assms by (induction xs arbitrary: m) auto

text \<open>A view of the machine that the legacy line leaves alone.\<close>

lemma pic_irq_request_keeps:
  assumes "\<And>i m. F (apic_deliver_pic_intr i l m) = F m"
    and "\<And>i w m. F (cpu_interrupt i w m) = F m" and "\<And>i w m. F (cpu_reset_interrupt i w m) = F m"
  shows "F (pic_irq_request l m) = F m"
proof -
  have "F (fold (\<lambda>i m. if apic_accept_pic_intr i m then apic_deliver_pic_intr i l m else m) cs m) = F m" for cs
    by (rule fold_frame) (simp add: assms(1))
  then show ?thesis by (simp add: pic_irq_request_def assms split: list.split)
qed

lemma pic_irq_request_frame [frame_simps]:
  "isa_pic (pic_irq_request l m) = isa_pic m" "slave_pic (pic_irq_request l m) = slave_pic m"
  "ioapics (pic_irq_request l m) = ioapics m" "current_cpu (pic_irq_request l m) = current_cpu m"
  "cpu_list (pic_irq_request l m) = cpu_list m" "clock_ns (pic_irq_request l m) = clock_ns m"
  "isr (apic_at (pic_irq_request l m) k) = isr (apic_at m k)"
  "local_apics (pic_irq_request l m) k = None \<longleftrightarrow> local_apics m k = None"
  by (rule pic_irq_request_keeps; simp add: frame_simps)+

lemma apics_wf_pic_irq_request: "apics_wf m \<Longrightarrow> apics_wf (pic_irq_request l m)"
proof -
  assume wf: "apics_wf m"
  have "apics_wf (fold (\<lambda>i m. if apic_accept_pic_intr i m then apic_deliver_pic_intr i l m else m) cs m)" for cs
    using wf by (induction cs arbitrary: m) (auto simp: apics_wf_deliver_pic_intr)
  with wf show ?thesis by (simp add: pic_irq_request_def split: list.split)
qed


lemma on_master_frame [frame_simps]:
  "slave_pic (on_master f m) = slave_pic m" "ioapics (on_master f m) = ioapics m"
  "current_cpu (on_master f m) = current_cpu m" "cpu_list (on_master f m) = cpu_list m"
  "clock_ns (on_master f m) = clock_ns m" "isr (apic_at (on_master f m) k) = isr (apic_at m k)"
  "local_apics (on_master f m) k = None \<longleftrightarrow> local_apics m k = None"
  "isa_pic (on_master f m) = map_option (\<lambda>p. fst (f p)) (isa_pic m)"
  by (simp_all add: on_master_def frame_simps case_prod_beta Let_def split: option.split)

lemma on_slave_frame [frame_simps]:
  "slave_pic (on_slave f m) = fst (f (slave_pic m))" "ioapics (on_slave f m) = ioapics m"
  "current_cpu (on_slave f m) = current_cpu m" "cpu_list (on_slave f m) = cpu_list m"
  "clock_ns (on_slave f m) = clock_ns m" "isr (apic_at (on_slave f m) k) = isr (apic_at m k)"
  "local_apics (on_slave f m) k = None \<longleftrightarrow> local_apics m k = None"
  "isa_pic (on_slave f m) = (case snd (f (slave_pic m)) of None \<Rightarrow> isa_pic m
     | Some l \<Rightarrow> map_option (\<lambda>p. fst (pic_set_irq p 2 (of_bool l))) (isa_pic m))"
  by (simp_all add: on_slave_def frame_simps case_prod_beta Let_def split: option.split)

lemma apics_wf_on_master: "apics_wf m \<Longrightarrow> apics_wf (on_master f m)"
  using apics_wf_cong [of "m\<lparr>isa_pic := Some p\<rparr>" m for p]
  by (auto simp: on_master_def case_prod_beta Let_def apics_wf_pic_irq_request split: option.split)

lemma apics_wf_on_slave: "apics_wf m \<Longrightarrow> apics_wf (on_slave f m)"
  using apics_wf_cong [of "m\<lparr>slave_pic := p\<rparr>" m for p]
  by (auto simp: on_slave_def case_prod_beta Let_def apics_wf_on_master split: option.split)

lemma pic_read_irq_frame [frame_simps]:
  "ioapics (snd (pic_read_irq m)) = ioapics m" "current_cpu (snd (pic_read_irq m)) = current_cpu m"
  "isr (apic_at (snd (pic_read_irq m)) k) = isr (apic_at m k)"
  "local_apics (snd (pic_read_irq m)) k = None \<longleftrightarrow> local_apics m k = None"
  by (simp_all add: pic_read_irq_def Let_def frame_simps)

lemma apics_wf_pic_read_irq: "apics_wf m \<Longrightarrow> apics_wf (snd (pic_read_irq m))"
  by (simp add: pic_read_irq_def Let_def apics_wf_on_master apics_wf_on_slave)

section \<open>The vector read from the pair\<close>




section \<open>An ISA interrupt in virtual-wire mode\<close>

lemma pic_get_irq_single:
  assumes "pic_requests s = push_bit n 1" and "pic_in_service s = 0" and "n < 8"
  shows "pic_get_irq s = int n"
proof -
  have "get_priority s (push_bit n 1) = pic_rank s n"
    by (rule get_priority_eqI) (use assms(3) in \<open>auto simp: mask_simps\<close>)
  moreover have "pic_rank s n < 8" by (rule pic_rank_less)
  ultimately show ?thesis
    using assms pic_rank_inverse [OF assms(3), of s]
    by (simp add: pic_get_irq_def pic_requests_def pic_in_service_def Let_def split: if_splits)
qed

lemma pic_set_irq_edge:
  assumes "n < 8" and "pic_requests p = 0" and "pic_isr p = 0" and "\<not> bit (pic_imr p) n"
    and "\<not> bit (elcr p) n" and "\<not> bit (last_irr p) n"
  shows "pic_get_irq (fst (pic_set_irq p n 1)) = int n"
proof (rule pic_get_irq_single [OF _ _ assms(1)])
  have "bit (pic_irr p) k \<longrightarrow> bit (pic_imr p) k" if "k < 8" for k
  proof -
    have "\<not> bit (pic_irr p AND NOT (pic_imr p)) k" using assms(2) by (simp add: pic_requests_def)
    with that show ?thesis by (simp add: bit_simps)
  qed
  then have "(pic_irr p OR push_bit n 1) AND NOT (pic_imr p) = push_bit n 1"
    using assms(1,4) by (intro bit_word_eqI) (auto simp: bit_simps mask_simps)
  then show "pic_requests (fst (pic_set_irq p n 1)) = push_bit n 1"
    using assms(5,6) by (simp add: pic_set_irq_def Let_def mask_simps pic_requests_def)
  show "pic_in_service (fst (pic_set_irq p n 1)) = 0"
    using assms(3,5,6) by (simp add: pic_set_irq_def Let_def mask_simps pic_in_service_def)
qed

text \<open>The local APIC passes the legacy line on: LINT0 unmasked with delivery mode ExtINT.\<close>

definition virtual_wire :: "APICCommonState \<Rightarrow> bool" where
  "virtual_wire s \<longleftrightarrow> \<not> bit (lvt s ! APIC_LVT_LINT0) APIC_LVT_MASKED_SHIFT
     \<and> (ucast (drop_bit 8 (lvt s ! APIC_LVT_LINT0) AND 7) :: u8) = APIC_DM_EXTINT"

lemma virtual_wire_hard:
  assumes "local_apics m c = Some s" and "virtual_wire s" and "isa_pic m \<noteq> None" and "cpu_list m = [c]"
  shows "pic_irq_request True m = cpu_interrupt c CPU_INTERRUPT_HARD m"
  using assms
  by (auto simp: pic_irq_request_def apic_accept_pic_intr_def apic_deliver_pic_intr_def apic_local_deliver_def
      virtual_wire_def Let_def)




end
