(* ===== verification/IO_APIC.thy ===== *)
theory IO_APIC
  imports PIC_Wiring
begin

text \<open>
  The I/O APIC (\<^verbatim>\<open>hw/intc/ioapic.c\<close>, \<^verbatim>\<open>ioapic_common.c\<close>): its redirection table, pin handling,
  end of interrupt and register window. An I/O APIC is named by its index in \<^verbatim>\<open>ioapics\<close>. The
  message it sends is a 32-bit store on the bus, which the operations take as the argument
  \<open>stl_le_phys\<close>: the store can come back to this I/O APIC, so every step reads the state anew.
\<close>

type_synonym bus_store = "u64 \<Rightarrow> u32 \<Rightarrow> machine \<Rightarrow> machine"

abbreviation (input) IOAPIC_LVT_MASKED_SHIFT :: nat where "IOAPIC_LVT_MASKED_SHIFT \<equiv> 16"
abbreviation (input) IOAPIC_LVT_TRIGGER_MODE_SHIFT :: nat where "IOAPIC_LVT_TRIGGER_MODE_SHIFT \<equiv> 15"
abbreviation (input) IOAPIC_LVT_REMOTE_IRR_SHIFT :: nat where "IOAPIC_LVT_REMOTE_IRR_SHIFT \<equiv> 14"
abbreviation (input) IOAPIC_LVT_DELIV_STATUS_SHIFT :: nat where "IOAPIC_LVT_DELIV_STATUS_SHIFT \<equiv> 12"
abbreviation (input) IOAPIC_DM_EXTINT :: u8 where "IOAPIC_DM_EXTINT \<equiv> 7"
abbreviation (input) APIC_DEFAULT_ADDRESS :: u32 where "APIC_DEFAULT_ADDRESS \<equiv> 0xfee00000"
abbreviation (input) SUCCESSIVE_IRQ_MAX_COUNT :: nat where "SUCCESSIVE_IRQ_MAX_COUNT \<equiv> 10000"

definition IOAPIC_RO_BITS :: u64 where
  "IOAPIC_RO_BITS = push_bit IOAPIC_LVT_REMOTE_IRR_SHIFT 1 OR push_bit IOAPIC_LVT_DELIV_STATUS_SHIFT 1"

definition upd_ioapic :: "nat \<Rightarrow> (IOAPICCommonState \<Rightarrow> IOAPICCommonState) \<Rightarrow> machine \<Rightarrow> machine" where
  "upd_ioapic k f m = m\<lparr>ioapics := (ioapics m)(k := map_option f (ioapics m k))\<rparr>"

abbreviation ioapic_at :: "machine \<Rightarrow> nat \<Rightarrow> IOAPICCommonState" where
  "ioapic_at m k \<equiv> the (ioapics m k)"

section \<open>Entries and messages\<close>

record ioapic_entry_info =
  masked :: u8
  trig_mode :: u8
  dest_idx :: u16
  info_dest_mode :: u8
  delivery_mode :: u8
  vector :: u8
  msi_addr :: u32
  msi_data :: u32

text \<open>An ExtINT entry takes its vector from the 8259 pair, acknowledging it.\<close>

definition ioapic_entry_parse :: "u64 \<Rightarrow> machine \<Rightarrow> ioapic_entry_info \<times> machine" where
  "ioapic_entry_parse entry m =
     (let dm = ucast (drop_bit 8 entry AND 7) :: u8;
          di = ucast (drop_bit 48 entry AND 0xffff) :: u16;
          md = ucast (drop_bit 11 entry AND 1) :: u8;
          tm = ucast (drop_bit 15 entry AND 1) :: u8;
          (vec, m1) = (if dm = IOAPIC_DM_EXTINT
                       then (let (v, m') = pic_read_irq m in (word_of_int v, m'))
                       else (ucast (entry AND 0xff), m)) :: u8 \<times> machine
      in (\<lparr>masked = ucast (drop_bit 16 entry AND 1), trig_mode = tm, dest_idx = di,
           info_dest_mode = md, delivery_mode = dm, vector = vec,
           msi_addr = APIC_DEFAULT_ADDRESS OR push_bit 4 (ucast di) OR push_bit 2 (ucast md),
           msi_data = ucast vec OR push_bit 15 (ucast tm) OR push_bit 8 (ucast dm)\<rparr>, m1))"

section \<open>Service\<close>

definition ioapic_service_pin :: "bus_store \<Rightarrow> nat \<Rightarrow> nat \<Rightarrow> machine \<Rightarrow> machine" where
  "ioapic_service_pin stl_le_phys k i m =
     (let s = ioapic_at m k in
      if bit (io_irr s) i then
        let (info, m1) = ioapic_entry_parse (ioredtbl s ! i) m in
        if masked info = 0 then
          let coalesce = (trig_mode info \<noteq> 0 \<and> bit (ioredtbl (ioapic_at m1 k) ! i) IOAPIC_LVT_REMOTE_IRR_SHIFT);
              m2 = (if trig_mode info = 0
                    then upd_ioapic k (\<lambda>s. s\<lparr>io_irr := io_irr s AND NOT (push_bit i 1)\<rparr>) m1
                    else upd_ioapic k (\<lambda>s. s\<lparr>ioredtbl := (ioredtbl s)[i :=
                           ioredtbl s ! i OR push_bit IOAPIC_LVT_REMOTE_IRR_SHIFT 1]\<rparr>) m1)
          in if coalesce then m2 else stl_le_phys (ucast (msi_addr info)) (msi_data info) m2
        else m1
      else m)"

definition ioapic_service :: "bus_store \<Rightarrow> nat \<Rightarrow> machine \<Rightarrow> machine" where
  "ioapic_service stl_le_phys k m = fold (ioapic_service_pin stl_le_phys k) [0..<IOAPIC_NUM_PINS] m"

text \<open>The timer callback.\<close>

definition delayed_ioapic_service_cb :: "bus_store \<Rightarrow> nat \<Rightarrow> machine \<Rightarrow> machine" where
  "delayed_ioapic_service_cb stl_le_phys k m = ioapic_service stl_le_phys k m"

section \<open>Pins\<close>

definition ioapic_stat_update_irq :: "IOAPICCommonState \<Rightarrow> nat \<Rightarrow> int \<Rightarrow> IOAPICCommonState" where
  "ioapic_stat_update_irq s irq level =
     (if level \<noteq> irq_level s ! irq
      then s\<lparr>irq_level := (irq_level s)[irq := level],
             irq_count := (if level = 1 then (irq_count s)[irq := irq_count s ! irq + 1] else irq_count s)\<rparr>
      else s)"

text \<open>\<open>vector\<close> is the number of an input line, below \<^verbatim>\<open>IOAPIC_NUM_PINS\<close> by \<^verbatim>\<open>qdev_init_gpio_in\<close>.\<close>

definition ioapic_set_irq :: "bus_store \<Rightarrow> nat \<Rightarrow> nat \<Rightarrow> int \<Rightarrow> machine \<Rightarrow> machine" where
  "ioapic_set_irq stl_le_phys k vec level m =
     (let m1 = upd_ioapic k (\<lambda>s. ioapic_stat_update_irq s vec level) m;
          vec = (if vec = 0 then 2 else vec) in
      if vec < IOAPIC_NUM_PINS then
        let entry = ioredtbl (ioapic_at m1 k) ! vec;
            m2 = upd_ioapic k (\<lambda>s. s\<lparr>io_irr := io_irr s OR push_bit vec 1\<rparr>) m1 in
        if bit entry IOAPIC_LVT_TRIGGER_MODE_SHIFT then
          if level \<noteq> 0 then
            (if \<not> bit entry IOAPIC_LVT_REMOTE_IRR_SHIFT then ioapic_service stl_le_phys k m2 else m2)
          else upd_ioapic k (\<lambda>s. s\<lparr>io_irr := io_irr s AND NOT (push_bit vec 1)\<rparr>) m1
        else if level \<noteq> 0 \<and> \<not> bit entry IOAPIC_LVT_MASKED_SHIFT
        then ioapic_service stl_le_phys k m2
        else m1
      else m1)"

section \<open>End of interrupt\<close>

text \<open>\<^verbatim>\<open>timer_mod_anticipate\<close> moves the expiry forward only.\<close>

definition timer_mod_anticipate :: "u64 option \<Rightarrow> u64 \<Rightarrow> u64 option" where
  "timer_mod_anticipate t expire =
     (case t of None \<Rightarrow> Some expire | Some e \<Rightarrow> if sint e > sint expire then Some expire else Some e)"

definition ioapic_eoi_pin :: "bus_store \<Rightarrow> u64 \<Rightarrow> nat \<Rightarrow> nat \<Rightarrow> machine \<Rightarrow> machine" where
  "ioapic_eoi_pin stl_le_phys vec i n m =
     (let s = ioapic_at m i; entry = ioredtbl s ! n in
      if entry AND 0xff \<noteq> vec \<or> \<not> bit entry IOAPIC_LVT_TRIGGER_MODE_SHIFT then m
      else if \<not> bit entry IOAPIC_LVT_REMOTE_IRR_SHIFT then m
      else
        let m1 = upd_ioapic i (\<lambda>s. s\<lparr>ioredtbl := (ioredtbl s)[n :=
                    entry AND NOT (push_bit IOAPIC_LVT_REMOTE_IRR_SHIFT 1)]\<rparr>) m in
        if \<not> bit entry IOAPIC_LVT_MASKED_SHIFT \<and> bit (io_irr s) n then
          let m2 = upd_ioapic i (\<lambda>s. s\<lparr>irq_eoi := (irq_eoi s)[n := irq_eoi s ! n + 1]\<rparr>) m1 in
          if irq_eoi (ioapic_at m2 i) ! n \<ge> SUCCESSIVE_IRQ_MAX_COUNT then
            upd_ioapic i (\<lambda>s. s\<lparr>irq_eoi := (irq_eoi s)[n := 0],
              delayed_timer := timer_mod_anticipate (delayed_timer s) (clock_ns m2 + 10000000)\<rparr>) m2
          else ioapic_service stl_le_phys i m2
        else upd_ioapic i (\<lambda>s. s\<lparr>irq_eoi := (irq_eoi s)[n := 0]\<rparr>) m1)"

definition ioapic_eoi_broadcast :: "bus_store \<Rightarrow> u64 \<Rightarrow> machine \<Rightarrow> machine" where
  "ioapic_eoi_broadcast stl_le_phys vec m =
     fold (\<lambda>i m. if ioapics m i = None then m
                 else fold (ioapic_eoi_pin stl_le_phys vec i) [0..<IOAPIC_NUM_PINS] m)
       [0..<MAX_IOAPICS] m"

section \<open>The register window\<close>

text \<open>\<^verbatim>\<open>(s->ioregsel - IOAPIC_REG_REDTBL_BASE) >> 1\<close>, an \<^verbatim>\<open>int\<close>.\<close>

definition redtbl_index :: "u8 \<Rightarrow> int" where
  "redtbl_index sel = drop_bit 1 (uint sel - 0x10)"

definition ioapic_mem_read :: "IOAPICCommonState \<Rightarrow> u64 \<Rightarrow> nat \<Rightarrow> u64" where
  "ioapic_mem_read s addr siz =
     (let addr = addr AND 0xff; sel = ioregsel s in
      if addr = 0x00 then ucast sel
      else if addr = 0x10 then
        if siz \<noteq> 4 then 0
        else if sel = 0x00 \<or> sel = 0x02 then push_bit 24 (ucast (ioapic_id s))
        else if sel = 0x01 then ucast (io_version s) OR push_bit 16 23
        else
          let index = redtbl_index sel in
          if index \<ge> 0 \<and> index < int IOAPIC_NUM_PINS then
            (if bit sel 0 then drop_bit 32 (ioredtbl s ! nat index)
             else ioredtbl s ! nat index AND 0xffffffff)
          else 0
      else 0)"

definition ioapic_fix_edge_remote_irr :: "u64 \<Rightarrow> u64" where
  "ioapic_fix_edge_remote_irr entry =
     (if \<not> bit entry IOAPIC_LVT_TRIGGER_MODE_SHIFT
      then entry AND NOT (push_bit IOAPIC_LVT_REMOTE_IRR_SHIFT 1) else entry)"

text \<open>The new value of a redirection entry when one half of it is written.\<close>

definition redtbl_write :: "u8 \<Rightarrow> u64 \<Rightarrow> u64 \<Rightarrow> u64" where
  "redtbl_write sel val entry =
     (let ro_bits = entry AND IOAPIC_RO_BITS;
          e = (if bit sel 0 then (entry AND 0xffffffff) OR push_bit 32 val
               else (entry AND NOT 0xffffffff) OR val)
      in ioapic_fix_edge_remote_irr ((e AND NOT IOAPIC_RO_BITS) OR ro_bits))"

definition ioapic_mem_write :: "bus_store \<Rightarrow> nat \<Rightarrow> u64 \<Rightarrow> u64 \<Rightarrow> nat \<Rightarrow> machine \<Rightarrow> machine" where
  "ioapic_mem_write stl_le_phys k addr val siz m =
     (let addr = addr AND 0xff; s = ioapic_at m k; sel = ioregsel s in
      if addr = 0x00 then upd_ioapic k (\<lambda>s. s\<lparr>ioregsel := ucast val\<rparr>) m
      else if addr = 0x10 then
        if siz \<noteq> 4 then m
        else if sel = 0x00 then upd_ioapic k (\<lambda>s. s\<lparr>ioapic_id := ucast (drop_bit 24 val AND 0xf)\<rparr>) m
        else if sel = 0x01 \<or> sel = 0x02 then m
        else
          let index = redtbl_index sel in
          if index \<ge> 0 \<and> index < int IOAPIC_NUM_PINS then
            ioapic_service stl_le_phys k
              (upd_ioapic k (\<lambda>s. s\<lparr>
                 ioredtbl := (ioredtbl s)[nat index := redtbl_write sel val (ioredtbl s ! nat index)],
                 irq_eoi := (irq_eoi s)[nat index := 0]\<rparr>) m)
          else m
      else if addr = 0x40 then
        if siz \<noteq> 4 \<or> io_version s \<noteq> 0x20 then m
        else ioapic_eoi_broadcast stl_le_phys (scast (ucast val :: u32)) m
      else m)"

section \<open>Reset and realization\<close>

definition ioapic_reset_common :: "IOAPICCommonState \<Rightarrow> IOAPICCommonState" where
  "ioapic_reset_common s = s\<lparr>ioapic_id := 0, ioregsel := 0, io_irr := 0,
     ioredtbl := replicate IOAPIC_NUM_PINS (push_bit IOAPIC_LVT_MASKED_SHIFT 1)\<rparr>"

text \<open>\<open>ioapic_no\<close> counts the I/O APICs realized so far.\<close>

definition ioapic_realize ::
    "IOAPICCommonState \<Rightarrow> nat \<Rightarrow> machine \<Rightarrow> string option \<times> nat \<times> machine" where
  "ioapic_realize s ioapic_no m =
     (if ioapic_no \<ge> MAX_IOAPICS then (Some ''Only 2 ioapics allowed'', ioapic_no, m)
      else if io_version s \<noteq> 0x11 \<and> io_version s \<noteq> 0x20
      then (Some ''IOAPIC only supports version 0x11 or 0x20'', ioapic_no + 1, m)
      else (None, ioapic_no + 1, m\<lparr>ioapics := (ioapics m)(ioapic_no \<mapsto> s\<lparr>delayed_timer := None\<rparr>)\<rparr>))"

section \<open>Frame facts\<close>

lemma upd_ioapic_simps [frame_simps]:
  "ioapics (upd_ioapic k f m) = (ioapics m)(k := map_option f (ioapics m k))"
  "local_apics (upd_ioapic k f m) = local_apics m" "cpus (upd_ioapic k f m) = cpus m"
  "cpu_list (upd_ioapic k f m) = cpu_list m" "current_cpu (upd_ioapic k f m) = current_cpu m"
  "isa_pic (upd_ioapic k f m) = isa_pic m" "slave_pic (upd_ioapic k f m) = slave_pic m"
  "phys_mem (upd_ioapic k f m) = phys_mem m" "clock_ns (upd_ioapic k f m) = clock_ns m"
  by (simp_all add: upd_ioapic_def)

lemma apics_wf_upd_ioapic [simp]: "apics_wf (upd_ioapic k f m) = apics_wf m"
  by (rule apics_wf_cong) (simp add: frame_simps)

lemma ioapic_entry_parse_frame [frame_simps]:
  "ioapics (snd (ioapic_entry_parse e m)) = ioapics m"
  "current_cpu (snd (ioapic_entry_parse e m)) = current_cpu m"
  "isr (apic_at (snd (ioapic_entry_parse e m)) k) = isr (apic_at m k)"
  "local_apics (snd (ioapic_entry_parse e m)) k = None \<longleftrightarrow> local_apics m k = None"
  by (simp_all add: ioapic_entry_parse_def Let_def case_prod_beta frame_simps)

lemma apics_wf_entry_parse: "apics_wf m \<Longrightarrow> apics_wf (snd (ioapic_entry_parse e m))"
  by (simp add: ioapic_entry_parse_def Let_def case_prod_beta apics_wf_pic_read_irq)

text \<open>For an entry that is not ExtINT the parse is a function of the entry alone.\<close>

definition extint :: "u64 \<Rightarrow> bool" where
  "extint entry \<longleftrightarrow> bit entry 8 \<and> bit entry 9 \<and> bit entry 10"

lemma delivery_mode_extint:
  fixes entry :: u64
  shows "(ucast (drop_bit 8 entry AND 7) :: u8) = 7 \<longleftrightarrow> extint entry"
proof -
  have bits: "bit (7 :: u64) j \<longleftrightarrow> j \<in> set [0, 1, 2]" "bit (7 :: u8) j \<longleftrightarrow> j \<in> set [0, 1, 2]" for j
    by (rule bit_iff_listed, code_simp)+
  have "(ucast (drop_bit 8 entry AND 7) :: u8) = 7 \<longleftrightarrow>
      (\<forall>j<8. bit (ucast (drop_bit 8 entry AND 7) :: u8) j = bit (7 :: u8) j)"
    by (auto intro: bit_word_eqI)
  also have "\<dots> \<longleftrightarrow> (\<forall>j\<in>set [0, 1, 2]. bit entry (8 + j))"
    unfolding bits by (simp only: bit_ucast_iff bit_and_iff bit_drop_bit_eq comp_def bits)
      (auto dest: spec [of _ 0] spec [of _ "Suc 0"] spec [of _ 2])
  also have "\<dots> \<longleftrightarrow> extint entry" by (auto simp: extint_def)
  finally show ?thesis .
qed

lemma ioapic_entry_parse_pure:
  assumes "\<not> extint entry"
  shows "ioapic_entry_parse entry m = (fst (ioapic_entry_parse entry m'), m)"
  using assms by (simp add: ioapic_entry_parse_def Let_def delivery_mode_extint)

section \<open>What servicing the pins sends\<close>

text \<open>
  The effect on the registers of servicing one pin, whether it sends, and the message.
\<close>

definition pin_active :: "IOAPICCommonState \<Rightarrow> nat \<Rightarrow> bool" where
  "pin_active s i \<longleftrightarrow> bit (io_irr s) i \<and> \<not> bit (ioredtbl s ! i) IOAPIC_LVT_MASKED_SHIFT"

definition pin_serviced :: "nat \<Rightarrow> IOAPICCommonState \<Rightarrow> IOAPICCommonState" where
  "pin_serviced i s =
     (if \<not> pin_active s i then s
      else if \<not> bit (ioredtbl s ! i) IOAPIC_LVT_TRIGGER_MODE_SHIFT
      then s\<lparr>io_irr := io_irr s AND NOT (push_bit i 1)\<rparr>
      else s\<lparr>ioredtbl := (ioredtbl s)[i := ioredtbl s ! i OR push_bit IOAPIC_LVT_REMOTE_IRR_SHIFT 1]\<rparr>)"

definition pin_sends :: "IOAPICCommonState \<Rightarrow> nat \<Rightarrow> bool" where
  "pin_sends s i \<longleftrightarrow> pin_active s i \<and>
     \<not> (bit (ioredtbl s ! i) IOAPIC_LVT_TRIGGER_MODE_SHIFT \<and> bit (ioredtbl s ! i) IOAPIC_LVT_REMOTE_IRR_SHIFT)"

definition entry_addr :: "u64 \<Rightarrow> u64" where
  "entry_addr entry = ucast (msi_addr (fst (ioapic_entry_parse entry undefined)))"

definition entry_data :: "u64 \<Rightarrow> u32" where
  "entry_data entry = msi_data (fst (ioapic_entry_parse entry undefined))"

lemma bit_field_eq_0:
  fixes entry :: u64
  shows "(ucast (drop_bit n entry AND 1) :: u8) = 0 \<longleftrightarrow> \<not> bit entry n"
proof -
  have "drop_bit n entry AND 1 = of_bool (bit entry n)"
    by (simp add: and_one_eq bit_iff_odd_drop_bit mod_2_eq_odd)
  then show ?thesis by simp
qed

lemma ioapic_service_pin_eq:
  assumes "ioapics m k = Some s" and "bit (io_irr s) i \<Longrightarrow> \<not> extint (ioredtbl s ! i)"
  shows "ioapic_service_pin bus k i m =
    (if pin_sends s i
     then bus (entry_addr (ioredtbl s ! i)) (entry_data (ioredtbl s ! i)) (upd_ioapic k (pin_serviced i) m)
     else upd_ioapic k (pin_serviced i) m)"
proof (cases "bit (io_irr s) i")
  case False
  with assms(1) show ?thesis
    by (simp add: ioapic_service_pin_def pin_sends_def pin_serviced_def pin_active_def upd_ioapic_def fun_upd_idem)
next
  case True
  let ?e = "ioredtbl s ! i"
  have p: "ioapic_entry_parse ?e m = (fst (ioapic_entry_parse ?e undefined), m)"
    using assms(2) True by (intro ioapic_entry_parse_pure) blast
  have m: "masked (fst (ioapic_entry_parse ?e undefined)) = 0 \<longleftrightarrow> \<not> bit ?e 16"
    and t: "trig_mode (fst (ioapic_entry_parse ?e undefined)) = 0 \<longleftrightarrow> \<not> bit ?e 15"
    by (simp_all add: ioapic_entry_parse_def Let_def case_prod_beta bit_field_eq_0)
  show ?thesis
    using assms(1) True
    by (auto simp: ioapic_service_pin_def p m t pin_sends_def pin_active_def pin_serviced_def
        entry_addr_def entry_data_def upd_ioapic_def fun_upd_idem)
qed

text \<open>
  What the I/O APIC relies on of the bus: storing a message at an address \<open>ok\<close> accepts is not
  a way back to the I/O APICs.
\<close>

locale message_bus =
  fixes bus :: bus_store and ok :: "u64 \<Rightarrow> bool"
  assumes bus_ioapics: "ok a \<Longrightarrow> ioapics (bus a d m) = ioapics m"
    and bus_commute: "ok a \<Longrightarrow> bus a d (upd_ioapic k f m) = upd_ioapic k f (bus a d m)"
begin

lemma upd_ioapic_trans: "upd_ioapic k g (upd_ioapic k f m) = upd_ioapic k (\<lambda>s. g (f s)) m"
  by (simp add: upd_ioapic_def map_option.compositionality comp_def)

lemma pin_serviced_other:
  assumes "j \<noteq> i"
  shows "pin_sends (pin_serviced i s) j = pin_sends s j" "ioredtbl (pin_serviced i s) ! j = ioredtbl s ! j"
    "bit (io_irr (pin_serviced i s)) j = bit (io_irr s) j"
  using assms by (simp_all add: pin_serviced_def pin_sends_def pin_active_def mask_simps)

lemma service_pins:
  assumes "ioapics m k = Some s" and "distinct pins"
    and "\<And>i. i \<in> set pins \<Longrightarrow> bit (io_irr s) i \<Longrightarrow> \<not> extint (ioredtbl s ! i)"
    and "\<And>i. i \<in> set pins \<Longrightarrow> pin_sends s i \<Longrightarrow> ok (entry_addr (ioredtbl s ! i))"
  shows "fold (ioapic_service_pin bus k) pins m =
    fold (\<lambda>i. bus (entry_addr (ioredtbl s ! i)) (entry_data (ioredtbl s ! i))) (filter (pin_sends s) pins)
      (upd_ioapic k (fold pin_serviced pins) m)"
  using assms
proof (induction pins arbitrary: m s)
  case Nil
  then show ?case by (simp add: upd_ioapic_def option.map_ident fun_upd_idem)
next
  case (Cons i pins)
  let ?s1 = "pin_serviced i s" and ?m1 = "ioapic_service_pin bus k i m"
  let ?bus = "bus (entry_addr (ioredtbl s ! i)) (entry_data (ioredtbl s ! i))"
  have eq: "?m1 = (if pin_sends s i then ?bus (upd_ioapic k (pin_serviced i) m) else upd_ioapic k (pin_serviced i) m)"
    using Cons.prems by (intro ioapic_service_pin_eq) auto
  have ok: "pin_sends s i \<Longrightarrow> ok (entry_addr (ioredtbl s ! i))" using Cons.prems(4) by simp
  have s1: "ioapics ?m1 k = Some ?s1"
    using Cons.prems(1) ok by (simp add: eq bus_ioapics frame_simps)
  have other: "j \<in> set pins \<Longrightarrow> j \<noteq> i" for j using Cons.prems(2) by auto
  have same: "filter (pin_sends ?s1) pins = filter (pin_sends s) pins"
    using other by (intro filter_cong) (simp_all add: pin_serviced_other)
  have "fold (ioapic_service_pin bus k) pins ?m1 =
      fold (\<lambda>j. bus (entry_addr (ioredtbl ?s1 ! j)) (entry_data (ioredtbl ?s1 ! j))) (filter (pin_sends ?s1) pins)
        (upd_ioapic k (fold pin_serviced pins) ?m1)"
    using Cons.prems(2-4) other by (intro Cons.IH [OF s1]) (auto simp: pin_serviced_other)
  also have "\<dots> = fold (\<lambda>j. bus (entry_addr (ioredtbl s ! j)) (entry_data (ioredtbl s ! j))) (filter (pin_sends s) pins)
        (upd_ioapic k (fold pin_serviced pins) ?m1)"
    unfolding same using other by (intro fold_cong) (auto simp: pin_serviced_other)
  also have "upd_ioapic k (fold pin_serviced pins) ?m1 =
      (if pin_sends s i then ?bus else id) (upd_ioapic k (fold pin_serviced (i # pins)) m)"
    using ok by (simp add: eq upd_ioapic_trans comp_def flip: bus_commute)
  finally show ?case by (simp add: comp_def)
qed

end

section \<open>The redirection table\<close>

lemma bit_low_mask: "bit (0xffffffff :: u64) n \<longleftrightarrow> n < 32"
proof -
  have "(0xffffffff :: u64) = mask 32" by (simp add: mask_eq_exp_minus_1)
  then show ?thesis by (simp only: bit_mask_iff) auto
qed

lemma bit_below_32:
  fixes val :: u64
  assumes "val AND NOT 0xffffffff = 0" and "bit val j"
  shows "j < 32"
proof (rule ccontr)
  assume "\<not> j < 32"
  then have "bit (val AND NOT 0xffffffff) j"
    using assms(2) bit_imp_le_length [of val j] by (simp only: bit_and_iff bit_not_iff bit_low_mask) auto
  with assms(1) show False by simp
qed

lemma bit_RO_BITS: "bit IOAPIC_RO_BITS n \<longleftrightarrow> n = 12 \<or> n = 14"
proof -
  have "bit IOAPIC_RO_BITS n \<longleftrightarrow> n \<in> set [12, 14]" by (rule bit_iff_listed) code_simp
  then show ?thesis by simp
qed

lemma redtbl_write_high:
  assumes "bit sel 0" and "n < 64"
  shows "bit (redtbl_write sel val entry) n \<longleftrightarrow>
    (if n = 14 then bit entry 14 \<and> bit entry 15 else if n < 32 then bit entry n else bit val (n - 32))"
  unfolding redtbl_write_def ioapic_fix_edge_remote_irr_def Let_def
  using assms
  by (simp only: bit_and_iff bit_or_iff bit_not_iff bit_push_bit_iff bit_low_mask bit_RO_BITS mask_simps
      push_bit_of_1 if_distrib [where f="\<lambda>x. bit x n"])
    (auto simp: bit_simps bit_low_mask bit_RO_BITS)

lemma redtbl_write_low:
  assumes "\<not> bit sel 0" and "n < 64" and "val AND NOT 0xffffffff = 0"
  shows "bit (redtbl_write sel val entry) n \<longleftrightarrow>
    (if n = 12 then bit entry 12 else if n = 14 then bit entry 14 \<and> bit val 15
     else if n < 32 then bit val n else bit entry n)"
proof -
  have val: "\<not> bit val j" if "32 \<le> j" for j using bit_below_32 [OF assms(3)] that by force
  show ?thesis
    unfolding redtbl_write_def ioapic_fix_edge_remote_irr_def Let_def
    using assms(1,2) val
    by (simp only: bit_and_iff bit_or_iff bit_not_iff bit_push_bit_iff bit_low_mask bit_RO_BITS mask_simps
        push_bit_of_1 if_distrib [where f="\<lambda>x. bit x n"])
      (auto simp: bit_simps bit_low_mask bit_RO_BITS)
qed

lemma redtbl_write_read:
  assumes "v AND NOT 0xffffffff = 0"
    and "\<not> bit sel 0 \<Longrightarrow> v AND IOAPIC_RO_BITS = 0 \<and> e AND IOAPIC_RO_BITS = 0"
  shows "(if bit sel 0 then drop_bit 32 (redtbl_write sel v e) else redtbl_write sel v e AND 0xffffffff) = v"
proof (rule bit_word_eqI)
  fix n
  note val = bit_below_32 [OF assms(1)]
  show "bit (if bit sel 0 then drop_bit 32 (redtbl_write sel v e) else redtbl_write sel v e AND 0xffffffff) n = bit v n"
  proof (cases "bit sel 0")
    case True
    have "bit (redtbl_write sel v e) (32 + n) = bit v n"
    proof (cases "n < 32")
      case False
      then have "\<not> bit (redtbl_write sel v e) (32 + n)"
        using bit_imp_le_length [of "redtbl_write sel v e" "32 + n"] by auto
      with False val show ?thesis by blast
    qed (simp add: redtbl_write_high [OF True])
    with True show ?thesis by (simp add: bit_drop_bit_eq)
  next
    case False
    have "bit (x AND IOAPIC_RO_BITS) j = (bit x j \<and> (j = 12 \<or> j = 14))" for x j
      by (simp add: bit_and_iff bit_RO_BITS)
    then have ro: "\<not> bit v 12 \<and> \<not> bit v 14 \<and> \<not> bit e 12 \<and> \<not> bit e 14"
      using assms(2) [OF False] by (metis bit_0_eq bot_apply bot_bool_def)
    have "bit (redtbl_write sel v e) n = bit v n" if "n < 32"
      using redtbl_write_low [OF False _ assms(1), of n e] that ro by auto
    with False val show ?thesis by (simp only: if_False bit_and_iff bit_low_mask) blast
  qed
qed

text \<open>
  writing half of a redirection entry. The other half is kept; the delivery-status bit
  keeps its value; the remote-IRR bit keeps its value on a level-triggered entry and is
  cleared on an edge-triggered one; every other bit of the half takes the value written.
\<close>

theorem redtbl_write_bits:
  assumes "n < 64" and "val AND NOT 0xffffffff = 0"
  shows "bit (redtbl_write sel val entry) n \<longleftrightarrow>
    (let high = bit sel 0;
         new = (\<lambda>n. if n < 32 then (if high then bit entry n else bit val n)
                    else (if high then bit val (n - 32) else bit entry n))
     in if n = 12 then bit entry 12 else if n = 14 then bit entry 14 \<and> new 15 else new n)"
  using redtbl_write_high [of sel n val entry] redtbl_write_low [of sel n val entry] assms
  by (cases "bit sel 0") (auto simp: Let_def)

theorem redtbl_write_bits_witness:
  "\<not> bit (redtbl_write 0x10 0x31 0xd031) 14 \<and> bit (redtbl_write 0x10 0x31 0xd031) 12"
proof -
  have "(0x31 :: u64) AND NOT 0xffffffff = 0" by code_simp
  then show ?thesis
    using redtbl_write_bits [of 14 "0x31" "0x10" "0xd031"] redtbl_write_bits [of 12 "0x31" "0x10" "0xd031"]
    by (simp add: Let_def)
qed

lemma ioapic_service_idle:
  assumes "io_irr (ioapic_at m k) = 0"
  shows "ioapic_service bus k m = m"
proof -
  have "fold (ioapic_service_pin bus k) pins m = m" for pins
    using assms by (induction pins) (simp_all add: ioapic_service_pin_def)
  then show ?thesis by (simp only: ioapic_service_def)
qed

lemma redtbl_index_pin: "i < 24 \<Longrightarrow> h < 2 \<Longrightarrow> redtbl_index (of_nat (16 + 2 * i + h)) = int i"
proof -
  assume "i < 24" "h < 2"
  then have "uint (of_nat (16 + 2 * i + h) :: u8) = int (16 + 2 * i + h)"
    by (simp only: uint_nat unat_of_nat) (simp add: take_bit_nat_eq_self)
  moreover have "(2 * int i + int h) div 2 = int i" using \<open>h < 2\<close> by simp
  ultimately show ?thesis by (simp add: redtbl_index_def drop_bit_eq_div)
qed

text \<open>
  the register window is a faithful view of the redirection table: with no pin pending, a
  32-bit value written to either half of an entry (outside its read-only bits) is what the
  next read of that half returns.
\<close>

theorem ioapic_window_roundtrip:
  assumes "ioapics m k = Some s" and "length (ioredtbl s) = IOAPIC_NUM_PINS" and "io_irr s = 0"
    and "i < IOAPIC_NUM_PINS" and "h < 2" and "v AND NOT 0xffffffff = 0"
    and "h = 0 \<Longrightarrow> v AND IOAPIC_RO_BITS = 0 \<and> ioredtbl s ! i AND IOAPIC_RO_BITS = 0"
  shows "let m1 = ioapic_mem_write bus k 0 (of_nat (0x10 + 2 * i + h)) 4 m;
             m2 = ioapic_mem_write bus k 0x10 v 4 m1
         in ioapic_mem_read (ioapic_at m2 k) 0x10 4 = v"
proof -
  let ?sel = "of_nat (16 + 2 * i + h) :: u8" and ?e = "ioredtbl s ! i"
  have low: "unat ?sel = 16 + 2 * i + h"
    using assms(4,5) by (simp only: unat_of_nat) (simp add: take_bit_nat_eq_self)
  then have sel: "?sel \<noteq> 0" "?sel \<noteq> 1" "?sel \<noteq> 2" by (auto simp del: of_nat_add)
  have odd: "bit ?sel 0 \<longleftrightarrow> h = 1" using assms(5) by (auto simp: bit_0 less_2_cases_iff)
  have cast: "(ucast (of_nat (16 + 2 * i + h) :: u64) :: u8) = ?sel"
    using assms(4,5) by (simp only: unsigned_of_nat) (simp add: take_bit_nat_eq_self)
  note idx = redtbl_index_pin [OF assms(4,5)]
  define e' where "e' = redtbl_write ?sel v ?e"
  let ?m1 = "upd_ioapic k (\<lambda>s. s\<lparr>ioregsel := ?sel\<rparr>) m"
  let ?s2 = "s\<lparr>ioregsel := ?sel, ioredtbl := (ioredtbl s)[i := e'], irq_eoi := (irq_eoi s)[i := 0]\<rparr>"
  have w1: "ioapic_mem_write bus k 0 (of_nat (16 + 2 * i + h)) 4 m = ?m1"
    by (simp only: ioapic_mem_write_def Let_def cast) simp
  have w2: "ioapics (ioapic_mem_write bus k 0x10 v 4 ?m1) k = Some ?s2"
    using assms(1,3,4) sel
    by (simp add: ioapic_mem_write_def Let_def frame_simps idx ioapic_service_idle e'_def del: of_nat_add)
  have rd: "ioapic_mem_read ?s2 0x10 4 = (if bit ?sel 0 then drop_bit 32 e' else e' AND 0xffffffff)"
    using sel assms(2,4) by (simp add: ioapic_mem_read_def Let_def idx del: of_nat_add)
  have "ioapic_mem_read ?s2 0x10 4 = v"
    unfolding rd unfolding e'_def by (rule redtbl_write_read [OF assms(6)]) (use assms(5,7) odd in auto)
  with w1 w2 show ?thesis by (simp only: Let_def option.sel)
qed


text \<open>An I/O APIC as reset leaves it.\<close>

definition example_ioapic :: IOAPICCommonState where
  "example_ioapic = ioapic_reset_common
     \<lparr>ioapic_id = 0, ioregsel = 0, io_irr = 0, ioredtbl = [], io_version = 0x20,
      irq_count = replicate 24 0, irq_level = replicate 24 0, irq_eoi = replicate 24 0,
      delayed_timer = None\<rparr>"

theorem ioapic_window_roundtrip_witness:
  "let m = example_machine\<lparr>ioapics := [0 \<mapsto> example_ioapic]\<rparr>;
       m1 = ioapic_mem_write (\<lambda>_ _ m. m) 0 0 (of_nat (0x10 + 2 * 3 + 0)) 4 m;
       m2 = ioapic_mem_write (\<lambda>_ _ m. m) 0 0x10 0x8931 4 m1
   in ioapic_mem_read (ioapic_at m2 0) 0x10 4 = 0x8931"
proof -
  have v: "(0x8931 :: u64) AND NOT 0xffffffff = 0" "(0x8931 :: u64) AND IOAPIC_RO_BITS = 0"
    "(push_bit 16 1 :: u64) AND IOAPIC_RO_BITS = 0"
    by code_simp+
  show ?thesis
    using ioapic_window_roundtrip [of "example_machine\<lparr>ioapics := [0 \<mapsto> example_ioapic]\<rparr>" 0 example_ioapic
        3 0 "0x8931" "\<lambda>_ _ m. m"] v
    by (simp add: example_ioapic_def ioapic_reset_common_def Let_def)
qed

end
