(* ===== verification/PC_Wiring.thy ===== *)
theory PC_Wiring
  imports APIC_Delivery IO_APIC
begin

text \<open>
  The controllers put together as the PC board has them: a store of an I/O APIC lands in the
  local APICs' message window at 0xfee00000, and the end of a level-triggered interrupt at a
  local APIC is broadcast to the I/O APICs. Since an entry with its reserved bits set and
  destination 0 turns the store into a register write, which may itself signal an end of
  interrupt, the two call each other; \<open>pc_hooks n\<close> follows \<open>n\<close> such calls, and
  \<open>pc_env\<close> takes enough of them (see \<open>pc_hooks_enough\<close>).
\<close>

section \<open>The bus\<close>

text \<open>The memory region of the local APICs is 1 MiB large; other addresses are memory.\<close>

definition stl_le_phys :: "apic_hooks \<Rightarrow> bus_store" where
  "stl_le_phys h addr dat m =
     (if 0xfee00000 \<le> addr \<and> addr < 0xfef00000
      then apic_mem_write h (addr - 0xfee00000) (ucast dat) 4 m
      else m\<lparr>phys_mem := stl_le (phys_mem m) addr dat\<rparr>)"

text \<open>TPR reporting is off, as it is until the \<^verbatim>\<open>kvmvapic\<close> device turns it on.\<close>

fun pc_hooks :: "nat \<Rightarrow> apic_hooks" where
  "pc_hooks 0 = \<lparr>eoi_broadcast = (\<lambda>_ m. m), report_tpr_access = (\<lambda>_ _ m. m)\<rparr>"
| "pc_hooks (Suc n) =
     \<lparr>eoi_broadcast = (\<lambda>v. ioapic_eoi_broadcast (stl_le_phys (pc_hooks n)) (of_nat v)),
      report_tpr_access = (\<lambda>_ _ m. m)\<rparr>"

definition pc_env :: apic_hooks where
  "pc_env = pc_hooks 258"

section \<open>What every path through the controllers keeps\<close>

text \<open>
  \<open>settles m m'\<close>: the registers stay well formed, the running processor is the same, and no
  vector enters an in-service register.
\<close>

definition settles :: "machine \<Rightarrow> machine \<Rightarrow> bool" where
  "settles m m' \<longleftrightarrow> (apics_wf m \<longrightarrow> apics_wf m' \<and> current_cpu m' = current_cpu m
     \<and> (\<forall>i. isr_set m' i \<subseteq> isr_set m i \<and> (local_apics m' i = None \<longleftrightarrow> local_apics m i = None)))"

named_theorems settle

lemma settles_refl [settle]: "settles m m"
  by (simp add: settles_def)

lemma settles_trans: "settles m m' \<Longrightarrow> settles m' m'' \<Longrightarrow> settles m m''"
  by (auto simp: settles_def)

lemma settlesI:
  assumes "apics_wf m \<Longrightarrow> apics_wf m'" and "current_cpu m' = current_cpu m"
    and "\<And>i. isr (apic_at m' i) = isr (apic_at m i)" and "\<And>i. local_apics m' i = None \<longleftrightarrow> local_apics m i = None"
  shows "settles m m'"
  using assms by (simp add: settles_def)

lemma settles_fold: "(\<And>x m. settles m (f x m)) \<Longrightarrow> settles m (fold f xs m)"
  by (induction xs arbitrary: m) (auto intro: settles_refl settles_trans)

lemma settles_if [settle]: "(b \<Longrightarrow> settles m x) \<Longrightarrow> (\<not> b \<Longrightarrow> settles m y) \<Longrightarrow> settles m (if b then x else y)"
  by simp

lemma settles_upd_ioapic [settle]: "settles m (upd_ioapic k f m)"
  by (rule settlesI) (simp_all add: frame_simps)

lemma settles_update_irq [settle]: "settles m (apic_update_irq i m)"
  by (rule settlesI) (simp_all add: frame_simps)

lemma settles_sync_vapic [settle]: "settles m (apic_sync_vapic i t m)"
  by (rule settlesI) (simp_all add: frame_simps apics_wf_sync_vapic)

lemma settles_cpu_interrupt [settle]: "settles m (cpu_interrupt i w m)"
  by (rule settlesI) (simp_all add: frame_simps)

lemma settles_upd_apic:
  assumes "\<And>s. apic_wf s \<Longrightarrow> apic_wf (f s) \<and> vectors (isr (f s)) \<subseteq> vectors (isr s)"
  shows "settles m (upd_apic i f m)"
  unfolding settles_def
proof (intro impI conjI allI)
  assume wf: "apics_wf m"
  then show "apics_wf (upd_apic i f m)" using assms by (intro apics_wf_upd) auto
  fix k
  show "isr_set (upd_apic i f m) k \<subseteq> isr_set m k"
  proof (cases "local_apics m i")
    case (Some s)
    then have "apic_wf s" using wf by (simp add: apics_wf_def)
    with Some assms [of s] show ?thesis by (simp add: frame_simps)
  qed (simp add: frame_simps)
qed (simp_all add: frame_simps)

lemma apic_set_irq_isr [simp]: "isr (apic_at (apic_set_irq i v t m) k) = isr (apic_at m k)"
  by (cases "k = i"; cases "local_apics m i") (simp_all add: apic_set_irq_apics)

lemma settles_set_irq [settle]: "settles m (apic_set_irq i v t m)"
  by (rule settlesI) (simp_all add: frame_simps apics_wf_set_irq)

lemma settles_foreach: "(\<And>k m. settles m (code k m)) \<Longrightarrow> settles m (foreach_apic bm code m)"
  unfolding foreach_apic_eq by (rule settles_fold) (auto simp: visit_def intro: settles_refl)

lemma settles_bus_deliver [settle]: "settles m (apic_bus_deliver bm dm v t m)"
  unfolding apic_bus_deliver_def Let_def by (intro settle settles_foreach)

lemma settles_deliver_irq [settle]: "settles m (apic_deliver_irq d md dm v t m)"
  unfolding apic_deliver_irq_def by (rule settle)


lemma settles_startup [settle]: "settles m (apic_startup i v m)"
  unfolding apic_startup_def
  by (rule settles_trans [OF settles_upd_apic settles_cpu_interrupt]) (simp add: apic_wf_def)

lemma settles_deliver [settle]: "settles m (apic_deliver i d md dm v t m)"
  unfolding apic_deliver_def Let_def
  by (intro settle settles_foreach settles_upd_apic) (simp add: apic_wf_def)

lemma settles_local_deliver [settle]: "settles m (apic_local_deliver i n m)"
  unfolding apic_local_deliver_def Let_def by (intro settle)

lemma settles_check_pic [settle]: "settles m (snd (apic_check_pic i m))"
  by (auto simp: apic_check_pic_def apic_deliver_pic_intr_def intro: settle)

lemma settles_timer_update [settle]: "settles m (apic_timer_update i t m)"
  unfolding apic_timer_update_def
  by (rule settles_upd_apic) (auto simp: apic_next_timer_def Let_def apic_wf_def split: if_splits)

text \<open>An end of interrupt and a register write settle when the hooks do.\<close>

definition hooks_settle :: "apic_hooks \<Rightarrow> bool" where
  "hooks_settle h \<longleftrightarrow> (\<forall>v m. settles m (eoi_broadcast h v m)) \<and> (\<forall>b i m. settles m (report_tpr_access h b i m))"

lemma settles_reset_isr: "v < 256 \<Longrightarrow> settles m (upd_apic i (\<lambda>s. s\<lparr>isr := apic_reset_bit (isr s) v\<rparr>) m)"
  by (rule settles_upd_apic) (auto simp: apic_wf_def vector_simps)

lemma apic_eoi_some:
  assumes "isr_set m i \<noteq> {}"
  shows "apic_eoi h i m =
    (let v = Max (isr_set m i); m1 = upd_apic i (\<lambda>s. s\<lparr>isr := apic_reset_bit (isr s) v\<rparr>) m
     in apic_update_irq i (apic_sync_vapic i (SYNC_FROM_VAPIC OR SYNC_TO_VAPIC)
          (if \<not> bit (spurious_vec (apic_at m i)) APIC_SV_DIRECTED_IO_SHIFT \<and> apic_get_bit (tmr (apic_at m i)) v
           then eoi_broadcast h v m1 else m1)))"
  using assms by (simp add: apic_eoi_def Let_def get_highest_priority_int_Max)

lemma settles_eoi:
  assumes "hooks_settle h"
  shows "settles m (apic_eoi h i m)"
proof (cases "isr_set m i = {}")
  case False
  then have v: "Max (isr_set m i) < 256" using Max_in [OF finite_vectors False] vectors_bound by blast
  let ?m1 = "upd_apic i (\<lambda>s. s\<lparr>isr := apic_reset_bit (isr s) (Max (isr_set m i))\<rparr>) m"
  have s1: "settles ?m1 (if b then eoi_broadcast h (Max (isr_set m i)) ?m1 else ?m1)" for b
    using assms by (simp add: hooks_settle_def settles_refl)
  have "settles m (apic_update_irq i (apic_sync_vapic i t
      (if b then eoi_broadcast h (Max (isr_set m i)) ?m1 else ?m1)))" for b t
    by (rule settles_trans [OF settles_trans [OF settles_trans [OF settles_reset_isr [OF v] s1]
            settles_sync_vapic] settles_update_irq])
  then show ?thesis unfolding apic_eoi_some [OF False] Let_def .
qed (simp add: apic_eoi_none settles_refl)

lemma settles_icr_write [settle]: "settles m (apic_icr_write i v m)"
  unfolding apic_icr_write_def Let_def
  by (rule settles_trans [OF settles_upd_apic settles_deliver]) (auto simp: apic_wf_def)


lemma settles_reg_write:
  assumes "hooks_settle h"
  shows "settles m (apic_reg_write h i index v m)"
proof -
  have tpr: "settles m (report_tpr_access h b i m)" for b using assms by (simp add: hooks_settle_def)
  have "settles m (apic_update_irq i (apic_sync_vapic i t (upd_apic i (\<lambda>s. s\<lparr>tpr := x\<rparr>)
      (report_tpr_access h True i m))))" for t x
    by (rule settles_trans [OF settles_trans [OF settles_trans [OF tpr settles_upd_apic] settles_sync_vapic]
            settles_update_irq]) (simp add: apic_wf_def)
  note steps = this settles_eoi [OF assms] settles_trans [OF settles_upd_apic settles_update_irq]
    settles_trans [OF settles_upd_apic settles_timer_update]
  have pic: "settles m (case apic_check_pic i m1 of (pic, m2) \<Rightarrow> if pic then apic_update_irq i m2 else m2)"
    if "settles m m1" for m1
    using settles_trans [OF that settles_check_pic [of m1 i]] settles_trans [OF _ settles_update_irq]
    by (auto simp: case_prod_beta)
  have shift: "unat ((x + 1) AND 7 :: u32) < 8" for x
    using word_and_le1 [of "x + 1" 7] by (simp add: word_le_nat_alt)
  have "ucast (v AND 0x1ff) AND NOT (0x1ff :: u32) = 0"
    by (rule bit_word_eqI) (auto simp: bit_simps)
  then have svr: "ucast (v AND 0x1ff) AND (-512 :: u32) = 0" by simp
  show ?thesis
    unfolding apic_reg_write_def
    by (intro steps settle settles_upd_apic) (auto simp: apic_wf_def Let_def shift svr intro!: steps settle pic settles_upd_apic)
qed


lemma settles_mem_write: "hooks_settle h \<Longrightarrow> settles m (apic_mem_write h a v n m)"
  by (auto simp: apic_mem_write_def apic_send_msi_def Let_def intro: settle settles_reg_write split: option.split)

lemma settles_stl: "hooks_settle h \<Longrightarrow> settles m (stl_le_phys h a d m)"
proof -
  assume h: "hooks_settle h"
  have "settles m (m\<lparr>phys_mem := p\<rparr>)" for p
    by (rule settlesI) (simp_all add: apics_wf_def)
  with h show ?thesis by (simp add: stl_le_phys_def settles_mem_write)
qed

lemma settles_entry_parse [settle]: "settles m (snd (ioapic_entry_parse e m))"
  by (rule settlesI) (simp_all add: frame_simps apics_wf_entry_parse)

lemma settles_service_pin:
  assumes "\<And>a d m. settles m (bus a d m)"
  shows "settles m (ioapic_service_pin bus k i m)"
  using settles_trans [OF settles_entry_parse settles_upd_ioapic]
    settles_trans [OF settles_trans [OF settles_entry_parse settles_upd_ioapic] assms]
  by (auto simp: ioapic_service_pin_def Let_def case_prod_beta intro: settle)

lemma settles_service: "(\<And>a d m. settles m (bus a d m)) \<Longrightarrow> settles m (ioapic_service bus k m)"
  unfolding ioapic_service_def by (intro settles_fold settles_service_pin)

lemma settles_eoi_pin:
  assumes "\<And>a d m. settles m (bus a d m)"
  shows "settles m (ioapic_eoi_pin bus v i n m)"
  using settles_trans [OF settles_upd_ioapic settles_upd_ioapic]
    settles_trans [OF settles_trans [OF settles_upd_ioapic settles_upd_ioapic] settles_upd_ioapic]
    settles_trans [OF settles_trans [OF settles_upd_ioapic settles_upd_ioapic] settles_service [OF assms]]
  by (auto simp: ioapic_eoi_pin_def Let_def intro: settle)

lemma settles_eoi_broadcast:
  "(\<And>a d m. settles m (bus a d m)) \<Longrightarrow> settles m (ioapic_eoi_broadcast bus v m)"
  unfolding ioapic_eoi_broadcast_def by (intro settles_fold settles_if settles_eoi_pin settles_refl)

lemma pc_hooks_settle: "hooks_settle (pc_hooks n)"
  by (induction n) (auto simp: hooks_settle_def settles_refl intro: settles_eoi_broadcast settles_stl [unfolded hooks_settle_def])

section \<open>How deep the calls go\<close>

text \<open>Two buses that agree on a set of machines closed under what the I/O APIC does are interchangeable there.\<close>

lemma fold_agree:
  assumes "Q m" and "\<And>x m. Q m \<Longrightarrow> f x m = g x m" and "\<And>x m. Q m \<Longrightarrow> Q (f x m)"
  shows "fold f xs m = fold g xs m" and "Q (fold f xs m)"
  using assms by (induction xs arbitrary: m) auto

lemma eoi_broadcast_agree:
  assumes "Q m" and agree: "\<And>a d m. Q m \<Longrightarrow> bus a d m = bus' a d m"
    and closed: "\<And>m m'. Q m \<Longrightarrow> settles m m' \<Longrightarrow> Q m'"
    and bus_settles: "\<And>a d m. settles m (bus a d m)"
  shows "ioapic_eoi_broadcast bus v m = ioapic_eoi_broadcast bus' v m"
proof -
  have Qu: "Q m \<Longrightarrow> Q (upd_ioapic k f m)" for k f m using closed settles_upd_ioapic by blast
  have Qp: "Q m \<Longrightarrow> Q (snd (ioapic_entry_parse e m))" for e m using closed settles_entry_parse by blast
  have pin: "ioapic_service_pin bus k i m = ioapic_service_pin bus' k i m" if "Q m" for k i m
    using that by (simp add: ioapic_service_pin_def Let_def case_prod_beta agree Qu Qp)
  have service: "ioapic_service bus k m = ioapic_service bus' k m" if "Q m" for k m
    unfolding ioapic_service_def
    by (rule fold_agree(1) [of Q, OF that]) (erule pin, erule closed, rule settles_service_pin [OF bus_settles])
  have eoi: "ioapic_eoi_pin bus v i n m = ioapic_eoi_pin bus' v i n m" if "Q m" for i n m
    using that by (simp add: ioapic_eoi_pin_def Let_def service Qu)
  have pins: "fold (ioapic_eoi_pin bus v i) ns m = fold (ioapic_eoi_pin bus' v i) ns m" if "Q m" for i ns m
    by (rule fold_agree(1) [of Q, OF that]) (erule eoi, erule closed, rule settles_eoi_pin [OF bus_settles])
  have Qf: "Q (fold (ioapic_eoi_pin bus v i) ns m)" if "Q m" for i ns m
    by (rule closed [OF that settles_fold]) (rule settles_eoi_pin [OF bus_settles])
  show ?thesis
    unfolding ioapic_eoi_broadcast_def
    by (rule fold_agree(1) [of Q, OF assms(1)]) (simp only: pins, use Qf in simp)
qed


text \<open>
  The measure: the number of vectors in service at the running processor's APIC. Only an end
  of interrupt there reaches the broadcast, and it takes one vector out first.
\<close>

definition in_service_at_most :: "nat \<Rightarrow> machine \<Rightarrow> bool" where
  "in_service_at_most n m \<longleftrightarrow> apics_wf m \<and> (\<forall>c. current_cpu m = Some c \<longrightarrow> card (isr_set m c) \<le> n)"

lemma in_service_settles: "in_service_at_most n m \<Longrightarrow> settles m m' \<Longrightarrow> in_service_at_most n m'"
  by (auto simp: in_service_at_most_def settles_def intro: le_trans [OF card_mono [OF finite_vectors]])

lemma in_service_256: "apics_wf m \<Longrightarrow> in_service_at_most 256 m"
proof -
  assume "apics_wf m"
  moreover have "card (isr_set m c) \<le> 256" for c
    using card_mono [of "{..<256}" "isr_set m c"] by (auto dest: vectors_bound)
  ultimately show ?thesis by (simp add: in_service_at_most_def)
qed

lemma apic_eoi_agree:
  assumes "in_service_at_most n m" and "current_cpu m = Some c" and "local_apics m c \<noteq> None"
    and "\<And>k v m. n = Suc k \<Longrightarrow> in_service_at_most k m \<Longrightarrow> eoi_broadcast h v m = eoi_broadcast h' v m"
  shows "apic_eoi h c m = apic_eoi h' c m"
proof (cases "isr_set m c = {}")
  case False
  let ?v = "Max (isr_set m c)" and ?m1 = "upd_apic c (\<lambda>s. s\<lparr>isr := apic_reset_bit (isr s) (Max (isr_set m c))\<rparr>) m"
  have mem: "?v \<in> isr_set m c" using Max_in [OF finite_vectors False] .
  then have v: "?v < 256" by (rule vectors_bound)
  have wf: "apics_wf m" and le: "card (isr_set m c) \<le> n"
    using assms(1,2) by (auto simp: in_service_at_most_def)
  then obtain k where k: "n = Suc k" using mem by (cases n) auto
  have "isr_set ?m1 c = isr_set m c - {?v}"
    using wf assms(3) v by (auto simp: frame_simps apics_wf_def apic_wf_def vector_simps)
  then have "card (isr_set ?m1 c) \<le> k" using mem le k by simp
  moreover have "apics_wf ?m1" using wf settles_reset_isr [OF v] by (simp add: settles_def)
  ultimately have "in_service_at_most k ?m1"
    using assms(2) by (simp add: in_service_at_most_def frame_simps)
  then have "eoi_broadcast h ?v ?m1 = eoi_broadcast h' ?v ?m1" by (rule assms(4) [OF k])
  then show ?thesis unfolding apic_eoi_some [OF False] Let_def by (simp only:)
qed (simp add: apic_eoi_none)

lemma stl_agree:
  assumes "in_service_at_most n m" and "report_tpr_access h = report_tpr_access h'"
    and "\<And>k v m. n = Suc k \<Longrightarrow> in_service_at_most k m \<Longrightarrow> eoi_broadcast h v m = eoi_broadcast h' v m"
  shows "stl_le_phys h a d m = stl_le_phys h' a d m"
  using apic_eoi_agree [OF assms(1) _ _ assms(3)] assms(2)
  by (auto simp: stl_le_phys_def apic_mem_write_def apic_reg_write_def cpu_get_current_apic_def split: option.split)

lemma pc_hooks_tpr: "report_tpr_access (pc_hooks n) = (\<lambda>_ _ m. m)"
  by (cases n) simp_all

lemma pc_hooks_agree:
  "in_service_at_most n m \<Longrightarrow>
     eoi_broadcast (pc_hooks (Suc n)) v m = eoi_broadcast (pc_hooks (Suc (Suc n))) v m"
proof (induction n arbitrary: m v rule: less_induct)
  case (less n)
  have "stl_le_phys (pc_hooks n) a d m = stl_le_phys (pc_hooks (Suc n)) a d m" if "in_service_at_most n m" for a d m
    using that less.IH by (intro stl_agree) (auto simp: pc_hooks_tpr simp del: pc_hooks.simps)
  then have "ioapic_eoi_broadcast (stl_le_phys (pc_hooks n)) w m = ioapic_eoi_broadcast (stl_le_phys (pc_hooks (Suc n))) w m" for w
    by (rule eoi_broadcast_agree [of "in_service_at_most n", OF less.prems])
       (auto intro: in_service_settles settles_stl pc_hooks_settle)
  then show ?case by simp
qed


lemma pc_hooks_limit:
  assumes "apics_wf m"
  shows "eoi_broadcast (pc_hooks (257 + n)) v m = eoi_broadcast (pc_hooks 257) v m"
proof (induction n)
  case (Suc n)
  have "in_service_at_most (256 + n) m"
    using in_service_256 [OF assms] by (auto simp: in_service_at_most_def)
  from pc_hooks_agree [OF this] Suc show ?case by (simp del: pc_hooks.simps)
qed simp

text \<open>
  C30: following 257 nested end-of-interrupt broadcasts is enough. Whatever the I/O APICs are
  programmed with, a deeper chain of stores that turn into register writes cannot happen,
  because each level takes a vector out of service first.
\<close>

theorem pc_hooks_enough:
  assumes "apics_wf m" and "257 \<le> n"
  shows "eoi_broadcast (pc_hooks n) v m = eoi_broadcast pc_env v m"
  using pc_hooks_limit [OF assms(1), of "n - 257" v] pc_hooks_limit [OF assms(1), of 1 v] assms(2)
  by (simp add: pc_env_def del: pc_hooks.simps)

theorem pc_hooks_enough_witness:
  "eoi_broadcast (pc_hooks 300) 0x31 example_machine = eoi_broadcast pc_env 0x31 example_machine"
  by (rule pc_hooks_enough [OF example_apics_wf]) simp

end
