(* ===== verification/MSI_Route.thy ===== *)
theory MSI_Route
  imports PC_Wiring
begin

text \<open>
  The way of an interrupt from an I/O APIC pin to the local APICs: the entry is encoded as a
  store, the store is decoded as a bus message. The decoding is shown to invert the encoding,
  and the contracts of the bus are discharged on the board's own definitions.
\<close>

section \<open>The fields of an entry\<close>

lemmas word_bits = bit_or_iff bit_and_iff bit_push_bit_iff bit_drop_bit_eq bit_mask_iff bit_unsigned_iff bit_1_iff
  possible_bit_word comp_def

definition entry_offset :: "u64 \<Rightarrow> u64" where
  "entry_offset e = push_bit 4 (drop_bit 48 e AND mask 16) OR push_bit 2 (drop_bit 11 e AND 1)"

lemma bit_entry_offset:
  "bit (entry_offset e) n \<longleftrightarrow> (4 \<le> n \<and> n < 20 \<and> bit e (n + 44)) \<or> (n = 2 \<and> bit e 11)"
  unfolding entry_offset_def word_bits by (auto simp: add.commute)

lemma masks_as_mask:
  "(0xffff :: u64) = mask 16" "(0xff :: u64) = mask 8" "(7 :: u64) = mask 3"
  "(0xff :: u32) = mask 8" "(7 :: u32) = mask 3"
  "(0xff000 :: u64) = push_bit 12 (mask 8)"
  by (simp_all add: mask_eq_exp_minus_1 push_bit_eq_mult)

lemma msi_addr_eq: "ucast (msi_addr (fst (ioapic_entry_parse e m))) = (0xfee00000 OR entry_offset e :: u64)"
proof -
  have "ucast (msi_addr (fst (ioapic_entry_parse e m))) = (ucast (0xfee00000 :: u32) OR entry_offset e :: u64)"
    unfolding ioapic_entry_parse_def Let_def masks_as_mask case_prod_beta fst_conv ioapic_entry_info.simps
    by (rule bit_word_eqI) (simp only: word_bits bit_entry_offset, auto simp: add.commute)
  then show ?thesis by simp
qed

lemma entry_offset_less: "entry_offset e < 0x100000"
proof -
  have "take_bit 20 (entry_offset e) = entry_offset e"
    by (rule bit_word_eqI) (auto simp: bit_take_bit_iff bit_entry_offset)
  then have "unat (entry_offset e) = take_bit 20 (unat (entry_offset e))" by (metis unsigned_take_bit_eq)
  also have "\<dots> < 2 ^ 20" by (rule take_bit_nat_less_exp)
  finally show ?thesis by (simp add: word_less_nat_alt)
qed

lemma window_add: "0xfee00000 OR entry_offset e = 0xfee00000 + entry_offset e"
proof (rule disjunctive_add [symmetric])
  fix n
  have "bit (0xfee00000 :: u64) n \<longleftrightarrow> n \<in> set [21, 22, 23, 25, 26, 27, 28, 29, 30, 31]"
    by (rule bit_iff_listed) code_simp
  then show "\<not> bit (0xfee00000 :: u64) n \<or> \<not> bit (entry_offset e) n" by (auto simp: bit_entry_offset)
qed

lemma stl_window:
  "stl_le_phys h (0xfee00000 OR entry_offset e) d m = apic_mem_write h (entry_offset e) (ucast d) 4 m"
proof -
  have "unat (entry_offset e) < 0x100000" using entry_offset_less [of e] by (simp add: word_less_nat_alt)
  then have "(0xfee00000 :: u64) \<le> 0xfee00000 + entry_offset e \<and> 0xfee00000 + entry_offset e < 0xfef00000"
    by (simp add: word_le_nat_alt word_less_nat_alt unat_plus_if')
  then show ?thesis by (simp add: stl_le_phys_def window_add)
qed

text \<open>An entry whose reserved bits 48 to 55 are clear.\<close>

definition plain_entry :: "u64 \<Rightarrow> bool" where
  "plain_entry e \<longleftrightarrow> drop_bit 48 e AND mask 8 = 0"

lemma plain_entry_bits: "plain_entry e \<longleftrightarrow> (\<forall>n. 48 \<le> n \<and> n < 56 \<longrightarrow> \<not> bit e n)"
proof
  assume p: "plain_entry e"
  show "\<forall>n. 48 \<le> n \<and> n < 56 \<longrightarrow> \<not> bit e n"
  proof (intro allI impI)
    fix n :: nat assume n: "48 \<le> n \<and> n < 56"
    then have "bit (drop_bit 48 e AND mask 8) (n - 48) = bit e n" unfolding word_bits by auto
    with p show "\<not> bit e n" by (simp add: plain_entry_def)
  qed
next
  assume "\<forall>n. 48 \<le> n \<and> n < 56 \<longrightarrow> \<not> bit e n"
  then show "plain_entry e"
    unfolding plain_entry_def by (intro bit_word_eqI) (simp only: word_bits, auto)
qed

lemma plain_entry_index:
  assumes "plain_entry e"
  shows "apic_reg_index (entry_offset e) = 0"
proof -
  have "drop_bit 4 (entry_offset e) AND mask 8 = 0"
    using assms unfolding plain_entry_bits
    by (intro bit_word_eqI) (simp only: word_bits bit_entry_offset, auto)
  then show ?thesis by (simp only: apic_reg_index_def masks_as_mask) simp
qed

text \<open>What the decoder reads back out of the address and the data of a message.\<close>

lemma decode_offset:
  "ucast (drop_bit 12 (entry_offset e AND 0xff000)) = (ucast (drop_bit 56 e) :: u8)"
  "(ucast (drop_bit 2 (entry_offset e) AND 1) :: u8) = ucast (drop_bit 11 e AND 1)"
  unfolding masks_as_mask
  by (rule bit_word_eqI, simp only: word_bits bit_entry_offset, auto simp: add.commute)+

lemma msi_data_bits:
  assumes "\<not> extint e"
  shows "bit (msi_data (fst (ioapic_entry_parse e m))) n \<longleftrightarrow> bit e n \<and> (n < 11 \<or> n = 15)"
  using assms
  unfolding ioapic_entry_parse_def Let_def case_prod_beta delivery_mode_extint fst_conv ioapic_entry_info.simps
  by (simp only: if_False fst_conv masks_as_mask word_bits) (auto dest: bit_imp_le_length)

lemma decode_data:
  assumes "\<not> extint e"
  shows "(ucast (msi_data (fst (ioapic_entry_parse e m)) AND 0xff) :: u8) = ucast e"
    and "(ucast (drop_bit 15 (msi_data (fst (ioapic_entry_parse e m))) AND 1) :: u8) = ucast (drop_bit 15 e AND 1)"
    and "(ucast (drop_bit 8 (msi_data (fst (ioapic_entry_parse e m))) AND 7) :: u8) = ucast (drop_bit 8 e AND 7)"
  unfolding masks_as_mask
  by (rule bit_word_eqI, simp only: word_bits msi_data_bits [OF assms], auto simp: add.commute)+

section \<open>Messages do not depend on the I/O APICs\<close>

text \<open>\<open>with_io x\<close> exchanges the I/O APICs of a machine; bus delivery commutes with it.\<close>

definition with_io :: "(nat \<Rightarrow> IOAPICCommonState option) \<Rightarrow> machine \<Rightarrow> machine" where
  "with_io x m = m\<lparr>ioapics := x\<rparr>"

lemma with_io_simps [simp]:
  "local_apics (with_io x m) = local_apics m" "cpus (with_io x m) = cpus m"
  "current_cpu (with_io x m) = current_cpu m" "isa_pic (with_io x m) = isa_pic m"
  "phys_mem (with_io x m) = phys_mem m" "ioapics (with_io x m) = x"
  "qemu_cpu_is_self (with_io x m) i = qemu_cpu_is_self m i"
  "apic_accept_pic_intr i (with_io x m) = apic_accept_pic_intr i m"
  "isa_pic_output (with_io x m) = isa_pic_output m"
  by (simp_all add: with_io_def qemu_cpu_is_self_def apic_accept_pic_intr_def isa_pic_output_def
      Let_def split: option.split)

lemma with_io_commute:
  "upd_apic i f (with_io x m) = with_io x (upd_apic i f m)"
  "cpu_interrupt i w (with_io x m) = with_io x (cpu_interrupt i w m)"
  "cpu_reset_interrupt i w (with_io x m) = with_io x (cpu_reset_interrupt i w m)"
  "apic_report_irq_delivered b (with_io x m) = with_io x (apic_report_irq_delivered b m)"
  by (simp_all add: with_io_def upd_apic_def tcg_handle_interrupt_def cpu_reset_interrupt_def upd_cpu_def
      apic_report_irq_delivered_def qemu_cpu_is_self_def)

lemma with_io_update_irq: "apic_update_irq i (with_io x m) = with_io x (apic_update_irq i m)"
  by (simp add: apic_update_irq_def with_io_commute)

lemma with_io_sync_vapic: "apic_sync_vapic i t (with_io x m) = with_io x (apic_sync_vapic i t m)"
  by (simp add: apic_sync_vapic_def Let_def with_io_commute) (simp add: with_io_def)

lemma with_io_set_irq: "apic_set_irq i v t (with_io x m) = with_io x (apic_set_irq i v t m)"
  by (simp add: apic_set_irq_def Let_def with_io_commute with_io_update_irq with_io_sync_vapic)

lemma with_io_foreach:
  assumes "\<And>k m. code k (with_io x m) = with_io x (code k m)"
  shows "foreach_apic bm code (with_io x m) = with_io x (foreach_apic bm code m)"
proof -
  have "fold (visit bm code) ks (with_io x m) = with_io x (fold (visit bm code) ks m)" for ks
    by (induction ks arbitrary: m) (auto simp: visit_def assms)
  then show ?thesis by (simp only: foreach_apic_eq)
qed

lemma find_dest_with_io: "find_dest_from (with_io x m) d ks = find_dest_from m d ks"
  by (induction ks) (auto split: option.split)

lemma logical_with_io: "logical_bitmask_from (with_io x m) d ks bm = logical_bitmask_from m d ks bm"
  by (induction ks arbitrary: bm) (auto split: option.split)

lemma bitmask_with_io: "apic_get_delivery_bitmask (with_io x m) d md = apic_get_delivery_bitmask m d md"
  by (simp only: apic_get_delivery_bitmask_def apic_find_dest_def find_dest_with_io logical_with_io with_io_simps)

lemma with_io_deliver_irq:
  "apic_deliver_irq d md dm v t (with_io x m) = with_io x (apic_deliver_irq d md dm v t m)"
  unfolding apic_deliver_irq_def bitmask_with_io
  by (simp only: apic_bus_deliver_def Let_def with_io_simps with_io_set_irq with_io_commute
      with_io_foreach [of "\<lambda>k. cpu_interrupt k w" x for w, OF with_io_commute(2)]
      with_io_foreach [of "\<lambda>k. apic_set_irq k v t" x for v t, OF with_io_set_irq] if_distrib [of "with_io x"])

lemma foreach_ioapics:
  "ioapics (foreach_apic bm (\<lambda>k. apic_set_irq k v t) m) = ioapics m"
  "ioapics (foreach_apic bm (\<lambda>k. cpu_interrupt k w) m) = ioapics m"
  unfolding foreach_apic_eq by (rule fold_frame, simp add: visit_def frame_simps)+

lemma deliver_irq_ioapics [frame_simps]: "ioapics (apic_deliver_irq d md dm v t m) = ioapics m"
  by (simp add: apic_deliver_irq_def apic_bus_deliver_def Let_def foreach_ioapics frame_simps)

section \<open>The contracts of the board\<close>

definition msi_address :: "u64 \<Rightarrow> bool" where
  "msi_address a \<longleftrightarrow> (\<exists>e. plain_entry e \<and> a = 0xfee00000 OR entry_offset e)"

lemma stl_msi:
  assumes "plain_entry e"
  shows "stl_le_phys h (0xfee00000 OR entry_offset e) d m = apic_send_msi (entry_offset e) d m"
  by (simp add: stl_window apic_mem_write_def plain_entry_index [OF assms])

interpretation pc_bus: message_bus "stl_le_phys h" msi_address for h
proof
  fix a d m k f
  assume "msi_address a"
  then obtain e where e: "plain_entry e" "a = 0xfee00000 OR entry_offset e" by (auto simp: msi_address_def)
  show "ioapics (stl_le_phys h a d m) = ioapics m"
    unfolding e stl_msi [OF e(1)] by (simp add: apic_send_msi_def Let_def frame_simps)
  have up: "upd_ioapic k f m' = with_io ((ioapics m')(k := map_option f (ioapics m' k))) m'" for m'
    by (simp add: upd_ioapic_def with_io_def)
  show "stl_le_phys h a d (upd_ioapic k f m) = upd_ioapic k f (stl_le_phys h a d m)"
    unfolding e stl_msi [OF e(1)] up
    by (simp only: apic_send_msi_def Let_def with_io_deliver_irq deliver_irq_ioapics)
qed


text \<open>Every redirection entry of the machine has its reserved bits clear.\<close>

definition plain_table :: "IOAPICCommonState \<Rightarrow> bool" where
  "plain_table s \<longleftrightarrow> length (ioredtbl s) = IOAPIC_NUM_PINS \<and> (\<forall>e\<in>set (ioredtbl s). plain_entry e)"

definition sane :: "machine \<Rightarrow> bool" where
  "sane m \<longleftrightarrow> (\<forall>k s. ioapics m k = Some s \<longrightarrow> plain_table s)"

text \<open>What holds of a machine on the way through the I/O APIC \<open>k\<close>, started from \<open>m0\<close>.\<close>

definition on_route :: "machine \<Rightarrow> nat \<Rightarrow> machine \<Rightarrow> bool" where
  "on_route m0 k m \<longleftrightarrow> sane m \<and> ioapics m k \<noteq> None \<and> settles m0 m
     \<and> (\<forall>i. isr (apic_at m i) = isr (apic_at m0 i)) \<and> (\<forall>i. local_apics m i = None \<longleftrightarrow> local_apics m0 i = None)"

lemma plain_entry_bit14:
  "plain_entry e \<Longrightarrow> plain_entry (e OR push_bit 14 1)"
  "plain_entry e \<Longrightarrow> plain_entry (e AND NOT (push_bit 14 1))"
  by (simp_all only: plain_entry_bits word_bits) auto

lemma plain_table_upd:
  assumes "plain_table s" and "plain_entry (ioredtbl s ! i) \<Longrightarrow> plain_entry e"
  shows "plain_table (s\<lparr>ioredtbl := (ioredtbl s)[i := e]\<rparr>)"
proof (cases "i < length (ioredtbl s)")
  case True
  with assms have "plain_entry e" by (auto simp: plain_table_def)
  with assms(1) show ?thesis by (auto simp: plain_table_def dest!: set_update_subset_insert [THEN subsetD])
qed (use assms(1) in \<open>simp add: plain_table_def list_update_beyond\<close>)

lemma on_route_upd:
  assumes "on_route m0 k m" and "\<And>s. plain_table s \<Longrightarrow> plain_table (f s)"
  shows "on_route m0 k (upd_ioapic k f m)"
  using assms settles_trans [OF _ settles_upd_ioapic]
  by (auto simp: on_route_def sane_def frame_simps)

lemma on_route_parse: "on_route m0 k m \<Longrightarrow> on_route m0 k (snd (ioapic_entry_parse e m))"
  using settles_trans [OF _ settles_entry_parse] by (auto simp: on_route_def sane_def frame_simps)

lemma apic_deliver_irq_isr:
  "isr (apic_at (apic_deliver_irq d md dm v t m) i) = isr (apic_at m i)"
  "local_apics (apic_deliver_irq d md dm v t m) i = None \<longleftrightarrow> local_apics m i = None"
proof -
  have set: "isr (apic_at (foreach_apic bm (\<lambda>k. apic_set_irq k v' t') m) i) = isr (apic_at m i)"
      "(local_apics (foreach_apic bm (\<lambda>k. apic_set_irq k v' t') m) i = None) = (local_apics m i = None)" for bm v' t'
    unfolding foreach_apic_eq by (rule fold_frame, simp add: visit_def)+
  show "isr (apic_at (apic_deliver_irq d md dm v t m) i) = isr (apic_at m i)"
    and "local_apics (apic_deliver_irq d md dm v t m) i = None \<longleftrightarrow> local_apics m i = None"
    by (simp_all add: apic_deliver_irq_def apic_bus_deliver_def Let_def set foreach_cpu_interrupt frame_simps)
qed

lemma on_route_stl:
  assumes "on_route m0 k m" and "plain_entry e"
  shows "on_route m0 k (stl_le_phys h (0xfee00000 OR entry_offset e) d m)"
  using assms(1) settles_trans [OF _ settles_deliver_irq]
  by (auto simp: stl_msi [OF assms(2)] apic_send_msi_def Let_def on_route_def sane_def frame_simps apic_deliver_irq_isr)

lemma on_route_service_pin:
  assumes r: "on_route m0 k m" and i: "i < IOAPIC_NUM_PINS"
  shows "on_route m0 k (ioapic_service_pin (stl_le_phys h) k i m)"
proof -
  have plain: "plain_entry (ioredtbl (ioapic_at m k) ! i)"
    using r i by (auto simp: on_route_def sane_def plain_table_def)
  note p = on_route_parse [OF r, of "ioredtbl (ioapic_at m k) ! i"]
  have u: "on_route m0 k (upd_ioapic k (\<lambda>s. s\<lparr>io_irr := io_irr s AND NOT (push_bit i 1)\<rparr>) (snd (ioapic_entry_parse (ioredtbl (ioapic_at m k) ! i) m)))"
      "on_route m0 k (upd_ioapic k (\<lambda>s. s\<lparr>ioredtbl := (ioredtbl s)[i := ioredtbl s ! i OR push_bit 14 1]\<rparr>) (snd (ioapic_entry_parse (ioredtbl (ioapic_at m k) ! i) m)))"
    by (rule on_route_upd [OF p], simp add: plain_table_def)
       (rule on_route_upd [OF p], erule plain_table_upd, erule plain_entry_bit14)
  show ?thesis
    unfolding ioapic_service_pin_def Let_def case_prod_beta msi_addr_eq
    using r p u on_route_stl [OF _ plain] by (simp split: if_split)
qed

lemma fold_inv: "P m \<Longrightarrow> (\<And>x m. x \<in> set xs \<Longrightarrow> P m \<Longrightarrow> P (f x m)) \<Longrightarrow> P (fold f xs m)"
  by (induction xs arbitrary: m) auto

lemma on_route_service: "on_route m0 k m \<Longrightarrow> on_route m0 k (ioapic_service (stl_le_phys h) k m)"
  unfolding ioapic_service_def by (erule fold_inv) (simp only: set_upt atLeastLessThan_iff on_route_service_pin)


lemma on_route_eoi_pin:
  assumes r: "on_route m0 i m" and n: "n < IOAPIC_NUM_PINS"
  shows "on_route m0 i (ioapic_eoi_pin (stl_le_phys h) v i n m)"
proof -
  let ?f = "\<lambda>s. s\<lparr>ioredtbl := (ioredtbl s)[n := ioredtbl (ioapic_at m i) ! n AND NOT (push_bit 14 1)]\<rparr>"
  have plain: "plain_entry (ioredtbl (ioapic_at m i) ! n)"
    using r n by (auto simp: on_route_def sane_def plain_table_def)
  have 1: "on_route m0 i (upd_ioapic i ?f m)"
    by (rule on_route_upd [OF r]) (erule plain_table_upd, rule plain_entry_bit14 [OF plain])
  have 2: "on_route m0 i (upd_ioapic i (\<lambda>s. s\<lparr>irq_eoi := g s\<rparr>) m')" if "on_route m0 i m'" for g m'
    by (rule on_route_upd [OF that]) (simp add: plain_table_def)
  have 3: "on_route m0 i (upd_ioapic i (\<lambda>s. s\<lparr>irq_eoi := g s, delayed_timer := t s\<rparr>) m')" if "on_route m0 i m'" for g t m'
    by (rule on_route_upd [OF that]) (simp add: plain_table_def)
  show ?thesis
    unfolding ioapic_eoi_pin_def Let_def
    using r 1 2 [OF 1] 3 [OF 2 [OF 1]] on_route_service [OF 2 [OF 1]] by (simp split: if_split)
qed

lemma eoi_broadcast_route:
  assumes "sane m"
  shows "sane (ioapic_eoi_broadcast (stl_le_phys h) v m)
    \<and> (\<forall>i. isr (apic_at (ioapic_eoi_broadcast (stl_le_phys h) v m) i) = isr (apic_at m i))
    \<and> (\<forall>i. local_apics (ioapic_eoi_broadcast (stl_le_phys h) v m) i = None \<longleftrightarrow> local_apics m i = None)
    \<and> settles m (ioapic_eoi_broadcast (stl_le_phys h) v m)" (is "?P (ioapic_eoi_broadcast (stl_le_phys h) v m)")
  unfolding ioapic_eoi_broadcast_def
proof (rule fold_inv [where P="?P"])
  show "?P m" using assms by (simp add: settles_refl)
  fix k m' assume P: "?P m'"
  show "?P (if ioapics m' k = None then m' else fold (ioapic_eoi_pin (stl_le_phys h) v k) [0..<IOAPIC_NUM_PINS] m')"
  proof (cases "ioapics m' k = None")
    case False
    with P have "on_route m k m'" by (simp add: on_route_def)
    then have "on_route m k (fold (ioapic_eoi_pin (stl_le_phys h) v k) [0..<IOAPIC_NUM_PINS] m')"
      by (rule fold_inv) (simp only: set_upt atLeastLessThan_iff on_route_eoi_pin)
    with False show ?thesis by (simp add: on_route_def del: not_None_eq)
  qed (use P in simp)
qed

text \<open>The board keeps the promise the local APICs' end-of-interrupt code relies on.\<close>

interpretation pc: apic_environment pc_env sane
proof
  fix m m' :: machine and v i
  have h: "eoi_broadcast pc_env v = ioapic_eoi_broadcast (stl_le_phys (pc_hooks 257)) (of_nat v)"
  proof -
    have "(258 :: nat) = Suc 257" by simp
    then show ?thesis unfolding pc_env_def by (simp only: pc_hooks.simps apic_hooks.simps)
  qed
  show "ioapics m = ioapics m' \<Longrightarrow> sane m \<longleftrightarrow> sane m'" by (simp add: sane_def)
  assume s: "sane m"
  note r = eoi_broadcast_route [OF s, of "pc_hooks 257" "of_nat v"]
  show "apics_wf m \<Longrightarrow> apics_wf (eoi_broadcast pc_env v m)" unfolding h using r by (simp add: settles_def)
  show "isr (apic_at (eoi_broadcast pc_env v m) i) = isr (apic_at m i)" unfolding h using r by blast
  show "local_apics (eoi_broadcast pc_env v m) i = None \<longleftrightarrow> local_apics m i = None" unfolding h using r by blast
qed


section \<open>One pending pin\<close>

lemma stl_entry:
  assumes "plain_entry e" and "\<not> extint e"
  shows "stl_le_phys h (entry_addr e) (entry_data e) m =
    apic_deliver_irq (ucast (drop_bit 56 e)) (ucast (drop_bit 11 e AND 1)) (ucast (drop_bit 8 e AND 7))
      (ucast e) (ucast (drop_bit 15 e AND 1)) m"
  unfolding entry_addr_def entry_data_def msi_addr_eq stl_msi [OF assms(1)]
  by (simp only: apic_send_msi_def Let_def decode_offset decode_data [OF assms(2)])

lemma fold_pin_serviced_one:
  assumes "io_irr s = push_bit i 1" and "distinct pins" and "i \<in> set pins"
  shows "fold pin_serviced pins s = pin_serviced i s"
  using assms
proof (induction pins arbitrary: s)
  case (Cons j pins)
  have other: "fold pin_serviced pins t = t" if "\<And>k. k \<in> set pins \<Longrightarrow> \<not> bit (io_irr t) k" for t
    using that by (induction pins arbitrary: t) (auto simp: pin_serviced_def pin_active_def)
  show ?case
  proof (cases "j = i")
    case True
    have "\<not> bit (io_irr (pin_serviced i s)) k" if "k \<in> set pins" for k
      using Cons.prems that True by (auto simp: pin_serviced_def mask_simps)
    with other True show ?thesis by simp
  next
    case False
    then have "pin_serviced j s = s" using Cons.prems(1) by (auto simp: pin_serviced_def pin_active_def mask_simps)
    with Cons False show ?thesis by simp
  qed
qed simp

lemma filter_eq_single: "distinct xs \<Longrightarrow> i \<in> set xs \<Longrightarrow> filter (\<lambda>j. j = i) xs = [i]"
  by (induction xs) (auto simp: filter_empty_conv)

lemma ioapic_service_one:
  assumes "ioapics m k = Some s" and "plain_table s" and "io_irr s = push_bit i 1" and "i < IOAPIC_NUM_PINS"
    and "\<not> extint (ioredtbl s ! i)" and "pin_sends s i"
  shows "ioapic_service (stl_le_phys h) k m =
    stl_le_phys h (entry_addr (ioredtbl s ! i)) (entry_data (ioredtbl s ! i)) (upd_ioapic k (pin_serviced i) m)"
proof -
  have irr: "bit (io_irr s) j \<longleftrightarrow> j = i" for j
    using assms(3,4) by (auto simp: mask_simps)
  have "filter (pin_sends s) [0..<IOAPIC_NUM_PINS] = filter (\<lambda>j. j = i) [0..<IOAPIC_NUM_PINS]"
    using assms(6) by (intro filter_cong refl) (auto simp: pin_sends_def pin_active_def irr)
  also have "\<dots> = [i]"
    using assms(4) by (intro filter_eq_single distinct_upt) (simp only: set_upt atLeastLessThan_iff, simp)
  finally have f: "filter (pin_sends s) [0..<IOAPIC_NUM_PINS] = [i]" .
  have "plain_entry (ioredtbl s ! i)" using assms(2,4) by (simp add: plain_table_def)
  then have ok: "msi_address (entry_addr (ioredtbl s ! i))"
    unfolding msi_address_def entry_addr_def msi_addr_eq by blast
  have fin: "fold pin_serviced [0..<IOAPIC_NUM_PINS] s = pin_serviced i s"
    using assms(4) by (intro fold_pin_serviced_one [OF assms(3) distinct_upt]) (simp only: set_upt atLeastLessThan_iff, simp)
  have "ioapic_service (stl_le_phys h) k m =
      fold (\<lambda>j. stl_le_phys h (entry_addr (ioredtbl s ! j)) (entry_data (ioredtbl s ! j)))
        (filter (pin_sends s) [0..<IOAPIC_NUM_PINS]) (upd_ioapic k (fold pin_serviced [0..<IOAPIC_NUM_PINS]) m)"
    unfolding ioapic_service_def
    by (rule pc_bus.service_pins [OF assms(1) distinct_upt])
       (use assms(5) ok in \<open>simp_all only: irr pin_sends_def pin_active_def, blast+\<close>)
  also have "upd_ioapic k (fold pin_serviced [0..<IOAPIC_NUM_PINS]) m = upd_ioapic k (pin_serviced i) m"
    by (simp only: upd_ioapic_def assms(1) option.map fin)
  finally show ?thesis by (simp only: f) simp
qed

section \<open>Properties\<close>

text \<open>
  C31: the local APICs decode what the I/O APIC encodes. The store made for a redirection
  entry that is not ExtINT and has its reserved bits clear is the bus message with the
  entry's destination, destination mode, delivery mode, vector and trigger mode.
\<close>

theorem ioapic_message_roundtrip:
  assumes "plain_entry e" and "\<not> extint e"
  shows "stl_le_phys h (entry_addr e) (entry_data e) m =
    apic_deliver_irq (ucast (drop_bit 56 e)) (ucast (drop_bit 11 e AND 1)) (ucast (drop_bit 8 e AND 7))
      (ucast e) (ucast (drop_bit 15 e AND 1)) m"
  by (rule stl_entry [OF assms])

theorem ioapic_message_roundtrip_witness:
  "stl_le_phys pc_env (entry_addr 0x0100000000008931) (entry_data 0x0100000000008931) example_machine =
    apic_deliver_irq 1 1 1 0x31 1 example_machine"
proof -
  have "plain_entry 0x0100000000008931" "\<not> extint 0x0100000000008931"
    by (simp_all add: plain_entry_def extint_def mask_eq_exp_minus_1)
  moreover have "(ucast (0x0100000000008931 :: u64) :: u8) = 0x31" by code_simp
  ultimately show ?thesis
    using ioapic_message_roundtrip [of "0x0100000000008931" pc_env example_machine] by (simp only:) simp
qed







section \<open>From a pin to the processors\<close>

lemma apics_populated_cong: "local_apics m = local_apics m' \<Longrightarrow> apics_populated m n = apics_populated m' n"
  by (simp only: apics_populated_def)

lemma fixed_not_extint: "drop_bit 8 e AND 7 = 0 \<Longrightarrow> \<not> extint (e :: u64)"
  by (auto simp flip: delivery_mode_extint)

text \<open>
  C27: raising an idle I/O APIC's input whose entry is level triggered, unmasked, in fixed
  mode and not waiting for an end of interrupt requests the entry's vector, as level
  triggered, at exactly the local APICs the entry addresses, and marks the entry as waiting.
\<close>

theorem ioapic_level_assert:
  assumes "ioapics m k = Some s" and "plain_table s" and "io_irr s = 0" and "0 < i" and "i < IOAPIC_NUM_PINS"
    and e: "e = ioredtbl s ! i" and "bit e 15" and "\<not> bit e 14" and "\<not> bit e 16" and "drop_bit 8 e AND 7 = 0"
    and "apics_wf m" and "apics_populated m n"
    and m': "m' = ioapic_set_irq (stl_le_phys h) k i 1 m"
  shows "(\<forall>j. irr_set m' j = (if j < n \<and> addressed (ucast (drop_bit 56 e)) (ucast (drop_bit 11 e AND 1)) (apic_at m j)
               then insert (unat (ucast e :: u8)) (irr_set m j) else irr_set m j))
    \<and> (\<forall>j<n. addressed (ucast (drop_bit 56 e)) (ucast (drop_bit 11 e AND 1)) (apic_at m j) \<longrightarrow>
          unat (ucast e :: u8) \<in> tmr_set m' j)
    \<and> bit (ioredtbl (ioapic_at m' k) ! i) 14"
proof -
  let ?s1 = "ioapic_stat_update_irq s i 1"
  let ?s2 = "?s1\<lparr>io_irr := push_bit i 1\<rparr>"
  let ?m2 = "upd_ioapic k (\<lambda>s. s\<lparr>io_irr := io_irr s OR push_bit i 1\<rparr>) (upd_ioapic k (\<lambda>s. ioapic_stat_update_irq s i 1) m)"
  let ?m3 = "upd_ioapic k (pin_serviced i) ?m2"
  have tbl: "ioredtbl ?s1 = ioredtbl s" "io_irr ?s1 = io_irr s" by (simp_all add: ioapic_stat_update_irq_def)
  have s2: "ioapics ?m2 k = Some ?s2" using assms(1,3) by (simp add: frame_simps tbl)
  have x: "\<not> extint e" by (rule fixed_not_extint [OF assms(10)])
  have plain: "plain_entry e" using assms(2,5) by (simp add: e plain_table_def)
  have sends: "pin_sends ?s2 i" using assms(5,8,9) e by (simp add: pin_sends_def pin_active_def tbl mask_simps)
  have "m' = ioapic_service (stl_le_phys h) k ?m2"
    using assms(1,4,5,7,8) e by (simp add: m' ioapic_set_irq_def Let_def frame_simps tbl)
  also have "\<dots> = stl_le_phys h (entry_addr e) (entry_data e) ?m3"
    using ioapic_service_one [OF s2, of i h] assms(2,5) x sends e by (simp add: plain_table_def tbl)
  finally have eq: "m' = apic_deliver_irq (ucast (drop_bit 56 e)) (ucast (drop_bit 11 e AND 1)) APIC_DM_FIXED
      (ucast e) (ucast (drop_bit 15 e AND 1)) ?m3"
    unfolding stl_entry [OF plain x] assms(10) by simp
  have la: "local_apics ?m3 = local_apics m" by (simp add: frame_simps)
  have wf: "apics_wf ?m3" using assms(11) by simp
  have pop: "apics_populated ?m3 n" using assms(12) apics_populated_cong [OF la] by blast
  have lvl: "(ucast (drop_bit 15 e AND 1) :: u8) \<noteq> 0" using assms(7) bit_field_eq_0 [of 15 e] by blast
  have irr: "bit (ioredtbl (ioapic_at ?m3 k) ! i) 14"
  proof -
    have "ioapics ?m3 k = Some (pin_serviced i ?s2)"
      by (simp only: upd_ioapic_simps(1) [of k "pin_serviced i"] s2 fun_upd_same option.map)
    then show ?thesis
      using sends assms(2,5,7) e
      by (simp add: pin_serviced_def pin_sends_def tbl plain_table_def bit_or_iff mask_simps)
  qed
  have io: "ioapics m' = ioapics ?m3" unfolding eq by (simp add: deliver_irq_ioapics)
  show ?thesis
    using deliver_fixed [OF wf pop refl eq, unfolded la] lvl irr by (simp add: io)
qed


theorem ioapic_level_assert_witness:
  "irr_set (ioapic_set_irq (stl_le_phys pc_env) 0 5 1
     (example_machine\<lparr>ioapics := [0 \<mapsto> example_ioapic\<lparr>ioredtbl := replicate 24 0x0100000000008031\<rparr>]\<rparr>)) 1 = {0x31}"
proof -
  let ?e = "0x0100000000008031 :: u64"
  let ?s = "example_ioapic\<lparr>ioredtbl := replicate 24 ?e\<rparr>"
  let ?m = "example_machine\<lparr>ioapics := [0 \<mapsto> ?s]\<rparr>"
  have la: "local_apics ?m = local_apics example_machine" by simp
  have wf: "apics_wf ?m" using apics_wf_cong [OF la] example_apics_wf by blast
  have pop: "apics_populated ?m 2" using apics_populated_cong [OF la] example_populated by blast
  have v: "unat (ucast ?e :: u8) = 0x31" by code_simp
  have "plain_entry ?e" by (simp add: plain_entry_def mask_eq_exp_minus_1)
  then have tbl: "plain_table ?s" "io_irr ?s = 0" "ioredtbl ?s ! 5 = ?e"
    by (simp_all add: plain_table_def example_ioapic_def ioapic_reset_common_def)
  have e: "bit ?e 15" "\<not> bit ?e 14" "\<not> bit ?e 16" "drop_bit 8 ?e AND 7 = 0" by simp_all
  have hit: "addressed (ucast (drop_bit 56 ?e)) (ucast (drop_bit 11 ?e AND 1)) (apic_at ?m 1)"
    by (simp add: addressed_def la example_apic_def)
  have "irr_set ?m 1 = {}" unfolding la by (rule example_irr)
  then show ?thesis
    using ioapic_level_assert [of ?m 0 ?s 5 ?e, OF _ tbl(1,2) _ _ tbl(3) [symmetric] e wf pop refl, of pc_env] hit v
    by simp
qed

end
