(* ===== verification/MMU.thy ===== *)
theory MMU
  imports Machine
begin

text \<open>
  Address translation: \<^verbatim>\<open>get_pg_mode\<close> (\<^verbatim>\<open>target/i386/tcg/seg_helper.c\<close>) and
  \<^verbatim>\<open>mmu_translate\<close>, \<^verbatim>\<open>get_hphys\<close>, \<^verbatim>\<open>get_hphys2\<close> and \<^verbatim>\<open>handle_mmu_fault\<close>
  (\<^verbatim>\<open>target/i386/tcg/sysemu/excp_helper.c\<close>). Page tables are read from and written to
  guest-physical memory. The three kinds of page table the function walks are one definition
  each, in the order of the source; its \<^verbatim>\<open>goto do_fault...\<close> jumps are the \<^const>\<open>Raise\<close>
  outcomes, whose code is the part of the error code the jump itself sets.
\<close>

section \<open>Constants\<close>

abbreviation (input) MMU_DATA_LOAD :: nat where "MMU_DATA_LOAD \<equiv> 0"
abbreviation (input) MMU_DATA_STORE :: nat where "MMU_DATA_STORE \<equiv> 1"
abbreviation (input) MMU_INST_FETCH :: nat where "MMU_INST_FETCH \<equiv> 2"

abbreviation (input) MMU_KSMAP_IDX :: nat where "MMU_KSMAP_IDX \<equiv> 0"
abbreviation (input) MMU_USER_IDX :: nat where "MMU_USER_IDX \<equiv> 1"
abbreviation (input) MMU_KNOSMAP_IDX :: nat where "MMU_KNOSMAP_IDX \<equiv> 2"

abbreviation (input) PAGE_READ :: u32 where "PAGE_READ \<equiv> 1"
abbreviation (input) PAGE_WRITE :: u32 where "PAGE_WRITE \<equiv> 2"
abbreviation (input) PAGE_EXEC :: u32 where "PAGE_EXEC \<equiv> 4"

text \<open>Bits of page-table entries.\<close>

abbreviation (input) PG_PRESENT_BIT :: nat where "PG_PRESENT_BIT \<equiv> 0"
abbreviation (input) PG_RW_BIT :: nat where "PG_RW_BIT \<equiv> 1"
abbreviation (input) PG_USER_BIT :: nat where "PG_USER_BIT \<equiv> 2"
abbreviation (input) PG_ACCESSED_BIT :: nat where "PG_ACCESSED_BIT \<equiv> 5"
abbreviation (input) PG_DIRTY_BIT :: nat where "PG_DIRTY_BIT \<equiv> 6"
abbreviation (input) PG_PSE_BIT :: nat where "PG_PSE_BIT \<equiv> 7"
abbreviation (input) PG_NX_BIT :: nat where "PG_NX_BIT \<equiv> 63"
abbreviation (input) PG_PKRU_BIT :: nat where "PG_PKRU_BIT \<equiv> 59"
abbreviation (input) PG_ACCESSED_MASK :: u64 where "PG_ACCESSED_MASK \<equiv> 0x20"
abbreviation (input) PG_DIRTY_MASK :: u64 where "PG_DIRTY_MASK \<equiv> 0x40"
abbreviation (input) PG_PSE_MASK :: u64 where "PG_PSE_MASK \<equiv> 0x80"
abbreviation (input) PG_PSE_PAT_MASK :: u64 where "PG_PSE_PAT_MASK \<equiv> 0x1000"
abbreviation (input) PG_ADDRESS_MASK :: u64 where "PG_ADDRESS_MASK \<equiv> 0x000ffffffffff000"
abbreviation (input) PG_HI_USER_MASK :: u64 where "PG_HI_USER_MASK \<equiv> 0x7ff0000000000000"
abbreviation (input) PG_NX_MASK :: u64 where "PG_NX_MASK \<equiv> 0x8000000000000000"

text \<open>\<^verbatim>\<open>PG_NX_MASK | PG_USER_MASK | PG_RW_MASK\<close>: nothing restricted so far.\<close>

abbreviation (input) PG_ALL_RIGHTS :: u64 where "PG_ALL_RIGHTS \<equiv> 0x8000000000000006"

abbreviation (input) PG_ERROR_P_MASK :: u32 where "PG_ERROR_P_MASK \<equiv> 0x01"
abbreviation (input) PG_ERROR_W_MASK :: u32 where "PG_ERROR_W_MASK \<equiv> 0x02"
abbreviation (input) PG_ERROR_U_MASK :: u32 where "PG_ERROR_U_MASK \<equiv> 0x04"
abbreviation (input) PG_ERROR_RSVD_MASK :: u32 where "PG_ERROR_RSVD_MASK \<equiv> 0x08"
abbreviation (input) PG_ERROR_I_D_MASK :: u32 where "PG_ERROR_I_D_MASK \<equiv> 0x10"
abbreviation (input) PG_ERROR_PK_MASK :: u32 where "PG_ERROR_PK_MASK \<equiv> 0x20"

text \<open>Bit numbers of the paging-mode word.\<close>

abbreviation (input) PG_MODE_PAE :: nat where "PG_MODE_PAE \<equiv> 0"
abbreviation (input) PG_MODE_LMA :: nat where "PG_MODE_LMA \<equiv> 1"
abbreviation (input) PG_MODE_NXE :: nat where "PG_MODE_NXE \<equiv> 2"
abbreviation (input) PG_MODE_PSE :: nat where "PG_MODE_PSE \<equiv> 3"
abbreviation (input) PG_MODE_LA57 :: nat where "PG_MODE_LA57 \<equiv> 4"
abbreviation (input) PG_MODE_WP :: nat where "PG_MODE_WP \<equiv> 16"
abbreviation (input) PG_MODE_PKE :: nat where "PG_MODE_PKE \<equiv> 17"
abbreviation (input) PG_MODE_PKS :: nat where "PG_MODE_PKS \<equiv> 18"
abbreviation (input) PG_MODE_SMEP :: nat where "PG_MODE_SMEP \<equiv> 19"

abbreviation (input) EXCP0D_GPF :: nat where "EXCP0D_GPF \<equiv> 13"
abbreviation (input) EXCP0E_PAGE :: nat where "EXCP0E_PAGE \<equiv> 14"

definition flag :: "bool \<Rightarrow> nat \<Rightarrow> u32" where
  "flag b n = (if b then push_bit n 1 else 0)"

section \<open>Paging mode\<close>

text \<open>
  \<^verbatim>\<open>CR0_PG\<close> is bit 31, \<^verbatim>\<open>CR0_WP\<close> bit 16; \<^verbatim>\<open>CR4_PSE\<close> 4, \<^verbatim>\<open>CR4_PAE\<close> 5, \<^verbatim>\<open>CR4_LA57\<close> 12,
  \<^verbatim>\<open>CR4_SMEP\<close> 20, \<^verbatim>\<open>CR4_PKE\<close> 22, \<^verbatim>\<open>CR4_PKS\<close> 24; \<^verbatim>\<open>MSR_EFER_NXE\<close> 11.
\<close>

definition get_pg_mode :: "CPUX86State \<Rightarrow> u32" where
  "get_pg_mode e =
     (if \<not> bit (cr e 0) 31 then 0
      else flag (bit (cr e 0) 16) PG_MODE_WP
        OR flag (bit (cr e 4) 5) PG_MODE_PAE
        OR flag (bit (cr e 4) 5 \<and> bit (efer e) 11) PG_MODE_NXE
        OR flag (bit (cr e 4) 4) PG_MODE_PSE
        OR flag (bit (cr e 4) 20) PG_MODE_SMEP
        OR flag (bit (hflags e) HF_LMA_SHIFT) PG_MODE_LMA
        OR flag (bit (hflags e) HF_LMA_SHIFT \<and> bit (cr e 4) 22) PG_MODE_PKE
        OR flag (bit (hflags e) HF_LMA_SHIFT \<and> bit (cr e 4) 24) PG_MODE_PKS
        OR flag (bit (hflags e) HF_LMA_SHIFT \<and> bit (cr e 4) 12) PG_MODE_LA57)"

text \<open>The mask is an \<^verbatim>\<open>int32_t\<close>, so it is sign-extended where it meets an address.\<close>

definition x86_get_a20_mask :: "CPUX86State \<Rightarrow> u32" where
  "x86_get_a20_mask e = (if bit (hflags e) HF_SMM_SHIFT then -1 else a20_mask e)"

abbreviation a20 :: "CPUX86State \<Rightarrow> u64" where
  "a20 e \<equiv> scast (x86_get_a20_mask e)"

section \<open>The page-table walk\<close>

text \<open>
  The second-stage translation of \<^verbatim>\<open>MMUTranslateFunc\<close>: a guest-physical address, the kind of
  access and the optional protection word it narrows.
\<close>

type_synonym hphys_func =
  "u64 \<Rightarrow> nat \<Rightarrow> u32 option \<Rightarrow> mem \<Rightarrow> (u64 \<times> u32 option, mem) outcome"

definition GET_HPHYS :: "hphys_func option \<Rightarrow> hphys_func" where
  "GET_HPHYS get_hphys_func gpa access_type pr m =
     (case get_hphys_func of
        Some f \<Rightarrow> f gpa access_type pr m
      | None \<Rightarrow> Done (gpa, pr) m)"

text \<open>Reading an entry: its host-physical address and its value.\<close>

definition pt_ldq :: "hphys_func option \<Rightarrow> u64 \<Rightarrow> mem \<Rightarrow> (u64 \<times> u64, mem) outcome" where
  "pt_ldq hp addr m =
     bind_outcome (GET_HPHYS hp addr MMU_DATA_STORE None m) (\<lambda>(a, _) m. Done (a, ldq_le m a) m)"

definition pt_ldl :: "hphys_func option \<Rightarrow> u64 \<Rightarrow> mem \<Rightarrow> (u64 \<times> u32, mem) outcome" where
  "pt_ldl hp addr m =
     bind_outcome (GET_HPHYS hp addr MMU_DATA_STORE None m) (\<lambda>(a, _) m. Done (a, ldl_le m a) m)"

text \<open>The present and reserved-bit tests on an entry.\<close>

definition pt_test :: "u64 \<Rightarrow> u64 \<Rightarrow> mem \<Rightarrow> (unit, mem) outcome" where
  "pt_test e rsvd m =
     (if \<not> bit e PG_PRESENT_BIT then Raise EXCP0E_PAGE 0 m
      else if e AND rsvd \<noteq> 0 then Raise EXCP0E_PAGE (PG_ERROR_RSVD_MASK OR PG_ERROR_P_MASK) m
      else Done () m)"

text \<open>Marking an entry accessed; \<^verbatim>\<open>x86_stl_phys_notdirty\<close> writes its low half.\<close>

definition pt_accessed :: "u64 \<Rightarrow> u64 \<Rightarrow> mem \<Rightarrow> (u64, mem) outcome" where
  "pt_accessed a e m =
     (if bit e PG_ACCESSED_BIT then Done e m
      else Done (e OR PG_ACCESSED_MASK) (stl_le m a (ucast (e OR PG_ACCESSED_MASK))))"

definition pt_slot :: "u64 \<Rightarrow> u64 \<Rightarrow> nat \<Rightarrow> u64 \<Rightarrow> u64" where
  "pt_slot a20m table n addr = (table + push_bit 3 (drop_bit n addr AND 0x1ff)) AND a20m"

text \<open>What a walk hands to \<^verbatim>\<open>do_check_protect\<close>.\<close>

record leaf =
  leaf_ptep :: u64
  leaf_pte :: u64
  leaf_addr :: u64
  leaf_size :: u64
  leaf_rsvd :: u64

definition pt_size_rsvd :: "u64 \<Rightarrow> u64" where
  "pt_size_rsvd sz = (sz - 1) AND PG_ADDRESS_MASK AND NOT PG_PSE_PAT_MASK"

text \<open>The top levels of long mode: \<^verbatim>\<open>pml5e\<close> with the rights accumulated, then \<^verbatim>\<open>pml4e\<close>.\<close>

definition walk_pml5 ::
    "hphys_func option \<Rightarrow> u64 \<Rightarrow> u64 \<Rightarrow> bool \<Rightarrow> u64 \<Rightarrow> u64 \<Rightarrow> mem \<Rightarrow> (u64 \<times> u64, mem) outcome" where
  "walk_pml5 hp a20m rsvd la57 cr3 addr m =
     (if la57 then
        bind_outcome (pt_ldq hp (pt_slot a20m (cr3 AND NOT 0xfff) 48 addr) m) (\<lambda>(a, e) m.
        bind_outcome (pt_test e (rsvd OR PG_PSE_MASK) m) (\<lambda>_ m.
        bind_outcome (pt_accessed a e m) (\<lambda>e m.
        Done (e, e XOR PG_NX_MASK) m)))
      else Done (cr3, PG_ALL_RIGHTS) m)"

definition walk_pml4 ::
    "hphys_func option \<Rightarrow> u64 \<Rightarrow> u64 \<Rightarrow> u64 \<Rightarrow> u64 \<Rightarrow> u64 \<Rightarrow> mem \<Rightarrow> (u64 \<times> u64, mem) outcome" where
  "walk_pml4 hp a20m rsvd pml5e ptep addr m =
     bind_outcome (pt_ldq hp (pt_slot a20m (pml5e AND PG_ADDRESS_MASK) 39 addr) m) (\<lambda>(a, e) m.
     bind_outcome (pt_test e (rsvd OR PG_PSE_MASK) m) (\<lambda>_ m.
     bind_outcome (pt_accessed a e m) (\<lambda>e m.
     Done (e, ptep AND (e XOR PG_NX_MASK)) m)))"

text \<open>The page-directory-pointer entry of long mode, which may map a 1 GB page.\<close>

definition walk_pdpe ::
    "hphys_func option \<Rightarrow> u64 \<Rightarrow> u64 \<Rightarrow> u64 \<Rightarrow> u64 \<Rightarrow> u64 \<Rightarrow> mem
      \<Rightarrow> (leaf + u64 \<times> u64, mem) outcome" where
  "walk_pdpe hp a20m rsvd pml4e ptep addr m =
     bind_outcome (pt_ldq hp (pt_slot a20m (pml4e AND PG_ADDRESS_MASK) 30 addr) m) (\<lambda>(a, e) m.
     bind_outcome (pt_test e rsvd m) (\<lambda>_ m.
     let ptep = ptep AND (e XOR PG_NX_MASK) in
     bind_outcome (pt_accessed a e m) (\<lambda>e m.
     if bit e PG_PSE_BIT then
       Done (Inl \<lparr>leaf_ptep = ptep, leaf_pte = e, leaf_addr = a, leaf_size = 0x40000000,
                  leaf_rsvd = rsvd OR pt_size_rsvd 0x40000000\<rparr>) m
     else Done (Inr (e, ptep)) m)))"

text \<open>The page-directory-pointer entry of 32-bit PAE paging; \<^verbatim>\<open>rsvd\<close> already has the high bits.\<close>

definition walk_pdpe_pae ::
    "hphys_func option \<Rightarrow> u64 \<Rightarrow> u64 \<Rightarrow> u64 \<Rightarrow> u64 \<Rightarrow> mem \<Rightarrow> (u64 \<times> u64, mem) outcome" where
  "walk_pdpe_pae hp a20m rsvd cr3 addr m =
     bind_outcome (pt_ldq hp (((cr3 AND NOT 0x1f) + (drop_bit 27 addr AND 0x18)) AND a20m) m)
       (\<lambda>(a, e) m.
     bind_outcome (pt_test e (rsvd OR PG_NX_MASK) m) (\<lambda>_ m.
     Done (e, PG_ALL_RIGHTS) m))"

text \<open>The page directory (2 MB pages) and the page table of the 64-bit entry formats.\<close>

definition walk_pde ::
    "hphys_func option \<Rightarrow> u64 \<Rightarrow> u64 \<Rightarrow> u64 \<Rightarrow> u64 \<Rightarrow> u64 \<Rightarrow> mem \<Rightarrow> (leaf, mem) outcome" where
  "walk_pde hp a20m rsvd pdpe ptep addr m =
     bind_outcome (pt_ldq hp (pt_slot a20m (pdpe AND PG_ADDRESS_MASK) 21 addr) m) (\<lambda>(a, pde) m.
     bind_outcome (pt_test pde rsvd m) (\<lambda>_ m.
     let ptep = ptep AND (pde XOR PG_NX_MASK) in
     if bit pde PG_PSE_BIT then
       Done \<lparr>leaf_ptep = ptep, leaf_pte = pde, leaf_addr = a, leaf_size = 0x200000,
             leaf_rsvd = rsvd OR pt_size_rsvd 0x200000\<rparr> m
     else
       bind_outcome (pt_accessed a pde m) (\<lambda>pde m.
       bind_outcome (pt_ldq hp (pt_slot a20m (pde AND PG_ADDRESS_MASK) 12 addr) m) (\<lambda>(b, pte) m.
       bind_outcome (pt_test pte rsvd m) (\<lambda>_ m.
       Done \<lparr>leaf_ptep = ptep AND (pte XOR PG_NX_MASK), leaf_pte = pte, leaf_addr = b,
             leaf_size = 0x1000, leaf_rsvd = rsvd OR pt_size_rsvd 0x1000\<rparr> m)))))"

text \<open>
  32-bit paging. A 4 MB page takes bits 39-32 of its address from bits 20-13 of the entry and
  skips the size test, whose place \<^verbatim>\<open>rsvd_mask = 0x200000\<close> takes.
\<close>

definition pse36_pte :: "u64 \<Rightarrow> u64" where
  "pse36_pte pde = pde OR push_bit 19 (pde AND 0x1fe000)"

definition walk_32bit ::
    "hphys_func option \<Rightarrow> u64 \<Rightarrow> bool \<Rightarrow> u64 \<Rightarrow> u64 \<Rightarrow> mem \<Rightarrow> (leaf, mem) outcome" where
  "walk_32bit hp a20m pse cr3 addr m =
     bind_outcome (pt_ldl hp (((cr3 AND NOT 0xfff) + (drop_bit 20 addr AND 0xffc)) AND a20m) m)
       (\<lambda>(a, pde32) m.
     let pde = ucast pde32 :: u64 in
     bind_outcome (pt_test pde 0 m) (\<lambda>_ m.
     let ptep = pde OR PG_NX_MASK in
     if bit pde PG_PSE_BIT \<and> pse then
       Done \<lparr>leaf_ptep = ptep, leaf_pte = pse36_pte pde, leaf_addr = a,
             leaf_size = 0x400000, leaf_rsvd = 0x200000\<rparr> m
     else
       bind_outcome (pt_accessed a pde m) (\<lambda>pde m.
       bind_outcome (pt_ldl hp (((pde AND NOT 0xfff) + (drop_bit 10 addr AND 0xffc)) AND a20m) m)
         (\<lambda>(b, pte32) m.
       let pte = ucast pte32 :: u64 in
       bind_outcome (pt_test pte 0 m) (\<lambda>_ m.
       Done \<lparr>leaf_ptep = ptep AND (pte OR PG_NX_MASK), leaf_pte = pte, leaf_addr = b,
             leaf_size = 0x1000, leaf_rsvd = pt_size_rsvd 0x1000\<rparr> m)))))"

text \<open>The whole walk of long mode, and the choice between the three formats.\<close>

definition walk_long ::
    "hphys_func option \<Rightarrow> u64 \<Rightarrow> u64 \<Rightarrow> bool \<Rightarrow> u64 \<Rightarrow> u64 \<Rightarrow> mem \<Rightarrow> (leaf, mem) outcome" where
  "walk_long hp a20m rsvd la57 cr3 addr m =
     bind_outcome (walk_pml5 hp a20m rsvd la57 cr3 addr m) (\<lambda>(pml5e, ptep) m.
     bind_outcome (walk_pml4 hp a20m rsvd pml5e ptep addr m) (\<lambda>(pml4e, ptep) m.
     bind_outcome (walk_pdpe hp a20m rsvd pml4e ptep addr m) (\<lambda>r m.
     case r of
       Inl l \<Rightarrow> Done l m
     | Inr (pdpe, ptep) \<Rightarrow> walk_pde hp a20m rsvd pdpe ptep addr m)))"

definition mmu_walk ::
    "CPUX86State \<Rightarrow> hphys_func option \<Rightarrow> u64 \<Rightarrow> u32 \<Rightarrow> u64 \<Rightarrow> mem \<Rightarrow> (leaf, mem) outcome" where
  "mmu_walk e hp cr3 pg_mode addr m =
     (let rsvd = (PG_ADDRESS_MASK AND NOT (mask (phys_bits e)))
                 OR (if bit pg_mode PG_MODE_NXE then 0 else PG_NX_MASK);
          a = a20 e
      in if bit pg_mode PG_MODE_PAE then
           if bit pg_mode PG_MODE_LMA then
             walk_long hp a rsvd (bit pg_mode PG_MODE_LA57) cr3 addr m
           else
             bind_outcome (walk_pdpe_pae hp a (rsvd OR PG_HI_USER_MASK) cr3 addr m)
               (\<lambda>(pdpe, ptep) m.
             walk_pde hp a (rsvd OR PG_HI_USER_MASK) pdpe ptep addr m)
         else walk_32bit hp a (bit pg_mode PG_MODE_PSE) cr3 addr m)"

section \<open>Protection\<close>

text \<open>
  From \<^verbatim>\<open>do_check_protect\<close> to the test of the access: the rights of the page, or a fault. The
  entry's NX bit is accumulated inverted, so one more exclusive-or makes it a prohibition
  again. The assertion \<^verbatim>\<open>is_write1 != 2\<close> cannot fail, since a key never takes away
  \<^verbatim>\<open>PAGE_EXEC\<close>.
\<close>

definition pk_prot :: "u32 \<Rightarrow> u64 \<Rightarrow> bool \<Rightarrow> u32" where
  "pk_prot pkr pte restricted =
     (let pk = unat (drop_bit PG_PKRU_BIT pte AND 0xf);
          pkr_ad = bit pkr (2 * pk);
          pkr_wd = bit pkr (2 * pk + 1)
      in if pkr_ad then PAGE_EXEC
         else if pkr_wd \<and> restricted then PAGE_READ OR PAGE_EXEC
         else PAGE_READ OR PAGE_WRITE OR PAGE_EXEC)"

definition page_prot :: "nat \<Rightarrow> u32 \<Rightarrow> u64 \<Rightarrow> u32" where
  "page_prot mmu_idx pg_mode ptep =
     (if mmu_idx \<noteq> MMU_KSMAP_IDX \<or> \<not> bit ptep PG_USER_BIT then
        PAGE_READ OR
        (if bit ptep PG_RW_BIT \<or> \<not> (mmu_idx = MMU_USER_IDX \<or> bit pg_mode PG_MODE_WP)
         then PAGE_WRITE else 0)
      else 0) OR
     (if \<not> bit ptep PG_NX_BIT \<and>
         (mmu_idx = MMU_USER_IDX \<or> \<not> (bit pg_mode PG_MODE_SMEP \<and> bit ptep PG_USER_BIT))
      then PAGE_EXEC else 0)"

definition mmu_check_protect ::
    "CPUX86State \<Rightarrow> nat \<Rightarrow> nat \<Rightarrow> u32 \<Rightarrow> leaf \<Rightarrow> mem \<Rightarrow> (u32, mem) outcome" where
  "mmu_check_protect e is_write1 mmu_idx pg_mode l m =
     (let is_user = (mmu_idx = MMU_USER_IDX);
          ptep = leaf_ptep l XOR PG_NX_MASK;
          pr = page_prot mmu_idx pg_mode ptep;
          pkr = (if bit ptep PG_USER_BIT
                 then (if bit pg_mode PG_MODE_PKE then pkru e else 0)
                 else (if bit pg_mode PG_MODE_PKS then pkrs e else 0));
          pkr_prot = pk_prot pkr (leaf_pte l) (is_user \<or> bit pg_mode PG_MODE_WP);
          pr' = (if pkr \<noteq> 0 then pr AND pkr_prot else pr)
      in if leaf_pte l AND leaf_rsvd l \<noteq> 0
         then Raise EXCP0E_PAGE (PG_ERROR_RSVD_MASK OR PG_ERROR_P_MASK) m
         else if is_user \<and> \<not> bit ptep PG_USER_BIT then Raise EXCP0E_PAGE PG_ERROR_P_MASK m
         else if pkr \<noteq> 0 \<and> \<not> bit pkr_prot is_write1
         then Raise EXCP0E_PAGE (PG_ERROR_PK_MASK OR PG_ERROR_P_MASK) m
         else if \<not> bit pr' is_write1 then Raise EXCP0E_PAGE PG_ERROR_P_MASK m
         else Done pr' m)"

text \<open>
  Marking the page accessed, and dirty on a write; a page that is not dirty is mapped
  read-only, so that the first write comes back here.
\<close>

definition mmu_mark :: "nat \<Rightarrow> leaf \<Rightarrow> u32 \<Rightarrow> mem \<Rightarrow> (u64 \<times> u32, mem) outcome" where
  "mmu_mark is_write1 l pr m =
     (let is_dirty = (odd is_write1 \<and> \<not> bit (leaf_pte l) PG_DIRTY_BIT);
          pte = leaf_pte l OR PG_ACCESSED_MASK OR (if is_dirty then PG_DIRTY_MASK else 0);
          m' = (if \<not> bit (leaf_pte l) PG_ACCESSED_BIT \<or> is_dirty
                then stl_le m (leaf_addr l) (ucast pte) else m)
      in Done (pte, if bit pte PG_DIRTY_BIT then pr else pr AND NOT PAGE_WRITE) m')"

definition mmu_error_code :: "nat \<Rightarrow> nat \<Rightarrow> u32 \<Rightarrow> u32 \<Rightarrow> u32" where
  "mmu_error_code is_write1 mmu_idx pg_mode code =
     code OR (if odd is_write1 then PG_ERROR_W_MASK else 0)
          OR (if mmu_idx = MMU_USER_IDX then PG_ERROR_U_MASK else 0)
          OR (if is_write1 = MMU_INST_FETCH \<and> (bit pg_mode PG_MODE_NXE \<or> bit pg_mode PG_MODE_SMEP)
              then PG_ERROR_I_D_MASK else 0)"

text \<open>
  The result is the error code (\<^const>\<open>Inl\<close>), or the physical address, the page size and the
  protection the function stores through its pointers before it returns \<^verbatim>\<open>PG_ERROR_OK\<close>.
\<close>

definition mmu_finish ::
    "CPUX86State \<Rightarrow> u64 \<Rightarrow> hphys_func option \<Rightarrow> nat \<Rightarrow> u64 \<Rightarrow> u64 \<Rightarrow> u32 \<Rightarrow> mem
      \<Rightarrow> (u64 \<times> u64 \<times> u32, mem) outcome" where
  "mmu_finish e addr hp is_write1 page_size pte pr m =
     (let frame = pte AND a20 e AND PG_ADDRESS_MASK AND NOT (page_size - 1);
          page_offset = addr AND (page_size - 1)
      in bind_outcome (GET_HPHYS hp (frame + page_offset) is_write1 (Some pr) m) (\<lambda>(x, pr') m.
         Done (x, page_size, the pr') m))"

definition mmu_translate_ok ::
    "CPUX86State \<Rightarrow> u64 \<Rightarrow> hphys_func option \<Rightarrow> u64 \<Rightarrow> nat \<Rightarrow> nat \<Rightarrow> u32 \<Rightarrow> mem
      \<Rightarrow> (u64 \<times> u64 \<times> u32, mem) outcome" where
  "mmu_translate_ok e addr hp cr3 is_write1 mmu_idx pg_mode m =
     bind_outcome (mmu_walk e hp cr3 pg_mode addr m) (\<lambda>l m.
     bind_outcome (mmu_check_protect e is_write1 mmu_idx pg_mode l m) (\<lambda>pr m.
     bind_outcome (mmu_mark is_write1 l pr m) (\<lambda>(pte, pr) m.
     mmu_finish e addr hp is_write1 (leaf_size l) pte pr m)))"

definition mmu_translate ::
    "CPUX86State \<Rightarrow> u64 \<Rightarrow> hphys_func option \<Rightarrow> u64 \<Rightarrow> nat \<Rightarrow> nat \<Rightarrow> u32 \<Rightarrow> mem
      \<Rightarrow> (u32 + u64 \<times> u64 \<times> u32, mem) outcome" where
  "mmu_translate e addr hp cr3 is_write1 mmu_idx pg_mode m =
     (case mmu_translate_ok e addr hp cr3 is_write1 mmu_idx pg_mode m of
        Done r m' \<Rightarrow> Done (Inr r) m'
      | Raise n code m' \<Rightarrow> Done (Inl (mmu_error_code is_write1 mmu_idx pg_mode code)) m'
      | Vmexit c info m' \<Rightarrow> Vmexit c info m'
      | Undefined \<Rightarrow> Undefined)"

section \<open>Nested paging\<close>

abbreviation (input) SVM_EXIT_NPF :: u32 where "SVM_EXIT_NPF \<equiv> 0x400"
abbreviation (input) SVM_NPTEXIT_GPA :: u64 where "SVM_NPTEXIT_GPA \<equiv> 0x100000000"
abbreviation (input) SVM_NPTEXIT_GPT :: u64 where "SVM_NPTEXIT_GPT \<equiv> 0x200000000"

text \<open>Offset of \<^verbatim>\<open>control.exit_info_2\<close> in the packed \<^verbatim>\<open>struct vmcb\<close>.\<close>

abbreviation (input) VMCB_EXIT_INFO_2 :: u64 where "VMCB_EXIT_INFO_2 \<equiv> 0x80"

definition get_hphys :: "CPUX86State \<Rightarrow> hphys_func" where
  "get_hphys e gphys access_type pr m =
     (if \<not> bit (hflags2 e) HF2_NPT_SHIFT then Done (gphys, pr) m
      else bind_outcome
        (mmu_translate e gphys None (nested_cr3 e) access_type MMU_USER_IDX (nested_pg_mode e) m)
        (\<lambda>r m. case r of
            Inr (hphys, page_size, next_prot) \<Rightarrow>
              Done (hphys, map_option (\<lambda>p. p AND next_prot) pr) m
          | Inl exit_info_1 \<Rightarrow>
              Vmexit SVM_EXIT_NPF
                (ucast exit_info_1 OR (if pr \<noteq> None then SVM_NPTEXIT_GPA else SVM_NPTEXIT_GPT))
                (stq_le m (vm_vmcb e + VMCB_EXIT_INFO_2) gphys)))"

text \<open>
  \<^verbatim>\<open>get_hphys2\<close>, added for the user-interrupt tables, drops the error code: after a fault its
  result is a variable that was never written.
\<close>

definition get_hphys2 :: "CPUX86State \<Rightarrow> u64 \<Rightarrow> nat \<Rightarrow> mem \<Rightarrow> (u64, mem) outcome" where
  "get_hphys2 e gphys access_type m =
     bind_outcome
       (mmu_translate e gphys (Some (get_hphys e)) (cr e 3) access_type MMU_KNOSMAP_IDX
          (get_pg_mode e) m)
       (\<lambda>r m. case r of
           Inr (hphys, page_size, next_prot) \<Rightarrow> Done hphys m
         | Inl code \<Rightarrow> Undefined)"

section \<open>Faults and accesses of a processor\<close>

text \<open>Running a routine on memory inside the machine.\<close>

primrec on_mem :: "machine \<Rightarrow> ('v, mem) outcome \<Rightarrow> ('v, machine) outcome" where
  "on_mem m (Done x p) = Done x (m\<lparr>phys_mem := p\<rparr>)"
| "on_mem m (Raise n c p) = Raise n c (m\<lparr>phys_mem := p\<rparr>)"
| "on_mem m (Vmexit c i p) = Vmexit c i (m\<lparr>phys_mem := p\<rparr>)"
| "on_mem m Undefined = Undefined"

abbreviation env_of :: "machine \<Rightarrow> nat \<Rightarrow> CPUX86State" where
  "env_of m i \<equiv> env (cpus m i)"

definition canonical :: "u32 \<Rightarrow> u64 \<Rightarrow> bool" where
  "canonical pg_mode addr =
     (let sext = signed_drop_bit (if bit pg_mode PG_MODE_LA57 then 56 else 47) addr
      in (ucast sext :: u32) = 0 \<or> (ucast sext :: u32) = - 1)"

text \<open>
  \<^verbatim>\<open>handle_mmu_fault\<close> gives the page it would enter into the TLB (virtual page, physical page,
  protection), or the exception number (\<^const>\<open>Inl\<close>), with \<^verbatim>\<open>error_code\<close> and \<^verbatim>\<open>CR2\<close> set.
\<close>

definition handle_mmu_fault ::
    "nat \<Rightarrow> u64 \<Rightarrow> nat \<Rightarrow> nat \<Rightarrow> machine \<Rightarrow> (nat + u64 \<times> u64 \<times> u32, machine) outcome" where
  "handle_mmu_fault i addr is_write1 mmu_idx m =
     (let e = env_of m i;
          pg_mode = get_pg_mode e;
          page = (\<lambda>paddr pr. Inr (addr AND NOT 0xfff, paddr AND NOT 0xfff, pr))
      in if \<not> bit (cr e 0) 31 then
           Done (page (if bit (hflags e) HF_LMA_SHIFT then addr else ucast (ucast addr :: u32))
                   (PAGE_READ OR PAGE_WRITE OR PAGE_EXEC)) m
         else if bit pg_mode PG_MODE_LMA \<and> \<not> canonical pg_mode addr then
           Done (Inl EXCP0D_GPF) (upd_env i (error_code_update (\<lambda>_. 0)) m)
         else bind_outcome
           (on_mem m (mmu_translate e addr (Some (get_hphys e)) (cr e 3) is_write1 mmu_idx pg_mode
             (phys_mem m)))
           (\<lambda>r m. case r of
              Inr (paddr, page_size, pr) \<Rightarrow> Done (page paddr pr) m
            | Inl code \<Rightarrow>
                let m' = (if bit (intercept_exceptions e) EXCP0E_PAGE
                          then m\<lparr>phys_mem := stq_le (phys_mem m) (vm_vmcb e + VMCB_EXIT_INFO_2) addr\<rparr>
                          else upd_env i (\<lambda>e. e\<lparr>cr := (cr e)(2 := addr)\<rparr>) m)
                in Done (Inl EXCP0E_PAGE) (upd_env i (error_code_update (\<lambda>_. code)) m')))"

definition x86_cpu_tlb_fill ::
    "nat \<Rightarrow> u64 \<Rightarrow> nat \<Rightarrow> nat \<Rightarrow> machine \<Rightarrow> (u64 \<times> u64 \<times> u32, machine) outcome" where
  "x86_cpu_tlb_fill i addr access_type mmu_idx m =
     bind_outcome (handle_mmu_fault i addr access_type mmu_idx m) (\<lambda>r m.
       case r of
         Inr page \<Rightarrow> Done page m
       | Inl n \<Rightarrow> Raise n (error_code (env_of m i)) m)"

text \<open>
  The soft MMU (\<^verbatim>\<open>load_helper\<close>, \<^verbatim>\<open>store_helper\<close>) on ordinary RAM. Its TLB caches the pages
  \<^verbatim>\<open>x86_cpu_tlb_fill\<close> returns; here every access translates its page anew, as on a miss. A
  store that crosses into the next page translates both before it writes.
\<close>

definition guest_load :: "nat \<Rightarrow> nat \<Rightarrow> u64 \<Rightarrow> nat \<Rightarrow> machine \<Rightarrow> (u8 list, machine) outcome" where
  "guest_load n i addr mmu_idx m =
     bind_outcome (x86_cpu_tlb_fill i addr MMU_DATA_LOAD mmu_idx m) (\<lambda>(_, p1, _) m.
     let offs = addr AND 0xfff; k = 4096 - unat offs in
     if n \<le> k then Done (load_bytes (phys_mem m) (p1 + offs) n) m
     else let bs1 = load_bytes (phys_mem m) (p1 + offs) k in
       bind_outcome (x86_cpu_tlb_fill i ((addr + of_nat n) AND NOT 0xfff) MMU_DATA_LOAD mmu_idx m)
         (\<lambda>(_, p2, _) m. Done (bs1 @ load_bytes (phys_mem m) p2 (n - k)) m))"

definition guest_store :: "nat \<Rightarrow> u64 \<Rightarrow> u8 list \<Rightarrow> nat \<Rightarrow> machine \<Rightarrow> (unit, machine) outcome" where
  "guest_store i addr bs mmu_idx m =
     bind_outcome (x86_cpu_tlb_fill i addr MMU_DATA_STORE mmu_idx m) (\<lambda>(_, p1, _) m.
     let n = length bs; offs = addr AND 0xfff; k = 4096 - unat offs in
     if n \<le> k then Done () (m\<lparr>phys_mem := store_bytes (phys_mem m) (p1 + offs) bs\<rparr>)
     else bind_outcome
       (x86_cpu_tlb_fill i ((addr + of_nat n) AND NOT 0xfff) MMU_DATA_STORE mmu_idx m)
       (\<lambda>(_, p2, _) m. Done () (m\<lparr>phys_mem :=
          store_bytes (store_bytes (phys_mem m) (p1 + offs) (take k bs)) p2 (drop k bs)\<rparr>)))"

definition cpu_mmu_index_kernel :: "CPUX86State \<Rightarrow> nat" where
  "cpu_mmu_index_kernel e =
     (if \<not> bit (hflags e) 23 then MMU_KNOSMAP_IDX
      else if cpl_of e < 3 \<and> bit (eflags e) 18 then MMU_KNOSMAP_IDX else MMU_KSMAP_IDX)"

definition cpu_ldl_kernel :: "nat \<Rightarrow> u64 \<Rightarrow> machine \<Rightarrow> (u32, machine) outcome" where
  "cpu_ldl_kernel i addr m =
     bind_outcome (guest_load 4 i addr (cpu_mmu_index_kernel (env_of m i)) m)
       (\<lambda>bs m. Done (le_word bs) m)"

definition cpu_ldq_kernel :: "nat \<Rightarrow> u64 \<Rightarrow> machine \<Rightarrow> (u64, machine) outcome" where
  "cpu_ldq_kernel i addr m =
     bind_outcome (guest_load 8 i addr (cpu_mmu_index_kernel (env_of m i)) m)
       (\<lambda>bs m. Done (le_word bs) m)"

definition cpu_stq_kernel :: "nat \<Rightarrow> u64 \<Rightarrow> u64 \<Rightarrow> machine \<Rightarrow> (unit, machine) outcome" where
  "cpu_stq_kernel i addr v m =
     guest_store i addr (le_bytes 8 v) (cpu_mmu_index_kernel (env_of m i)) m"

section \<open>Only accessed and dirty bits change\<close>

text \<open>Memory that differs in accessed and dirty bits that became set.\<close>

definition marked :: "mem \<Rightarrow> mem \<Rightarrow> bool" where
  "marked m m' \<longleftrightarrow> (\<forall>b. m' b = m b OR (m' b AND 0x60))"

lemma marked_refl [simp]: "marked m m"
  by (simp add: marked_def)

lemma marked_bits:
  "marked m m' \<longleftrightarrow> (\<forall>b n. bit (m' b) n \<longleftrightarrow> bit (m b) n \<or> bit (m' b) n \<and> bit (0x60 :: u8) n)"
proof
  assume "marked m m'"
  then show "\<forall>b n. bit (m' b) n \<longleftrightarrow> bit (m b) n \<or> bit (m' b) n \<and> bit (0x60 :: u8) n"
    unfolding marked_def by (metis bit_or_iff bit_and_iff)
next
  assume *: "\<forall>b n. bit (m' b) n \<longleftrightarrow> bit (m b) n \<or> bit (m' b) n \<and> bit (0x60 :: u8) n"
  have "m' b = m b OR (m' b AND 0x60)" for b
    by (rule bit_word_eqI, unfold bit_or_iff bit_and_iff) (use * in blast)
  then show "marked m m'" unfolding marked_def by blast
qed

lemma transp_marked [simp]: "transp marked"
  by (rule transpI) (unfold marked_bits, blast)

text \<open>The entry \<open>e\<close> is what memory holds at \<open>a\<close>, as far as its low half goes.\<close>

definition entry_at :: "mem \<Rightarrow> u64 \<Rightarrow> u64 \<Rightarrow> bool" where
  "entry_at m a e \<longleftrightarrow> (\<forall>n<32. bit e n \<longleftrightarrow> bit (m (a + of_nat (n div 8))) (n mod 8))"

lemma entry_at_ldq [simp]: "entry_at m a (ldq_le m a)"
  by (auto simp: entry_at_def ldq_le_def bit_le_word load_bytes_def)

lemma entry_at_ldl [simp]: "entry_at m a (ucast (ldl_le m a))"
  by (auto simp: entry_at_def ldl_le_def bit_ucast_iff bit_le_word load_bytes_def)

lemma entry_at_low: "entry_at m a e \<Longrightarrow> (\<And>n. n < 32 \<Longrightarrow> bit e' n = bit e n) \<Longrightarrow> entry_at m a e'"
  by (simp add: entry_at_def)

lemma stl_le_byte:
  "stl_le m a w x = (if unat (x - a) < 4 then ucast (drop_bit (8 * unat (x - a)) w) else m x)"
  by (simp add: stl_le_def store_bytes_def nth_le_bytes)

lemma entry_at_stl: "entry_at (stl_le m a (ucast e)) a e"
proof -
  have "unat (of_nat (n div 8) :: u64) = n div 8" if "n < 32" for n
    using that by (simp add: unat_of_nat)
  then show ?thesis
    by (auto simp: entry_at_def stl_le_byte bit_simps)
qed

lemma marked_stl:
  assumes "entry_at m a e" and k: "\<And>n. bit k n \<Longrightarrow> bit (0x60 :: u8) n"
  shows "marked m (stl_le m a (ucast (e OR ucast (k :: u8))))"
proof -
  have "bit (stl_le m a (ucast (e OR ucast k)) x) n \<longleftrightarrow>
      bit (m x) n \<or> bit (stl_le m a (ucast (e OR ucast k)) x) n \<and> bit (0x60 :: u8) n" for x n
  proof (cases "unat (x - a) < 4 \<and> n < 8")
    case True
    define j where "j = unat (x - a)"
    with True have j: "j < 4" "n < 8" "x = a + of_nat j" by simp_all
    then have "8 * j + n < 32" "(8 * j + n) div 8 = j" "(8 * j + n) mod 8 = n" by auto
    then have e: "bit e (8 * j + n) = bit (m x) n"
      using assms(1) j(3) unfolding entry_at_def by (metis (no_types))
    have st: "bit (stl_le m a (ucast (e OR ucast k)) x) n \<longleftrightarrow> bit (m x) n \<or> bit k (8 * j + n)"
      using j(1,2) e by (auto simp: stl_le_byte bit_simps simp flip: j_def)
    have "bit k (8 * j + n) \<Longrightarrow> j = 0"
      using bit_imp_le_length [of k "8 * j + n"] by simp
    with k st show ?thesis by auto
  next
    case False
    then show ?thesis
      using bit_imp_le_length [of "m x" n]
        bit_imp_le_length [of "stl_le m a (ucast (e OR ucast k)) x" n]
      by (auto simp: stl_le_byte)
  qed
  then show ?thesis unfolding marked_bits by blast
qed

lemma bit_mark_bits:
  "bit (0x20 :: u8) n \<Longrightarrow> bit (0x60 :: u8) n" "bit (0x40 :: u8) n \<Longrightarrow> bit (0x60 :: u8) n"
  "bit (0x60 :: u8) n \<longleftrightarrow> n \<in> set [5, 6]" "bit (0x20 :: u8) n \<longleftrightarrow> n \<in> set [5]"
  "bit (0x40 :: u8) n \<longleftrightarrow> n \<in> set [6]"
proof -
  show *: "bit (0x60 :: u8) n \<longleftrightarrow> n \<in> set [5, 6]" "bit (0x20 :: u8) n \<longleftrightarrow> n \<in> set [5]"
    "bit (0x40 :: u8) n \<longleftrightarrow> n \<in> set [6]"
    by (rule bit_iff_listed, code_simp)+
  show "bit (0x20 :: u8) n \<Longrightarrow> bit (0x60 :: u8) n" "bit (0x40 :: u8) n \<Longrightarrow> bit (0x60 :: u8) n"
    unfolding * by simp_all
qed

lemmas keeps_marked_bind = keeps_bind [OF transp_marked]

text \<open>A second stage that itself only marks entries of its tables.\<close>

definition tame :: "hphys_func option \<Rightarrow> bool" where
  "tame hp \<longleftrightarrow> (\<forall>gpa acc pr m. keeps marked m (GET_HPHYS hp gpa acc pr m))"

lemma tame_None [simp]: "tame None"
  by (simp add: tame_def GET_HPHYS_def)

lemma keeps_GET_HPHYS: "tame hp \<Longrightarrow> keeps marked m (GET_HPHYS hp gpa acc pr m)"
  by (simp add: tame_def)

lemma keeps_pt_ldq: "tame hp \<Longrightarrow> keeps marked m (pt_ldq hp a m)"
  unfolding pt_ldq_def by (rule keeps_marked_bind [OF keeps_GET_HPHYS]) auto

lemma keeps_pt_ldl: "tame hp \<Longrightarrow> keeps marked m (pt_ldl hp a m)"
  unfolding pt_ldl_def by (rule keeps_marked_bind [OF keeps_GET_HPHYS]) auto

lemma keeps_pt_test: "keeps marked m (pt_test e rsvd m)"
  by (simp add: pt_test_def)

lemma keeps_pt_accessed: "entry_at m a e \<Longrightarrow> keeps marked m (pt_accessed a e m)"
  using marked_stl [where k = "0x20"] bit_mark_bits
  by (simp add: pt_accessed_def)

lemma pt_ldq_entry: "pt_ldq hp a m = Done (b, e) m' \<Longrightarrow> entry_at m' b e"
  by (auto simp: pt_ldq_def bind_outcome_Done_iff)

lemma pt_ldl_entry: "pt_ldl hp a m = Done (b, e) m' \<Longrightarrow> entry_at m' b (ucast e)"
  by (auto simp: pt_ldl_def bind_outcome_Done_iff)

lemma pt_test_Done: "pt_test e rsvd m = Done u m' \<longleftrightarrow> bit e 0 \<and> e AND rsvd = 0 \<and> m' = m"
  by (auto simp: pt_test_def)

lemma pt_accessed_entry:
  "entry_at m a e \<Longrightarrow> pt_accessed a e m = Done e' m' \<Longrightarrow> entry_at m' a e'"
  by (auto simp: pt_accessed_def entry_at_stl split: if_splits)

lemmas keeps_steps = keeps_pt_ldq keeps_pt_ldl keeps_pt_test keeps_pt_accessed
lemmas entry_steps = pt_ldq_entry pt_ldl_entry pt_accessed_entry pt_test_Done

lemma keeps_walk_pml5: "tame hp \<Longrightarrow> keeps marked m (walk_pml5 hp a rsvd la57 c addr m)"
  unfolding walk_pml5_def
  by (auto simp: entry_steps Let_def intro!: keeps_marked_bind keeps_steps dest!: pt_ldq_entry)

lemma keeps_walk_pml4: "tame hp \<Longrightarrow> keeps marked m (walk_pml4 hp a rsvd p5 ptep addr m)"
  unfolding walk_pml4_def
  by (auto simp: entry_steps Let_def intro!: keeps_marked_bind keeps_steps dest!: pt_ldq_entry)

lemma keeps_walk_pdpe: "tame hp \<Longrightarrow> keeps marked m (walk_pdpe hp a rsvd p4 ptep addr m)"
  unfolding walk_pdpe_def
  by (auto simp: entry_steps Let_def intro!: keeps_marked_bind keeps_steps dest!: pt_ldq_entry)

lemma keeps_walk_pdpe_pae: "tame hp \<Longrightarrow> keeps marked m (walk_pdpe_pae hp a rsvd c addr m)"
  unfolding walk_pdpe_pae_def
  by (auto simp: entry_steps Let_def intro!: keeps_marked_bind keeps_steps dest!: pt_ldq_entry)

lemma keeps_walk_pde: "tame hp \<Longrightarrow> keeps marked m (walk_pde hp a rsvd p3 ptep addr m)"
  unfolding walk_pde_def
  by (auto simp: entry_steps Let_def intro!: keeps_marked_bind keeps_steps dest!: pt_ldq_entry)

lemma keeps_walk_32bit: "tame hp \<Longrightarrow> keeps marked m (walk_32bit hp a pse c addr m)"
  unfolding walk_32bit_def
  by (auto simp: entry_steps Let_def intro!: keeps_marked_bind keeps_steps dest!: pt_ldl_entry)

lemma keeps_walk_long: "tame hp \<Longrightarrow> keeps marked m (walk_long hp a rsvd la57 c addr m)"
  unfolding walk_long_def
  by (auto intro!: keeps_marked_bind keeps_walk_pml5 keeps_walk_pml4 keeps_walk_pdpe
      keeps_walk_pde split: sum.split)

lemma keeps_mmu_walk: "tame hp \<Longrightarrow> keeps marked m (mmu_walk e hp c mode addr m)"
  unfolding mmu_walk_def Let_def
  by (auto intro!: keeps_marked_bind keeps_walk_long keeps_walk_pdpe_pae keeps_walk_pde
      keeps_walk_32bit)

lemma walk_pde_entry:
  "walk_pde hp a rsvd p3 ptep addr m = Done l m' \<Longrightarrow> entry_at m' (leaf_addr l) (leaf_pte l)"
  by (auto simp: walk_pde_def bind_outcome_Done_iff Let_def pt_test_Done dest!: pt_ldq_entry
      split: if_splits)

lemma walk_pdpe_entry:
  "walk_pdpe hp a rsvd p4 ptep addr m = Done (Inl l) m' \<Longrightarrow> entry_at m' (leaf_addr l) (leaf_pte l)"
  by (auto simp: walk_pdpe_def bind_outcome_Done_iff Let_def pt_test_Done
      dest!: pt_ldq_entry pt_accessed_entry [rotated] split: if_splits)

lemma pse36_low:
  assumes "n < 32"
  shows "bit (pse36_pte pde) n = bit pde n"
proof -
  have "(0x1fe000 :: u64) = push_bit 13 0xff" by (simp add: push_bit_eq_mult)
  then have "bit (0x1fe000 :: u64) k \<Longrightarrow> 13 \<le> k" for k by (simp only: bit_push_bit_iff)
  with assms show ?thesis
    by (auto simp only: pse36_pte_def bit_or_iff bit_push_bit_iff bit_and_iff) fastforce
qed

lemma walk_32bit_entry:
  "walk_32bit hp a pse c addr m = Done l m' \<Longrightarrow> entry_at m' (leaf_addr l) (leaf_pte l)"
  by (auto simp: walk_32bit_def bind_outcome_Done_iff Let_def pt_test_Done dest!: pt_ldl_entry
      intro: entry_at_low [OF _ pse36_low] split: if_splits)

lemma walk_long_entry:
  assumes "walk_long hp a rsvd la57 c addr m = Done l m'"
  shows "entry_at m' (leaf_addr l) (leaf_pte l)"
proof -
  obtain p4 ptep m1 r m2
    where r: "walk_pdpe hp a rsvd p4 ptep addr m1 = Done r m2"
      and l: "(case r of Inl l \<Rightarrow> Done l m2
               | Inr (p3, ptep) \<Rightarrow> walk_pde hp a rsvd p3 ptep addr m2) = Done l m'"
    using assms by (auto simp: walk_long_def bind_outcome_Done_iff)
  then show ?thesis
    by (cases r) (auto dest: walk_pdpe_entry walk_pde_entry)
qed

lemma mmu_walk_entry:
  "mmu_walk e hp c mode addr m = Done l m' \<Longrightarrow> entry_at m' (leaf_addr l) (leaf_pte l)"
  by (auto simp: mmu_walk_def bind_outcome_Done_iff Let_def
      dest: walk_pde_entry walk_long_entry walk_32bit_entry split: if_splits)

lemma keeps_mmu_check_protect: "keeps marked m (mmu_check_protect e w idx mode l m)"
  by (simp add: mmu_check_protect_def Let_def)

lemma mmu_check_protect_mem: "mmu_check_protect e w idx mode l m = Done pr m' \<Longrightarrow> m' = m"
  by (auto simp: mmu_check_protect_def Let_def split: if_splits)

lemma keeps_mmu_mark:
  assumes "entry_at m (leaf_addr l) (leaf_pte l)"
  shows "keeps marked m (mmu_mark w l pr m)"
  using marked_stl [OF assms, where k = "0x20"] marked_stl [OF assms, where k = "0x60"] bit_mark_bits
  by (simp add: mmu_mark_def Let_def or.assoc)

lemma keeps_mmu_finish: "tame hp \<Longrightarrow> keeps marked m (mmu_finish e addr hp w sz pte pr m)"
  by (auto simp: mmu_finish_def Let_def intro!: keeps_marked_bind keeps_GET_HPHYS)

lemma keeps_mmu_translate_ok:
  assumes "tame hp"
  shows "keeps marked m (mmu_translate_ok e addr hp c w idx mode m)"
  unfolding mmu_translate_ok_def
proof (intro keeps_marked_bind [OF keeps_mmu_walk [OF assms]] keeps_marked_bind
    [OF keeps_mmu_check_protect] keeps_marked_bind [OF keeps_mmu_mark])
  fix l m1 pr m2
  assume walk: "mmu_walk e hp c mode addr m = Done l m1"
    and check: "mmu_check_protect e w idx mode l m1 = Done pr m2"
  show "entry_at m2 (leaf_addr l) (leaf_pte l)"
    using mmu_walk_entry [OF walk] mmu_check_protect_mem [OF check] by simp
qed (auto intro: keeps_mmu_finish [OF assms])

lemma keeps_mmu_translate:
  "tame hp \<Longrightarrow> keeps marked m (mmu_translate e addr hp c w idx mode m)"
  using keeps_mmu_translate_ok [of hp m e addr c w idx mode]
  by (auto simp: mmu_translate_def split: outcome.split)

lemma tame_get_hphys [simp]: "tame (Some (get_hphys e))"
  unfolding tame_def GET_HPHYS_def get_hphys_def
  by (auto intro!: keeps_marked_bind keeps_mmu_translate split: sum.split)

end
