(* ===== verification/Page_Walk.thy ===== *)
theory Page_Walk
  imports MMU
begin

text \<open>
  What address translation promises: the size and the offset of the page it returns, the
  bits of its error codes, that the assertions in the translation code cannot fail, and for
  four-level long-mode paging the result itself, as a function of the entries on the path
  from the root table to the page.
\<close>

section \<open>The page returned\<close>

text \<open>No second stage, or one that is switched off: guest-physical addresses are final.\<close>

definition flat_stage :: "CPUX86State \<Rightarrow> hphys_func option \<Rightarrow> bool" where
  "flat_stage e hp \<longleftrightarrow> hp = None \<or> hp = Some (get_hphys e) \<and> \<not> bit (hflags2 e) HF2_NPT_SHIFT"

lemma flat_GET_HPHYS [simp]: "flat_stage e hp \<Longrightarrow> GET_HPHYS hp gpa acc pr m = Done (gpa, pr) m"
  by (auto simp: flat_stage_def GET_HPHYS_def get_hphys_def)

lemma flat_None [simp]: "flat_stage e None"
  by (simp add: flat_stage_def)

text \<open>The sizes are powers of two, with these exponents.\<close>

definition page_shifts :: "nat set" where
  "page_shifts = {12, 21, 22, 30}"

lemma leaf_sizes:
  "(0x1000 :: u64) = 2 ^ 12" "(0x200000 :: u64) = 2 ^ 21" "(0x400000 :: u64) = 2 ^ 22"
  "(0x40000000 :: u64) = 2 ^ 30"
  by simp_all

lemma walk_pde_size:
  "walk_pde hp a rsvd p3 ptep addr m = Done l m' \<Longrightarrow> \<exists>k\<in>page_shifts. leaf_size l = 2 ^ k"
  by (auto simp: walk_pde_def bind_outcome_Done_iff Let_def page_shifts_def split: if_splits)

lemma walk_pdpe_size:
  "walk_pdpe hp a rsvd p4 ptep addr m = Done (Inl l) m' \<Longrightarrow> \<exists>k\<in>page_shifts. leaf_size l = 2 ^ k"
  by (auto simp: walk_pdpe_def bind_outcome_Done_iff Let_def page_shifts_def split: if_splits)

lemma walk_32bit_size:
  "walk_32bit hp a pse c addr m = Done l m' \<Longrightarrow> \<exists>k\<in>page_shifts. leaf_size l = 2 ^ k"
  by (auto simp: walk_32bit_def bind_outcome_Done_iff Let_def page_shifts_def split: if_splits)

lemma walk_long_last:
  assumes "walk_long hp a rsvd la57 c addr m = Done l m'"
  obtains (huge) p4 ptep m1 where "walk_pdpe hp a rsvd p4 ptep addr m1 = Done (Inl l) m'"
  | (below) p3 ptep m1 where "walk_pde hp a rsvd p3 ptep addr m1 = Done l m'"
proof -
  obtain p4 ptep m1 r m2
    where r: "walk_pdpe hp a rsvd p4 ptep addr m1 = Done r m2"
      and l: "(case r of Inl l \<Rightarrow> Done l m2
               | Inr (p3, ptep) \<Rightarrow> walk_pde hp a rsvd p3 ptep addr m2) = Done l m'"
    using assms by (auto simp: walk_long_def bind_outcome_Done_iff)
  then show thesis
    using huge below by (cases r) auto
qed

lemma walk_long_size:
  "walk_long hp a rsvd la57 c addr m = Done l m' \<Longrightarrow> \<exists>k\<in>page_shifts. leaf_size l = 2 ^ k"
  by (erule walk_long_last) (erule walk_pdpe_size walk_pde_size)+

lemma mmu_walk_size:
  "mmu_walk e hp c mode addr m = Done l m' \<Longrightarrow> \<exists>k\<in>page_shifts. leaf_size l = 2 ^ k"
  by (auto simp: mmu_walk_def bind_outcome_Done_iff Let_def
      dest: walk_pde_size walk_long_size walk_32bit_size split: if_splits)

text \<open>
  The reserved bits every page of a format excludes. In the 32-bit format the entry itself is
  too short; a 4 MB page may reach 40 bits.
\<close>

lemma pse36_bits: "bit (pse36_pte (ucast (w :: u32))) n \<Longrightarrow> n < 40"
proof -
  have eq: "(0x1fe000 :: u64) = push_bit 13 (mask 8)"
    by (simp add: push_bit_eq_mult mask_eq_exp_minus_1)
  assume "bit (pse36_pte (ucast w)) n"
  then show ?thesis
    unfolding pse36_pte_def eq
    using bit_imp_le_length [of w n]
    by (auto simp only: bit_or_iff bit_push_bit_iff bit_and_iff bit_mask_iff bit_unsigned_iff) auto
qed

definition fits :: "nat \<Rightarrow> leaf \<Rightarrow> bool" where
  "fits n l \<longleftrightarrow> (leaf_pte l AND leaf_rsvd l = 0 \<longrightarrow>
     (\<forall>k. 12 \<le> k \<and> k < 52 \<and> bit (leaf_pte l) k \<longrightarrow> k < max 40 n))"

lemma fits_rsvd:
  assumes "\<And>k. 12 \<le> k \<Longrightarrow> k < 52 \<Longrightarrow> n \<le> k \<Longrightarrow> bit (leaf_rsvd l) k"
  shows "fits n l"
proof -
  have "k < n" if "leaf_pte l AND leaf_rsvd l = 0" "12 \<le> k" "k < 52" "bit (leaf_pte l) k" for k
  proof (rule ccontr)
    assume "\<not> k < n"
    then have "bit (leaf_pte l AND leaf_rsvd l) k"
      using that(2-4) assms by (simp add: bit_and_iff)
    then show False unfolding that(1) by simp
  qed
  then show ?thesis by (auto simp: fits_def less_max_iff_disj)
qed

lemma rsvd_bits:
  assumes "12 \<le> k" "k < 52" "n \<le> k"
  shows "bit ((PG_ADDRESS_MASK AND NOT (mask n)) OR x OR y) k"
proof -
  have eq: "PG_ADDRESS_MASK = push_bit 12 (mask 40)"
    by (simp add: push_bit_eq_mult mask_eq_exp_minus_1)
  show ?thesis
    using assms unfolding eq
    by (auto simp only: bit_or_iff bit_and_iff bit_not_iff bit_mask_iff bit_push_bit_iff
        possible_bit_word) simp_all
qed

lemma walk_pde_fits:
  assumes "walk_pde hp a rsvd p3 ptep addr m = Done l m'"
    and "\<And>k. 12 \<le> k \<Longrightarrow> k < 52 \<Longrightarrow> n \<le> k \<Longrightarrow> bit rsvd k"
  shows "fits n l"
  by (rule fits_rsvd)
     (use assms in \<open>auto simp: walk_pde_def bind_outcome_Done_iff Let_def bit_or_iff split: if_splits\<close>)

lemma walk_long_fits:
  assumes "walk_long hp a rsvd la57 c addr m = Done l m'"
    and rsvd: "\<And>k. 12 \<le> k \<Longrightarrow> k < 52 \<Longrightarrow> n \<le> k \<Longrightarrow> bit rsvd k"
  shows "fits n l"
  using assms(1)
proof (cases rule: walk_long_last)
  case (huge p4 ptep m1)
  then have "leaf_rsvd l = rsvd OR pt_size_rsvd 0x40000000"
    by (auto simp: walk_pdpe_def bind_outcome_Done_iff Let_def split: if_splits)
  then show ?thesis by (intro fits_rsvd) (simp add: bit_or_iff rsvd)
next
  case below
  then show ?thesis using rsvd by (rule walk_pde_fits)
qed

lemma walk_32bit_fits:
  assumes "walk_32bit hp a pse c addr m = Done l m'"
  shows "fits n l"
proof -
  have "bit w k \<Longrightarrow> k < 40" for w :: u32 and k
    using bit_imp_le_length [of w k] by simp
  then have "bit (leaf_pte l) k \<Longrightarrow> k < 40" for k
    using assms
    by (auto simp: walk_32bit_def bind_outcome_Done_iff Let_def bit_unsigned_iff
        dest: pse36_bits split: if_splits)
  then show ?thesis by (auto simp: fits_def less_max_iff_disj)
qed

lemma mmu_walk_fits:
  assumes "mmu_walk e hp c mode addr m = Done l m'"
  shows "fits (phys_bits e) l"
proof -
  let ?rsvd = "(PG_ADDRESS_MASK AND NOT (mask (phys_bits e)))
                 OR (if bit mode PG_MODE_NXE then 0 else PG_NX_MASK)"
  have rsvd: "bit ?rsvd k" "bit (?rsvd OR PG_HI_USER_MASK) k"
    if "12 \<le> k" "k < 52" "phys_bits e \<le> k" for k
    using rsvd_bits [OF that, of "if bit mode PG_MODE_NXE then 0 else PG_NX_MASK" 0]
      rsvd_bits [OF that, of "if bit mode PG_MODE_NXE then 0 else PG_NX_MASK" PG_HI_USER_MASK]
    by (simp_all only: or.right_neutral or.assoc)
  consider (long) "walk_long hp (a20 e) ?rsvd (bit mode PG_MODE_LA57) c addr m = Done l m'"
    | (pae) p3 ptep m1
      where "walk_pde hp (a20 e) (?rsvd OR PG_HI_USER_MASK) p3 ptep addr m1 = Done l m'"
    | (legacy) "walk_32bit hp (a20 e) (bit mode PG_MODE_PSE) c addr m = Done l m'"
    using assms unfolding mmu_walk_def Let_def
    by (cases "bit mode PG_MODE_PAE"; cases "bit mode PG_MODE_LMA")
       (auto simp only: if_True if_False bind_outcome_Done_iff case_prod_beta)
  then show ?thesis
  proof cases
    case long
    then show ?thesis using rsvd(1) by (rule walk_long_fits)
  next
    case pae
    then show ?thesis using rsvd(2) by (rule walk_pde_fits)
  next
    case legacy
    then show ?thesis by (rule walk_32bit_fits)
  qed
qed

text \<open>The entry after marking, and the protection without the right to write a clean page.\<close>

definition marked_pte :: "nat \<Rightarrow> u64 \<Rightarrow> u64" where
  "marked_pte w pte = pte OR PG_ACCESSED_MASK OR
     (if odd w \<and> \<not> bit pte PG_DIRTY_BIT then PG_DIRTY_MASK else 0)"

definition clean_prot :: "u64 \<Rightarrow> u32 \<Rightarrow> u32" where
  "clean_prot pte pr = (if bit pte PG_DIRTY_BIT then pr else pr AND NOT PAGE_WRITE)"

lemma mmu_mark_Done:
  "\<exists>m'. mmu_mark w l pr m = Done (marked_pte w (leaf_pte l), clean_prot (marked_pte w (leaf_pte l)) pr) m'"
  by (simp add: mmu_mark_def Let_def marked_pte_def clean_prot_def)

lemma mmu_translate_Inr:
  assumes "mmu_translate e addr hp c w idx mode m = Done (Inr (x, sz, pr)) m'"
    and "flat_stage e hp"
  obtains l m1 pr1 where "mmu_walk e hp c mode addr m = Done l m1"
    and "mmu_check_protect e w idx mode l m1 = Done pr1 m1"
    and "sz = leaf_size l"
    and "x = (marked_pte w (leaf_pte l) AND a20 e AND PG_ADDRESS_MASK AND NOT (sz - 1))
              + (addr AND (sz - 1))"
    and "pr = clean_prot (marked_pte w (leaf_pte l)) pr1"
proof -
  have "mmu_translate_ok e addr hp c w idx mode m = Done (x, sz, pr) m'"
    using assms(1) by (auto simp: mmu_translate_def split: outcome.splits)
  then obtain l m1 pr1 m2 where *: "mmu_walk e hp c mode addr m = Done l m1"
    "mmu_check_protect e w idx mode l m1 = Done pr1 m2"
    "bind_outcome (mmu_mark w l pr1 m2) (\<lambda>(pte, pr). mmu_finish e addr hp w (leaf_size l) pte pr)
       = Done (x, sz, pr) m'"
    by (auto simp: mmu_translate_ok_def bind_outcome_Done_iff)
  moreover from * have "m2 = m1" by (blast dest: mmu_check_protect_mem)
  ultimately show thesis
    using mmu_mark_Done [of w l pr1 m2] assms(2) that by (auto simp: mmu_finish_def Let_def)
qed

lemma disjoint_add:
  fixes v w :: "'a::len word"
  shows "(v AND NOT msk) + (w AND msk) = (v AND NOT msk) OR (w AND msk)"
  by (rule disjunctive_add) (simp add: bit_simps)

lemma unat_less_exp:
  fixes x :: u64
  assumes "\<And>n. bit x n \<Longrightarrow> n < k"
  shows "unat x < 2 ^ k"
proof -
  have "take_bit k x = x"
    by (rule bit_word_eqI) (use assms in \<open>auto simp: bit_take_bit_iff\<close>)
  then have "unat x = take_bit k (unat x)" by (metis unsigned_take_bit_eq)
  also have "\<dots> < 2 ^ k" by (rule take_bit_nat_less_exp)
  finally show ?thesis .
qed

lemma marked_pte_high: "12 \<le> n \<Longrightarrow> bit (marked_pte w pte) n = bit pte n"
proof -
  have "(0x20 :: u64) = 2 ^ 5" "(0x40 :: u64) = 2 ^ 6" by simp_all
  then show "12 \<le> n \<Longrightarrow> ?thesis"
    by (auto simp only: marked_pte_def bit_or_iff mask_simps bit_0_eq bot_apply bot_bool_def
        split: if_splits)
qed


section \<open>The access is granted\<close>

lemma check_protect_grants:
  "mmu_check_protect e w idx mode l m = Done pr m' \<Longrightarrow> bit pr w"
  by (auto simp: mmu_check_protect_def Let_def split: if_splits)

lemma clean_prot_grants:
  assumes "bit pr w" "w < 3"
  shows "bit (clean_prot (marked_pte w pte) pr) w"
proof -
  have dirty: "PG_DIRTY_MASK = 2 ^ 6" by simp
  have "bit (marked_pte w pte) PG_DIRTY_BIT" if "w = 1"
    using that unfolding marked_pte_def dirty bit_or_iff by (simp add: mask_simps)
  moreover have "w = 0 \<or> w = 1 \<or> w = 2" using assms(2) by auto
  ultimately show ?thesis
    using assms(1) by (auto simp: clean_prot_def bit_and_iff bit_not_iff)
qed

text \<open>A second stage that keeps the access it is asked about in the protection word.\<close>

definition granting :: "hphys_func option \<Rightarrow> bool" where
  "granting hp \<longleftrightarrow> (\<forall>gpa w p m x pr' m'. w < 3 \<longrightarrow> bit p w \<longrightarrow>
     GET_HPHYS hp gpa w (Some p) m = Done (x, pr') m' \<longrightarrow> (\<exists>q. pr' = Some q \<and> bit q w))"

lemma translate_grants:
  assumes "mmu_translate e addr hp c w idx mode m = Done (Inr (x, sz, pr)) m'"
    and "w < 3" and "granting hp"
  shows "bit pr w"
proof -
  have "mmu_translate_ok e addr hp c w idx mode m = Done (x, sz, pr) m'"
    using assms(1) by (auto simp: mmu_translate_def split: outcome.splits)
  then obtain l m1 pr1 m2 where *: "mmu_check_protect e w idx mode l m1 = Done pr1 m2"
    "bind_outcome (mmu_mark w l pr1 m2) (\<lambda>(pte, pr). mmu_finish e addr hp w (leaf_size l) pte pr)
       = Done (x, sz, pr) m'"
    by (auto simp: mmu_translate_ok_def bind_outcome_Done_iff)
  let ?p = "clean_prot (marked_pte w (leaf_pte l)) pr1"
  have "bit ?p w" using clean_prot_grants [OF check_protect_grants [OF *(1)] assms(2)] .
  moreover obtain m3 where "mmu_finish e addr hp w (leaf_size l) (marked_pte w (leaf_pte l)) ?p m3
      = Done (x, sz, pr) m'"
    using mmu_mark_Done [of w l pr1 m2] *(2) by auto
  ultimately show ?thesis
    using assms(2,3) by (fastforce simp: mmu_finish_def Let_def bind_outcome_Done_iff granting_def)
qed

lemma granting_None [simp]: "granting None"
  by (simp add: granting_def GET_HPHYS_def)

lemma granting_get_hphys [simp]: "granting (Some (get_hphys e))"
proof -
  have "bit next_prot w"
    if "mmu_translate e gpa None (nested_cr3 e) w MMU_USER_IDX (nested_pg_mode e) m =
        Done (Inr (x, sz, next_prot)) m'" "w < 3" for gpa w m x sz next_prot m'
    using translate_grants [OF that granting_None] .
  then show ?thesis
    by (auto simp: granting_def GET_HPHYS_def get_hphys_def bind_outcome_Done_iff bit_and_iff
        split: if_splits sum.split_asm)
qed

text \<open>
  Whenever the translation of a load, a store or an instruction fetch succeeds, with or
  without nested paging, the protection it returns allows that access: the assertion
  \<^verbatim>\<open>prot & (1 << is_write1)\<close> of \<^verbatim>\<open>handle_mmu_fault\<close> cannot fail.
\<close>

theorem mmu_translate_assertion:
  assumes "mmu_translate e addr (Some (get_hphys e)) c w idx mode m = Done (Inr (x, sz, pr)) m'"
    and "w < 3"
  shows "bit pr w"
  using assms by (rule translate_grants) simp

section \<open>Error codes\<close>

text \<open>The codes the jumps to the end of the function carry.\<close>

definition jump_codes :: "u32 set" where
  "jump_codes = {0, PG_ERROR_P_MASK, PG_ERROR_RSVD_MASK OR PG_ERROR_P_MASK,
                 PG_ERROR_PK_MASK OR PG_ERROR_P_MASK}"

primrec jumps :: "('v, mem) outcome \<Rightarrow> bool" where
  "jumps (Done x m) = True"
| "jumps (Raise n c m) = (c \<in> jump_codes)"
| "jumps (Vmexit c i m) = True"
| "jumps Undefined = True"

lemma jumps_bind: "jumps r \<Longrightarrow> (\<And>x t. jumps (f x t)) \<Longrightarrow> jumps (bind_outcome r f)"
  by (cases r) auto

text \<open>A second stage never raises a page fault: it returns or leaves the guest.\<close>

definition silent :: "hphys_func option \<Rightarrow> bool" where
  "silent hp \<longleftrightarrow> (\<forall>gpa w p m n c t. GET_HPHYS hp gpa w p m \<noteq> Raise n c t)"

lemma silent_None [simp]: "silent None"
  by (simp add: silent_def GET_HPHYS_def)

lemma mmu_translate_no_Raise: "mmu_translate e addr hp c w idx mode m \<noteq> Raise n code t"
  by (simp add: mmu_translate_def split: outcome.split)

lemma silent_get_hphys [simp]: "silent (Some (get_hphys e))"
  by (auto simp: silent_def GET_HPHYS_def get_hphys_def bind_outcome_Raise_iff
      mmu_translate_no_Raise split: sum.split_asm)

lemma jumps_GET_HPHYS: "silent hp \<Longrightarrow> jumps (GET_HPHYS hp gpa w p m)"
  by (cases "GET_HPHYS hp gpa w p m") (auto simp: silent_def)

lemma jumps_steps:
  "silent hp \<Longrightarrow> jumps (pt_ldq hp a m)" "silent hp \<Longrightarrow> jumps (pt_ldl hp a m)"
  "jumps (pt_test e rsvd m)" "jumps (pt_accessed a e m)" "jumps (mmu_mark w l pr m)"
  "jumps (mmu_check_protect e' w idx mode l m)"
  "silent hp \<Longrightarrow> jumps (mmu_finish e' addr hp w sz pte pr m)"
  by (auto simp: pt_ldq_def pt_ldl_def pt_test_def pt_accessed_def mmu_mark_def mmu_finish_def
      mmu_check_protect_def jump_codes_def Let_def intro!: jumps_bind jumps_GET_HPHYS)

lemma jumps_walk_pde: "silent hp \<Longrightarrow> jumps (walk_pde hp a rsvd p3 ptep addr m)"
  unfolding walk_pde_def Let_def by (auto intro!: jumps_bind jumps_steps)

lemma jumps_walk_pdpe:
  "silent hp \<Longrightarrow> jumps (walk_pdpe hp a rsvd p4 ptep addr m)"
  "silent hp \<Longrightarrow> jumps (walk_pdpe_pae hp a rsvd c addr m)"
  unfolding walk_pdpe_def walk_pdpe_pae_def Let_def by (auto intro!: jumps_bind jumps_steps)

lemma jumps_walk_top:
  "silent hp \<Longrightarrow> jumps (walk_pml4 hp a rsvd p5 ptep addr m)"
  "silent hp \<Longrightarrow> jumps (walk_pml5 hp a rsvd la57 c addr m)"
  unfolding walk_pml4_def walk_pml5_def by (auto intro!: jumps_bind jumps_steps)

lemma jumps_walk_long: "silent hp \<Longrightarrow> jumps (walk_long hp a rsvd la57 c addr m)"
  unfolding walk_long_def
  by (auto intro!: jumps_bind jumps_walk_top jumps_walk_pdpe jumps_walk_pde split: sum.split)

lemma jumps_walk_32bit: "silent hp \<Longrightarrow> jumps (walk_32bit hp a pse c addr m)"
  unfolding walk_32bit_def Let_def by (auto intro!: jumps_bind jumps_steps)

lemma jumps_mmu_walk: "silent hp \<Longrightarrow> jumps (mmu_walk e hp c mode addr m)"
  unfolding mmu_walk_def Let_def
  by (auto intro!: jumps_bind jumps_walk_long jumps_walk_pdpe jumps_walk_pde jumps_walk_32bit)

lemma jumps_translate: "silent hp \<Longrightarrow> jumps (mmu_translate_ok e addr hp c w idx mode m)"
  unfolding mmu_translate_ok_def
  by (auto intro!: jumps_bind jumps_mmu_walk jumps_steps)

lemma mmu_error_bits:
  assumes "code \<in> jump_codes"
  shows "bit (mmu_error_code w idx mode code) 0 = bit code 0"
    and "bit (mmu_error_code w idx mode code) 1 = odd w"
    and "bit (mmu_error_code w idx mode code) 2 \<longleftrightarrow> idx = MMU_USER_IDX"
    and "bit (mmu_error_code w idx mode code) 3 = bit code 3"
    and "bit (mmu_error_code w idx mode code) 4 \<longleftrightarrow>
      w = MMU_INST_FETCH \<and> (bit mode PG_MODE_NXE \<or> bit mode PG_MODE_SMEP)"
    and "bit (mmu_error_code w idx mode code) 5 = bit code 5"
  using assms unfolding jump_codes_def mmu_error_code_def
  by (auto simp: bit_or_iff bit_simps)


section \<open>Memory after a translation\<close>


section \<open>Four-level paging\<close>

text \<open>
  The entries from the root table to the page or to the first entry that is not present. The
  bit that ends the path early is the page-size bit, in the second and third table.
\<close>

fun pt_path :: "mem \<Rightarrow> u64 \<Rightarrow> u64 \<Rightarrow> u64 \<Rightarrow> nat list \<Rightarrow> u64 list" where
  "pt_path m a20m addr table [] = []"
| "pt_path m a20m addr table (n # ns) =
     (let e = ldq_le m (pt_slot a20m table n addr)
      in e # (if bit e PG_PRESENT_BIT \<and> \<not> (bit e PG_PSE_BIT \<and> n \<in> {30, 21})
              then pt_path m a20m addr (e AND PG_ADDRESS_MASK) ns else []))"

text \<open>The rights of a path are those every entry grants.\<close>

definition path_allows :: "u64 list \<Rightarrow> nat \<Rightarrow> nat \<Rightarrow> u32 \<Rightarrow> bool" where
  "path_allows es w idx mode \<longleftrightarrow>
     (let user = (\<forall>e\<in>set es. bit e PG_USER_BIT);
          writable = (\<forall>e\<in>set es. bit e PG_RW_BIT);
          executable = (\<forall>e\<in>set es. \<not> bit e PG_NX_BIT)
      in (idx = MMU_USER_IDX \<longrightarrow> user) \<and>
         (if w = MMU_INST_FETCH
          then executable \<and> (idx = MMU_USER_IDX \<or> \<not> (bit mode PG_MODE_SMEP \<and> user))
          else (idx \<noteq> MMU_KSMAP_IDX \<or> \<not> user) \<and>
               (w = MMU_DATA_STORE \<longrightarrow>
                 writable \<or> idx \<noteq> MMU_USER_IDX \<and> \<not> bit mode PG_MODE_WP)))"

definition path_size :: "u64 list \<Rightarrow> u64" where
  "path_size es = (if length es = 2 then 2 ^ 30 else if length es = 3 then 2 ^ 21 else 2 ^ 12)"

text \<open>
  Entries a system keeps for pages in use: accessed already, dirty if they are to be written,
  and no reserved bits.
\<close>

definition settled :: "CPUX86State \<Rightarrow> u32 \<Rightarrow> nat \<Rightarrow> u64 list \<Rightarrow> bool" where
  "settled e mode w es \<longleftrightarrow>
     (\<forall>x\<in>set es. bit x PG_PRESENT_BIT \<longrightarrow> bit x PG_ACCESSED_BIT \<and>
        x AND (PG_ADDRESS_MASK AND NOT (mask (phys_bits e))) = 0 \<and>
        (bit mode PG_MODE_NXE \<or> \<not> bit x PG_NX_BIT)) \<and>
     (bit (hd es) PG_PRESENT_BIT \<longrightarrow> \<not> bit (hd es) PG_PSE_BIT) \<and>
     (bit (last es) PG_PRESENT_BIT \<longrightarrow> last es AND pt_size_rsvd (path_size es) = 0 \<and>
        (w = MMU_DATA_STORE \<longrightarrow> bit (last es) PG_DIRTY_BIT))"

definition path_rights :: "u64 list \<Rightarrow> u64" where
  "path_rights es = fold (\<lambda>e p. p AND (e XOR PG_NX_MASK)) es PG_ALL_RIGHTS"

lemma bit_fold_rights:
  "bit (fold (\<lambda>e p. p AND (e XOR PG_NX_MASK)) es q) n \<longleftrightarrow>
     bit q n \<and> (\<forall>e\<in>set es. bit (e XOR PG_NX_MASK) n)"
  by (induction es arbitrary: q) (auto simp: bit_and_iff)

lemma bit_PG_NX_MASK: "bit PG_NX_MASK n \<longleftrightarrow> n = 63"
proof -
  have "PG_NX_MASK = 2 ^ 63" by simp
  then show ?thesis by (simp only: mask_simps) simp
qed

lemma bit_PG_ALL_RIGHTS: "bit PG_ALL_RIGHTS 1" "bit PG_ALL_RIGHTS 2" "bit PG_ALL_RIGHTS 63"
  by simp_all

lemma path_rights_bits:
  "bit (path_rights es XOR PG_NX_MASK) PG_RW_BIT \<longleftrightarrow> (\<forall>e\<in>set es. bit e PG_RW_BIT)"
  "bit (path_rights es XOR PG_NX_MASK) PG_USER_BIT \<longleftrightarrow> (\<forall>e\<in>set es. bit e PG_USER_BIT)"
  "bit (path_rights es XOR PG_NX_MASK) PG_NX_BIT \<longleftrightarrow> \<not> (\<forall>e\<in>set es. \<not> bit e PG_NX_BIT)"
  unfolding path_rights_def
  by (auto simp only: bit_xor_iff bit_PG_NX_MASK bit_fold_rights bit_PG_ALL_RIGHTS)

lemma page_prot_bits:
  "bit (page_prot idx mode ptep) 0 \<longleftrightarrow> idx \<noteq> MMU_KSMAP_IDX \<or> \<not> bit ptep PG_USER_BIT"
  "bit (page_prot idx mode ptep) 1 \<longleftrightarrow> (idx \<noteq> MMU_KSMAP_IDX \<or> \<not> bit ptep PG_USER_BIT) \<and>
     (bit ptep PG_RW_BIT \<or> \<not> (idx = MMU_USER_IDX \<or> bit mode PG_MODE_WP))"
  "bit (page_prot idx mode ptep) 2 \<longleftrightarrow> \<not> bit ptep PG_NX_BIT \<and>
     (idx = MMU_USER_IDX \<or> \<not> (bit mode PG_MODE_SMEP \<and> bit ptep PG_USER_BIT))"
  by (simp_all add: page_prot_def bit_or_iff)

text \<open>One level of a settled path.\<close>

lemma pt_ldq_flat: "flat_stage e hp \<Longrightarrow> pt_ldq hp a m = Done (a, ldq_le m a) m"
  by (simp add: pt_ldq_def)

lemma pt_test_present:
  "\<not> bit x 0 \<Longrightarrow> pt_test x r m = Raise EXCP0E_PAGE 0 m"
  "bit x 0 \<Longrightarrow> x AND r = 0 \<Longrightarrow> pt_test x r m = Done () m"
  by (simp_all add: pt_test_def)

lemma pt_accessed_set: "bit x PG_ACCESSED_BIT \<Longrightarrow> pt_accessed a x m = Done x m"
  by (simp add: pt_accessed_def)

lemma and_or_zero: "x AND (r OR s) = 0 \<longleftrightarrow> x AND r = 0 \<and> x AND s = 0" for x r s :: "'a::len word"
proof -
  have "x AND (r OR s) = 0 \<longleftrightarrow> \<not> (\<exists>n. bit (x AND (r OR s)) n)" by (metis word_neq_0_bit)
  also have "\<dots> \<longleftrightarrow> \<not> (\<exists>n. bit (x AND r) n) \<and> \<not> (\<exists>n. bit (x AND s) n)"
    unfolding bit_and_iff bit_or_iff by blast
  also have "\<dots> \<longleftrightarrow> x AND r = 0 \<and> x AND s = 0" by (metis word_neq_0_bit)
  finally show ?thesis .
qed

lemma and_PSE_zero: "x AND PG_PSE_MASK = 0 \<longleftrightarrow> \<not> bit x PG_PSE_BIT" for x :: u64
  by (rule and_mask_test) simp

lemma and_NX_zero: "x AND PG_NX_MASK = 0 \<longleftrightarrow> \<not> bit x PG_NX_BIT" for x :: u64
  by (rule and_mask_test) simp

lemmas settled_step = pt_ldq_flat pt_test_present pt_accessed_set and_or_zero and_PSE_zero

definition walk_rsvd :: "CPUX86State \<Rightarrow> u32 \<Rightarrow> u64" where
  "walk_rsvd e mode = (PG_ADDRESS_MASK AND NOT (mask (phys_bits e)))
     OR (if bit mode PG_MODE_NXE then 0 else PG_NX_MASK)"

lemma settled_rsvd:
  "settled e mode w es \<Longrightarrow> x \<in> set es \<Longrightarrow> bit x PG_PRESENT_BIT \<Longrightarrow>
     x AND walk_rsvd e mode = 0 \<and> bit x PG_ACCESSED_BIT"
  unfolding settled_def walk_rsvd_def and_or_zero by (auto simp: and_NX_zero)

lemma walk_pde_settled:
  assumes flat: "flat_stage e hp"
    and xs: "xs = pt_path m a addr (p3 AND PG_ADDRESS_MASK) [21, 12]"
    and ok: "\<And>x. x \<in> set xs \<Longrightarrow> bit x 0 \<Longrightarrow> x AND rsvd = 0 \<and> bit x PG_ACCESSED_BIT"
  shows "\<exists>b. walk_pde hp a rsvd p3 ptep addr m =
    (if \<exists>x\<in>set xs. \<not> bit x 0 then Raise EXCP0E_PAGE 0 m
     else Done \<lparr>leaf_ptep = fold (\<lambda>e p. p AND (e XOR PG_NX_MASK)) xs ptep, leaf_pte = last xs,
                leaf_addr = b, leaf_size = (if length xs = 1 then 2 ^ 21 else 2 ^ 12),
                leaf_rsvd = rsvd OR pt_size_rsvd (if length xs = 1 then 2 ^ 21 else 2 ^ 12)\<rparr> m)"
proof -
  define e2 where "e2 = ldq_le m (pt_slot a (p3 AND PG_ADDRESS_MASK) 21 addr)"
  define e1 where "e1 = ldq_le m (pt_slot a (e2 AND PG_ADDRESS_MASK) 12 addr)"
  note step = walk_pde_def Let_def e2_def [symmetric] e1_def [symmetric] pt_ldq_flat [OF flat]
    pt_test_present pt_accessed_set
  have xs': "xs = e2 # (if bit e2 0 \<and> \<not> bit e2 7 then [e1] else [])"
    by (simp add: xs Let_def e2_def e1_def)
  have ok2: "bit e2 0 \<Longrightarrow> e2 AND rsvd = 0 \<and> bit e2 5" by (rule ok) (simp add: xs')
  have ok1: "bit e2 0 \<Longrightarrow> \<not> bit e2 7 \<Longrightarrow> bit e1 0 \<Longrightarrow> e1 AND rsvd = 0"
    using ok [of e1] by (simp add: xs')
  show ?thesis
    by (cases "bit e2 0"; cases "bit e2 7"; cases "bit e1 0") (use ok1 ok2 in \<open>simp_all add: step xs'\<close>)
qed

lemma walk_pdpe_settled:
  assumes flat: "flat_stage e hp"
    and xs: "xs = pt_path m a addr (p4 AND PG_ADDRESS_MASK) [30, 21, 12]"
    and ok: "\<And>x. x \<in> set xs \<Longrightarrow> bit x 0 \<Longrightarrow> x AND rsvd = 0 \<and> bit x PG_ACCESSED_BIT"
  shows "\<exists>b. bind_outcome (walk_pdpe hp a rsvd p4 ptep addr m) (\<lambda>r m. case r of Inl l \<Rightarrow> Done l m
           | Inr (pdpe, ptep) \<Rightarrow> walk_pde hp a rsvd pdpe ptep addr m) =
    (if \<exists>x\<in>set xs. \<not> bit x 0 then Raise EXCP0E_PAGE 0 m
     else Done \<lparr>leaf_ptep = fold (\<lambda>e p. p AND (e XOR PG_NX_MASK)) xs ptep, leaf_pte = last xs,
                leaf_addr = b, leaf_size = path_size (p4 # xs),
                leaf_rsvd = rsvd OR pt_size_rsvd (path_size (p4 # xs))\<rparr> m)"
proof -
  define e3 where "e3 = ldq_le m (pt_slot a (p4 AND PG_ADDRESS_MASK) 30 addr)"
  define ys where "ys = pt_path m a addr (e3 AND PG_ADDRESS_MASK) [21, 12]"
  note step = walk_pdpe_def Let_def e3_def [symmetric] pt_ldq_flat [OF flat]
    pt_test_present pt_accessed_set
  have xs': "xs = e3 # (if bit e3 0 \<and> \<not> bit e3 7 then ys else [])"
    unfolding xs ys_def e3_def by (simp only: pt_path.simps(2) Let_def) simp
  have ok3: "bit e3 0 \<Longrightarrow> e3 AND rsvd = 0 \<and> bit e3 5" by (rule ok) (simp add: xs')
  consider "\<not> bit e3 0" | "bit e3 0" "bit e3 7" | "bit e3 0" "\<not> bit e3 7" by blast
  then show ?thesis
  proof cases
    case 3
    have "length ys = 1 \<or> length ys = 2" by (simp add: ys_def Let_def)
    moreover have "ys \<noteq> []" by (simp add: ys_def Let_def)
    ultimately show ?thesis
      using 3 ok3 walk_pde_settled [OF flat ys_def, of rsvd "ptep AND (e3 XOR PG_NX_MASK)"] ok
      by (auto simp: step xs' path_size_def)
  qed (use ok3 in \<open>simp_all add: step xs' path_size_def\<close>)
qed

lemma walk_long_settled:
  assumes flat: "flat_stage e hp"
    and es: "es = pt_path m a addr (c AND PG_ADDRESS_MASK) [39, 30, 21, 12]"
    and settled: "settled e mode w es"
  shows "\<exists>b. walk_long hp a (walk_rsvd e mode) False c addr m =
    (if \<exists>x\<in>set es. \<not> bit x PG_PRESENT_BIT then Raise EXCP0E_PAGE 0 m
     else Done \<lparr>leaf_ptep = path_rights es, leaf_pte = last es, leaf_addr = b,
                leaf_size = path_size es,
                leaf_rsvd = walk_rsvd e mode OR pt_size_rsvd (path_size es)\<rparr> m)"
proof -
  define e4 where "e4 = ldq_le m (pt_slot a (c AND PG_ADDRESS_MASK) 39 addr)"
  define xs where "xs = pt_path m a addr (e4 AND PG_ADDRESS_MASK) [30, 21, 12]"
  note ok = settled_rsvd [OF settled]
  have es': "es = e4 # (if bit e4 0 then xs else [])"
    unfolding es xs_def e4_def by (simp only: pt_path.simps(2) Let_def) simp
  have no_pse: "bit e4 0 \<Longrightarrow> \<not> bit e4 7"
    using settled by (simp add: settled_def es')
  have "xs \<noteq> []" by (simp add: xs_def Let_def)
  note step = walk_long_def walk_pml5_def walk_pml4_def e4_def [symmetric] pt_ldq_flat [OF flat]
    pt_test_present and_or_zero and_PSE_zero pt_accessed_set
  show ?thesis
  proof (cases "bit e4 0")
    case False
    then show ?thesis by (simp add: step es')
  next
    case True
    then have "e4 AND walk_rsvd e mode = 0 \<and> bit e4 5" by (intro ok) (simp add: es')
    then show ?thesis
      using True no_pse \<open>xs \<noteq> []\<close> ok
        walk_pdpe_settled [OF flat xs_def, of "walk_rsvd e mode" "PG_ALL_RIGHTS AND (e4 XOR PG_NX_MASK)"]
      by (auto simp: step es' path_rights_def)
  qed
qed

lemma mmu_mark_settled:
  assumes "bit (leaf_pte l) PG_ACCESSED_BIT" and "odd w \<Longrightarrow> bit (leaf_pte l) PG_DIRTY_BIT"
  shows "mmu_mark w l pr m = Done (leaf_pte l, clean_prot (leaf_pte l) pr) m"
proof -
  have "PG_ACCESSED_MASK = 2 ^ 5" by simp
  then have "leaf_pte l OR PG_ACCESSED_MASK = leaf_pte l"
    using assms(1) by (intro bit_word_eqI) (auto simp only: bit_or_iff mask_simps)
  then show ?thesis
    using assms by (auto simp: mmu_mark_def clean_prot_def Let_def)
qed

lemma check_protect_settled:
  assumes keys: "\<not> bit mode PG_MODE_PKE" "\<not> bit mode PG_MODE_PKS" and w: "w < 3"
    and l: "leaf_ptep l = path_rights es" "leaf_pte l AND leaf_rsvd l = 0"
  shows "mmu_check_protect e w idx mode l m =
    (if path_allows es w idx mode then Done (page_prot idx mode (path_rights es XOR PG_NX_MASK)) m
     else Raise EXCP0E_PAGE PG_ERROR_P_MASK m)"
proof -
  have cases: "w = 0 \<or> w = 1 \<or> w = 2" using w by auto
  have "path_allows es w idx mode \<longleftrightarrow>
      (idx = MMU_USER_IDX \<longrightarrow> bit (path_rights es XOR PG_NX_MASK) PG_USER_BIT) \<and>
      bit (page_prot idx mode (path_rights es XOR PG_NX_MASK)) w"
    using cases by (auto simp only: path_allows_def Let_def page_prot_bits path_rights_bits) auto
  then show ?thesis
    using keys by (auto simp only: mmu_check_protect_def Let_def l if_False if_True if_cancel
        simp_thms split: if_split)
qed

lemma translate_settled:
  assumes npt: "\<not> bit (hflags2 e) HF2_NPT_SHIFT"
    and mode: "bit mode PG_MODE_PAE" "bit mode PG_MODE_LMA" "\<not> bit mode PG_MODE_LA57"
      "\<not> bit mode PG_MODE_PKE" "\<not> bit mode PG_MODE_PKS"
    and w: "w < 3"
    and es: "es = pt_path m (a20 e) addr (c AND PG_ADDRESS_MASK) [39, 30, 21, 12]"
    and settled: "settled e mode w es"
  shows "mmu_translate e addr (Some (get_hphys e)) c w idx mode m =
    Done (if \<exists>x\<in>set es. \<not> bit x PG_PRESENT_BIT then Inl (mmu_error_code w idx mode 0)
          else if path_allows es w idx mode
          then Inr ((last es AND a20 e AND PG_ADDRESS_MASK AND NOT (path_size es - 1))
                      + (addr AND (path_size es - 1)), path_size es,
                    clean_prot (last es) (page_prot idx mode (path_rights es XOR PG_NX_MASK)))
          else Inl (mmu_error_code w idx mode PG_ERROR_P_MASK)) m"
proof -
  have flat: "flat_stage e (Some (get_hphys e))" using npt by (simp add: flat_stage_def)
  obtain b where walk: "mmu_walk e (Some (get_hphys e)) c mode addr m =
    (if \<exists>x\<in>set es. \<not> bit x PG_PRESENT_BIT then Raise EXCP0E_PAGE 0 m
     else Done \<lparr>leaf_ptep = path_rights es, leaf_pte = last es, leaf_addr = b,
                leaf_size = path_size es,
                leaf_rsvd = walk_rsvd e mode OR pt_size_rsvd (path_size es)\<rparr> m)"
    using walk_long_settled [OF flat es settled] mode(1-3)
    by (simp only: mmu_walk_def Let_def if_True walk_rsvd_def) blast
  have "es \<noteq> []" by (simp add: es Let_def)
  show ?thesis
  proof (cases "\<exists>x\<in>set es. \<not> bit x PG_PRESENT_BIT")
    case True
    then show ?thesis
      by (simp only: mmu_translate_def mmu_translate_ok_def walk if_True) simp
  next
    case False
    let ?l = "\<lparr>leaf_ptep = path_rights es, leaf_pte = last es, leaf_addr = b,
               leaf_size = path_size es,
               leaf_rsvd = walk_rsvd e mode OR pt_size_rsvd (path_size es)\<rparr>"
    have last: "last es \<in> set es" "bit (last es) 0" using \<open>es \<noteq> []\<close> False by auto
    then have "last es AND walk_rsvd e mode = 0 \<and> bit (last es) PG_ACCESSED_BIT"
      using settled_rsvd [OF settled] by blast
    moreover have "last es AND pt_size_rsvd (path_size es) = 0" "odd w \<Longrightarrow> bit (last es) 6"
      using settled last(2) w by (auto simp: settled_def elim!: oddE)
    ultimately have check: "leaf_pte ?l AND leaf_rsvd ?l = 0"
      and mark: "mmu_mark w ?l pr m = Done (last es, clean_prot (last es) pr) m" for pr
      by (simp_all add: and_or_zero mmu_mark_settled)
    show ?thesis
      using False flat
      by (simp only: mmu_translate_def mmu_translate_ok_def walk if_False bind_outcome.simps
          check_protect_settled [OF mode(4,5) w _ check, of es e idx m] leaf.simps)
         (auto simp: mark mmu_finish_def)
  qed
qed

text \<open>
  C6: In four-level long mode, with neither nested paging nor protection keys, translating an
  address whose path of entries is settled gives what the path says and leaves memory alone.
  An entry that is not present makes it a not-present fault. Otherwise the access is granted
  exactly if every entry allows it (user, write, execute, SMAP, SMEP and CR0.WP taken into
  account), and the address is the frame of the last entry with the offset of the address.
\<close>

theorem long_mode_translate:
  assumes "\<not> bit (hflags2 e) HF2_NPT_SHIFT"
    and "bit mode PG_MODE_PAE" "bit mode PG_MODE_LMA" "\<not> bit mode PG_MODE_LA57"
      "\<not> bit mode PG_MODE_PKE" "\<not> bit mode PG_MODE_PKS"
    and "w < 3"
    and "es = pt_path m (a20 e) addr (c AND PG_ADDRESS_MASK) [39, 30, 21, 12]"
    and "settled e mode w es"
  shows "\<exists>pr. mmu_translate e addr (Some (get_hphys e)) c w idx mode m =
    Done (if \<exists>x\<in>set es. \<not> bit x PG_PRESENT_BIT then Inl (mmu_error_code w idx mode 0)
          else if path_allows es w idx mode
          then Inr ((last es AND a20 e AND PG_ADDRESS_MASK AND NOT (path_size es - 1))
                      + (addr AND (path_size es - 1)), path_size es, pr)
          else Inl (mmu_error_code w idx mode PG_ERROR_P_MASK)) m"
  using translate_settled [OF assms, of idx] by blast

section \<open>A mapped gigabyte\<close>

text \<open>
  Long-mode tables at \<^verbatim>\<open>0x1000\<close> and \<^verbatim>\<open>0x2000\<close> that map the first gigabyte to itself for user
  code, and a processor that uses them with write protection on.
\<close>

definition example_tables :: mem where
  "example_tables = stq_le (stq_le (\<lambda>_. 0) 0x1000 0x2027) 0x2000 0xe7"

definition paged_env :: "CPUX86State \<Rightarrow> CPUX86State" where
  "paged_env e = e\<lparr>cr := (\<lambda>_. 0)(0 := 0x80010001, 3 := 0x1000, 4 := 0x20)\<rparr>"

lemma paged_mode: "get_pg_mode (paged_env example_env) = 0x10003"
  by (simp add: get_pg_mode_def paged_env_def example_env_def flag_def)

lemma paged_slots:
  "pt_slot (a20 (paged_env example_env)) (0x1000 AND PG_ADDRESS_MASK) 39 0x401234 = 0x1000"
  "pt_slot (a20 (paged_env example_env)) (0x2027 AND PG_ADDRESS_MASK) 30 0x401234 = 0x2000"
  by (simp_all add: pt_slot_def x86_get_a20_mask_def paged_env_def example_env_def drop_bit_eq_div)

lemma example_tables_entries:
  "ldq_le example_tables 0x1000 = 0x2027" "ldq_le example_tables 0x2000 = 0xe7"
  by (simp_all add: example_tables_def ldq_stq_apart apart_def)

lemma paged_path:
  "pt_path example_tables (a20 (paged_env example_env)) 0x401234 (0x1000 AND PG_ADDRESS_MASK)
     [39, 30, 21, 12] = [0x2027, 0xe7]"
  by (simp only: pt_path.simps Let_def paged_slots example_tables_entries) simp

lemma paged_settled: "settled (paged_env example_env) 0x10003 0 [0x2027, 0xe7]"
  by (simp add: settled_def path_size_def pt_size_rsvd_def paged_env_def example_env_def
      mask_eq_exp_minus_1)

lemma paged_translate:
  "mmu_translate (paged_env example_env) 0x401234 (Some (get_hphys (paged_env example_env))) 0x1000
     MMU_DATA_LOAD MMU_USER_IDX 0x10003 example_tables =
   Done (Inr (0x401234, 0x40000000, 7)) example_tables"
proof -
  have "\<not> bit (hflags2 (paged_env example_env)) HF2_NPT_SHIFT"
    by (simp add: paged_env_def example_env_def bit_1_iff)
  moreover have "path_allows [0x2027, 0xe7] MMU_DATA_LOAD MMU_USER_IDX 0x10003"
    by (simp add: path_allows_def)
  moreover have "clean_prot 0xe7 (page_prot MMU_USER_IDX 0x10003 (path_rights [0x2027, 0xe7] XOR PG_NX_MASK)) = 7"
    by (simp add: clean_prot_def page_prot_def path_rights_def)
  moreover have "((0xe7 AND a20 (paged_env example_env) AND PG_ADDRESS_MASK AND
      NOT (path_size [0x2027, 0xe7] - 1)) + (0x401234 AND (path_size [0x2027, 0xe7] - 1)) :: u64) = 0x401234"
    by (simp add: path_size_def x86_get_a20_mask_def paged_env_def example_env_def)
  moreover have "path_size [0x2027, 0xe7] = 0x40000000" by (simp add: path_size_def)
  ultimately show ?thesis
    using translate_settled [of "paged_env example_env" "0x10003" 0 "[0x2027, 0xe7]" example_tables
        "0x401234" "0x1000" MMU_USER_IDX] paged_path paged_settled
    by simp
qed

theorem long_mode_translate_witness:
  "\<exists>pr. mmu_translate (paged_env example_env) 0x401234 (Some (get_hphys (paged_env example_env)))
     0x1000 MMU_DATA_LOAD MMU_USER_IDX 0x10003 example_tables =
   Done (Inr (0x401234, 0x40000000, pr)) example_tables"
proof -
  have e: "\<not> bit (hflags2 (paged_env example_env)) HF2_NPT_SHIFT"
    "a20 (paged_env example_env) = - 1"
    by (simp_all add: paged_env_def example_env_def bit_1_iff x86_get_a20_mask_def)
  show ?thesis
    using long_mode_translate [of "paged_env example_env" "0x10003" 0 "[0x2027, 0xe7]" example_tables
        "0x401234" "0x1000" MMU_USER_IDX] e paged_path paged_settled
    by (simp add: path_allows_def path_size_def)
qed


theorem mmu_translate_assertion_witness: "bit (7 :: u32) MMU_DATA_LOAD"
  using mmu_translate_assertion [OF paged_translate] by simp

text \<open>The other half of the address space is not mapped.\<close>

lemma unmapped_translate:
  "mmu_translate (paged_env example_env) 0x8000000000 (Some (get_hphys (paged_env example_env))) 0x1000
     MMU_DATA_STORE MMU_USER_IDX 0x10003 example_tables = Done (Inl 6) example_tables"
proof -
  have "\<not> bit (hflags2 (paged_env example_env)) HF2_NPT_SHIFT"
    by (simp add: paged_env_def example_env_def bit_1_iff)
  moreover have "pt_slot (a20 (paged_env example_env)) (0x1000 AND PG_ADDRESS_MASK) 39 0x8000000000 = 0x1008"
    by (simp add: pt_slot_def x86_get_a20_mask_def paged_env_def example_env_def drop_bit_eq_div)
  moreover have "ldq_le (\<lambda>_. 0) 0x1008 = 0"
    by (rule bit_word_eqI) (auto simp: ldq_le_def bit_le_word load_bytes_def)
  then have "ldq_le example_tables 0x1008 = 0"
    by (simp add: example_tables_def ldq_stq_apart apart_def)
  ultimately show ?thesis
    using translate_settled [of "paged_env example_env" "0x10003" 1 "[0]" example_tables
        "0x8000000000" "0x1000" MMU_USER_IDX]
    by (simp add: Let_def settled_def mmu_error_code_def)
qed



end
