(* ===== verification/UINTR.thy ===== *)
theory UINTR
  imports MSI_Route Page_Walk
begin

text \<open>
  The user-interrupt extension: \<^verbatim>\<open>helper_senduipi\<close> (\<^verbatim>\<open>target/i386/tcg/misc_helper.c\<close>), the
  helpers behind \<^verbatim>\<open>STUI\<close>, \<^verbatim>\<open>CLUI\<close>, \<^verbatim>\<open>TESTUI\<close> and \<^verbatim>\<open>UIRET\<close>, entry into the user handler
  and the part of \<^verbatim>\<open>do_interrupt64\<close> that receives the notification vector
  (\<^verbatim>\<open>target/i386/tcg/seg_helper.c\<close>). QEMU is compiled with \<^verbatim>\<open>-fwrapv\<close>, so a left shift of an
  \<^verbatim>\<open>int\<close> wraps; a shift count of 32 or more stays undefined.
\<close>

section \<open>Tables in memory\<close>

record uintr_uitt_entry =
  uitte_valid :: u8
  user_vec :: u8
  target_upid_addr :: u64

record uintr_upid =
  upid_status :: u8
  upid_reserved1 :: u8
  upid_nv :: u8
  upid_reserved2 :: u8
  upid_ndst :: u32
  upid_puir :: u64

definition load_uitte :: "mem \<Rightarrow> u64 \<Rightarrow> uintr_uitt_entry" where
  "load_uitte m a = \<lparr>uitte_valid = m a, user_vec = m (a + 1), target_upid_addr = ldq_le m (a + 8)\<rparr>"

definition load_upid :: "mem \<Rightarrow> u64 \<Rightarrow> uintr_upid" where
  "load_upid m a = \<lparr>upid_status = m a, upid_reserved1 = m (a + 1), upid_nv = m (a + 2),
     upid_reserved2 = m (a + 3), upid_ndst = ldl_le m (a + 4), upid_puir = ldq_le m (a + 8)\<rparr>"

definition store_upid :: "mem \<Rightarrow> u64 \<Rightarrow> uintr_upid \<Rightarrow> mem" where
  "store_upid m a u = store_bytes m a
     ([upid_status u, upid_reserved1 u, upid_nv u, upid_reserved2 u]
       @ le_bytes 4 (upid_ndst u) @ le_bytes 8 (upid_puir u))"

section \<open>The user-interrupt flag\<close>

definition switch_uif :: "CPUX86State \<Rightarrow> bool \<Rightarrow> CPUX86State" where
  "switch_uif e on = (if on then e\<lparr>uintr_uif := 1\<rparr> else e\<lparr>uintr_uif := 0\<rparr>)"

definition uif_enable :: "CPUX86State \<Rightarrow> bool" where
  "uif_enable e \<longleftrightarrow> uintr_uif e \<noteq> 0"

definition helper_stui :: "CPUX86State \<Rightarrow> CPUX86State" where
  "helper_stui e = switch_uif e True"

definition helper_clui :: "CPUX86State \<Rightarrow> CPUX86State" where
  "helper_clui e = switch_uif e False"

definition helper_testui :: "CPUX86State \<Rightarrow> CPUX86State" where
  "helper_testui e = (if uif_enable e then cpu_load_eflags e CC_C CC_MASK
                      else cpu_load_eflags e 0 CC_MASK)"

section \<open>Sending\<close>

text \<open>The C expression \<^verbatim>\<open>1 << n\<close>, an \<^verbatim>\<open>int\<close>, as it reaches a 64-bit operand.\<close>

definition int_bit :: "nat \<Rightarrow> u64 option" where
  "int_bit n = (if n < 32 then Some (scast (push_bit n 1 :: u32)) else None)"

abbreviation (input) UPID_ON :: u8 where "UPID_ON \<equiv> 1"

text \<open>The descriptor after a request for vector \<open>v\<close>, and whether a notification is due.\<close>

definition upid_post :: "uintr_upid \<Rightarrow> u64 \<Rightarrow> uintr_upid \<times> bool" where
  "upid_post u b =
     (let u1 = u\<lparr>upid_puir := upid_puir u OR b\<rparr>
      in if upid_status u1 AND 0x11 = 0
         then (u1\<lparr>upid_status := upid_status u1 OR UPID_ON\<rparr>, True)
         else (u1, False))"

definition helper_senduipi :: "nat \<Rightarrow> u32 \<Rightarrow> machine \<Rightarrow> (unit, machine) outcome" where
  "helper_senduipi i reg_index m =
     (let e = env_of m i;
          uittsz = ucast (uintr_misc e) :: u32;
          uitte_index = ucast (if reg_index = 244 then regs e R_R12 else regs e R_EAX) :: u32
      in if uittsz < uitte_index then Raise EXCP0D_GPF 0 m
         else
           bind_outcome
             (on_mem m (get_hphys2 e (push_bit 3 (drop_bit 3 (uintr_tt e))) MMU_DATA_LOAD (phys_mem m)))
             (\<lambda>uitt_phyaddress m.
           let uitte = load_uitte (phys_mem m) (uitt_phyaddress + scast (push_bit 4 uitte_index)) in
           bind_outcome
             (on_mem m (get_hphys2 e (target_upid_addr uitte) MMU_DATA_LOAD (phys_mem m)))
             (\<lambda>upid_phyaddress m.
           case int_bit (unat (user_vec uitte)) of
             None \<Rightarrow> Undefined
           | Some b \<Rightarrow>
               let (upid, sendNotify) = upid_post (load_upid (phys_mem m) upid_phyaddress) b;
                   m1 = m\<lparr>phys_mem := store_upid (phys_mem m) upid_phyaddress upid\<rparr>
               in Done () (if sendNotify
                           then send_ipi (ucast (drop_bit 8 (upid_ndst upid))) (upid_nv upid) m1
                           else m1))))"

section \<open>Entering and leaving the handler\<close>

definition PUSHQ :: "nat \<Rightarrow> u64 \<Rightarrow> u64 \<Rightarrow> machine \<Rightarrow> (u64, machine) outcome" where
  "PUSHQ i sp v m = bind_outcome (cpu_stq_kernel i (sp - 8) v m) (\<lambda>_ m. Done (sp - 8) m)"

definition POPQ :: "nat \<Rightarrow> u64 \<Rightarrow> machine \<Rightarrow> (u64 \<times> u64, machine) outcome" where
  "POPQ i sp m = bind_outcome (cpu_ldq_kernel i sp m) (\<lambda>v m. Done (v, sp + 8) m)"

definition set_rsp :: "u64 \<Rightarrow> CPUX86State \<Rightarrow> CPUX86State" where
  "set_rsp v e = e\<lparr>regs := (regs e)(R_ESP := v)\<rparr>"

definition uintr_stack :: "CPUX86State \<Rightarrow> u64" where
  "uintr_stack e =
     (if bit (uintr_stackadjust e) 0 then uintr_stackadjust e
      else regs e R_ESP - uintr_stackadjust e) AND NOT 0xf"

text \<open>
  \<^verbatim>\<open>TF_MASK | RF_MASK\<close> is \<^verbatim>\<open>0x10100\<close>. \<^verbatim>\<open>__builtin_clzll(0)\<close> is undefined. \<^verbatim>\<open>RSP\<close> is changed
  before the pushes, which may fault.
\<close>

definition helper_rrnzero :: "nat \<Rightarrow> machine \<Rightarrow> (unit, machine) outcome" where
  "helper_rrnzero i m =
     (let e = env_of m i;
          temprsp = regs e R_ESP;
          esp = uintr_stack e;
          m1 = upd_env i (set_rsp esp) m
      in if uintr_rr e = 0 then Undefined
         else let uintr_rrv = 63 - clz (uintr_rr e) in
           bind_outcome (PUSHQ i esp temprsp m1) (\<lambda>esp m.
           bind_outcome (PUSHQ i esp (eflags e) m) (\<lambda>esp m.
           bind_outcome (PUSHQ i esp (eip e) m) (\<lambda>esp m.
           bind_outcome (PUSHQ i esp (of_nat uintr_rrv) m) (\<lambda>esp m.
           case int_bit uintr_rrv of
             None \<Rightarrow> Undefined
           | Some b \<Rightarrow>
               Done () (upd_env i (\<lambda>e. switch_uif
                 (set_rsp esp e\<lparr>uintr_rr := uintr_rr e AND NOT b,
                                eflags := eflags e AND NOT 0x10100,
                                eip := uintr_handler e\<rparr>) False) m))))))"

definition helper_uiret :: "nat \<Rightarrow> machine \<Rightarrow> (unit, machine) outcome" where
  "helper_uiret i m =
     bind_outcome (POPQ i (regs (env_of m i) R_ESP) m) (\<lambda>(temprip, esp) m.
     bind_outcome (POPQ i esp m) (\<lambda>(temprflags, esp) m.
     bind_outcome (POPQ i esp m) (\<lambda>(temprsp, esp) m.
     Done () (upd_env i (\<lambda>e. switch_uif
       (set_rsp temprsp e\<lparr>eip := temprip,
          eflags := (eflags e AND NOT 0x254dd5) OR (temprflags AND 0x254dd5)\<rparr>) True) m))))"

section \<open>Receiving\<close>

text \<open>\<^verbatim>\<open>apic_clear_eoi\<close> dereferences the APIC without a test.\<close>

definition helper_clear_eoi :: "machine \<Rightarrow> (unit, machine) outcome" where
  "helper_clear_eoi m =
     (case cpu_get_current_apic m of
        None \<Rightarrow> Undefined
      | Some j \<Rightarrow> Done () (apic_clear_eoi pc_env j m))"

abbreviation (input) UINTR_UINV :: nat where "UINTR_UINV \<equiv> 0xec"

text \<open>The branch of \<^verbatim>\<open>do_interrupt64\<close> for \<^verbatim>\<open>intno == UINTR_UINV\<close>.\<close>

definition do_uintr_notification :: "nat \<Rightarrow> machine \<Rightarrow> (unit, machine) outcome" where
  "do_uintr_notification i m =
     (let e = env_of m i in
      if \<not> uif_enable e then helper_clear_eoi m
      else if cpl_of e \<noteq> 3 then helper_clear_eoi m
      else
        bind_outcome (on_mem m (get_hphys2 e (uintr_pd e) MMU_DATA_LOAD (phys_mem m)))
          (\<lambda>upid_phyaddress m.
        let upid = load_upid (phys_mem m) upid_phyaddress;
            upid1 = upid\<lparr>upid_status := upid_status upid AND NOT 1\<rparr>;
            send = (upid_puir upid1 \<noteq> 0);
            m1 = (if send then upd_env i (\<lambda>e. e\<lparr>uintr_rr := upid_puir upid1\<rparr>) m else m);
            upid2 = (if send then upid1\<lparr>upid_puir := 0\<rparr> else upid1);
            m2 = m1\<lparr>phys_mem := store_upid (phys_mem m1) upid_phyaddress upid2\<rparr>
        in bind_outcome (helper_clear_eoi m2) (\<lambda>_ m.
           if send then helper_rrnzero i m else Done () m)))"

section \<open>Facts about the tables\<close>

lemma store_bytes_at:
  assumes "k < length bs" "length bs \<le> 2 ^ 64"
  shows "store_bytes m a bs (a + of_nat k) = bs ! k"
proof -
  have "unat (of_nat k :: u64) = k" using assms by (simp add: unat_of_nat)
  with assms show ?thesis by (simp add: store_bytes_def)
qed

lemma load_store_part:
  assumes "k + n \<le> length bs" "length bs \<le> 2 ^ 64"
  shows "load_bytes (store_bytes m a bs) (a + of_nat k) n = take n (drop k bs)"
proof (rule nth_equalityI)
  fix j assume "j < length (load_bytes (store_bytes m a bs) (a + of_nat k) n)"
  then have j: "j < n" by simp
  then have "store_bytes m a bs (a + of_nat (k + j)) = bs ! (k + j)"
    using assms by (intro store_bytes_at) auto
  then show "load_bytes (store_bytes m a bs) (a + of_nat k) n ! j = take n (drop k bs) ! j"
    using j assms by (simp add: load_bytes_def add.assoc)
qed (use assms in simp)

lemma load_upid_store_upid: "load_upid (store_upid m a u) a = u"
proof -
  let ?bs = "[upid_status u, upid_reserved1 u, upid_nv u, upid_reserved2 u]
       @ le_bytes 4 (upid_ndst u) @ le_bytes 8 (upid_puir u)"
  have "store_bytes m a ?bs (a + of_nat k) = ?bs ! k" if "k < 16" for k
    by (rule store_bytes_at) (use that in auto)
  from this [of 0] this [of 1] this [of 2] this [of 3]
  have "store_upid m a u a = upid_status u" "store_upid m a u (a + 1) = upid_reserved1 u"
    "store_upid m a u (a + 2) = upid_nv u" "store_upid m a u (a + 3) = upid_reserved2 u"
    by (simp_all add: store_upid_def)
  moreover have "ldl_le (store_upid m a u) (a + 4) = upid_ndst u"
    using load_store_part [of 4 4 ?bs m a]
    by (simp add: ldl_le_def store_upid_def le_word_le_bytes_full)
  moreover have "ldq_le (store_upid m a u) (a + 8) = upid_puir u"
    using load_store_part [of 8 8 ?bs m a]
    by (simp add: ldq_le_def store_upid_def le_word_le_bytes_full)
  ultimately show ?thesis by (simp add: load_upid_def)
qed

lemma store_upid_apart: "apart a 16 b 8 \<Longrightarrow> ldq_le (store_upid m a u) b = ldq_le m b"
  by (simp add: ldq_le_def store_upid_def load_store_apart)

lemma int_bit_small: "n < 31 \<Longrightarrow> int_bit n = Some (2 ^ n)"
proof -
  assume n: "n < 31"
  have "(scast (push_bit n 1 :: u32) :: u64) = 2 ^ n"
    by (rule bit_word_eqI) (use n in \<open>auto simp: bit_simps min_def\<close>)
  with n show ?thesis by (simp add: int_bit_def)
qed

lemma int_bit_31: "int_bit 31 = Some 0xffffffff80000000"
  by (simp add: int_bit_def)

lemma int_bit_wide: "32 \<le> n \<Longrightarrow> int_bit n = None"
  by (simp add: int_bit_def)

section \<open>A window onto the stack\<close>

text \<open>
  The frame of a user interrupt below the aligned stack pointer \<open>esp\<close>, and the registers with
  which the handler starts.
\<close>

definition frame_mem ::
    "(u64 \<Rightarrow> u64) \<Rightarrow> u64 \<Rightarrow> u64 \<Rightarrow> u64 \<Rightarrow> u64 \<Rightarrow> u64 \<Rightarrow> mem \<Rightarrow> mem" where
  "frame_mem phys esp rsp efl ip v p =
     stq_le (stq_le (stq_le (stq_le p (phys (esp - 8)) rsp) (phys (esp - 16)) efl)
       (phys (esp - 24)) ip) (phys (esp - 32)) v"

definition enter_handler :: "u64 \<Rightarrow> nat \<Rightarrow> CPUX86State \<Rightarrow> CPUX86State" where
  "enter_handler esp v e = e\<lparr>regs := (regs e)(R_ESP := esp - 32), uintr_rr := uintr_rr e AND NOT (2 ^ v),
     eflags := eflags e AND NOT 0x10100, eip := uintr_handler e, uintr_uif := 0\<rparr>"

definition leave_handler :: "u64 \<Rightarrow> u64 \<Rightarrow> u64 \<Rightarrow> CPUX86State \<Rightarrow> CPUX86State" where
  "leave_handler rsp efl ip e = e\<lparr>regs := (regs e)(R_ESP := rsp), eip := ip,
     eflags := (eflags e AND NOT 0x254dd5) OR (efl AND 0x254dd5), uintr_uif := 1\<rparr>"

text \<open>The four quadwords of a frame lie in the window.\<close>

definition frame_in :: "(u64 \<Rightarrow> bool) \<Rightarrow> u64 \<Rightarrow> bool" where
  "frame_in win esp \<longleftrightarrow> win (esp - 8) \<and> win (esp - 16) \<and> win (esp - 24) \<and> win (esp - 32)"

text \<open>
  The interface between the handler entry and guest memory: a set \<open>win\<close> of quadword
  addresses processor \<open>i\<close> can load and store in every state satisfying \<open>ok\<close>, at physical
  addresses \<open>phys\<close> that do not overlap. Stores in the window and changes to registers that
  do not take part in address translation keep \<open>ok\<close>.
\<close>

definition paging_view :: "CPUX86State \<Rightarrow> CPUX86State" where
  "paging_view e = e\<lparr>regs := (\<lambda>_. 0), eip := 0, eflags := 0, cc_flags := 0, df := 0, uintr_rr := 0,
     uintr_handler := 0, uintr_stackadjust := 0, uintr_misc := 0, uintr_pd := 0, uintr_tt := 0,
     uintr_uif := 0\<rparr>"

locale stack_window =
  fixes i :: nat
    and ok :: "CPUX86State \<Rightarrow> mem \<Rightarrow> bool"
    and win :: "u64 \<Rightarrow> bool"
    and phys :: "u64 \<Rightarrow> u64"
  assumes store_win: "ok (paging_view (env_of m i)) (phys_mem m) \<Longrightarrow> win a \<Longrightarrow>
      cpu_stq_kernel i a v m = Done () (m\<lparr>phys_mem := stq_le (phys_mem m) (phys a) v\<rparr>)"
    and load_win: "ok (paging_view (env_of m i)) (phys_mem m) \<Longrightarrow> win a \<Longrightarrow>
      cpu_ldq_kernel i a m = Done (ldq_le (phys_mem m) (phys a)) m"
    and ok_store: "ok e p \<Longrightarrow> win a \<Longrightarrow> ok e (stq_le p (phys a) v)"
    and win_apart: "win a \<Longrightarrow> win b \<Longrightarrow> a \<noteq> b \<Longrightarrow> apart (phys a) 8 (phys b) 8"
begin

lemma PUSHQ_win:
  assumes "ok (paging_view (env_of m i)) (phys_mem m)" "win (sp - 8)"
  shows "PUSHQ i sp v m = Done (sp - 8) (m\<lparr>phys_mem := stq_le (phys_mem m) (phys (sp - 8)) v\<rparr>)"
  using assms by (simp add: PUSHQ_def store_win)

lemma POPQ_win:
  assumes "ok (paging_view (env_of m i)) (phys_mem m)" "win sp"
  shows "POPQ i sp m = Done (ldq_le (phys_mem m) (phys sp), sp + 8) m"
  using assms by (simp add: POPQ_def load_win)

lemma frame_mem_load:
  assumes "frame_in win esp"
  shows "ldq_le (frame_mem phys esp rsp efl ip v p) (phys (esp - 8)) = rsp"
    "ldq_le (frame_mem phys esp rsp efl ip v p) (phys (esp - 16)) = efl"
    "ldq_le (frame_mem phys esp rsp efl ip v p) (phys (esp - 24)) = ip"
    "ldq_le (frame_mem phys esp rsp efl ip v p) (phys (esp - 32)) = v"
  using assms by (simp_all add: frame_in_def frame_mem_def ldq_stq_apart win_apart)

lemma rrnzero_win:
  assumes ok: "ok (paging_view (env_of m i)) (phys_mem m)"
    and win: "frame_in win (uintr_stack (env_of m i))"
    and rr: "uintr_rr (env_of m i) \<noteq> 0" "63 - clz (uintr_rr (env_of m i)) < 31"
  shows "helper_rrnzero i m =
    Done () ((upd_env i (enter_handler (uintr_stack (env_of m i)) (63 - clz (uintr_rr (env_of m i)))) m)
      \<lparr>phys_mem := frame_mem phys (uintr_stack (env_of m i)) (regs (env_of m i) R_ESP)
         (eflags (env_of m i)) (eip (env_of m i)) (of_nat (63 - clz (uintr_rr (env_of m i))))
         (phys_mem m)\<rparr>)"
proof -
  define e where "e = env_of m i"
  define esp where "esp = uintr_stack e"
  define v where "v = 63 - clz (uintr_rr e)"
  define m1 where "m1 = upd_env i (set_rsp esp) m"
  have w: "win (esp - 8)" "win (esp - 16)" "win (esp - 24)" "win (esp - 32)"
    using win by (simp_all add: frame_in_def esp_def e_def)
  have ok1: "ok (paging_view (env_of m1 i)) (phys_mem m)"
    using ok by (simp add: m1_def upd_env_def upd_cpu_def set_rsp_def paging_view_def)
  have mem1: "phys_mem m1 = phys_mem m" by (simp add: m1_def upd_env_def upd_cpu_def)
  have "helper_rrnzero i m = Done () (upd_env i (\<lambda>e. switch_uif
      (set_rsp (esp - 32) e\<lparr>uintr_rr := uintr_rr e AND NOT (2 ^ v),
         eflags := eflags e AND NOT 0x10100, eip := uintr_handler e\<rparr>) False)
      (m1\<lparr>phys_mem := frame_mem phys esp (regs e R_ESP) (eflags e) (eip e) (of_nat v) (phys_mem m)\<rparr>))"
    using rr w ok1
    by (simp add: helper_rrnzero_def Let_def e_def [symmetric] esp_def [symmetric] v_def [symmetric]
        m1_def [symmetric] PUSHQ_win mem1 ok_store int_bit_small frame_mem_def)
  then show ?thesis
    by (simp add: m1_def e_def esp_def v_def upd_env_def upd_cpu_def switch_uif_def set_rsp_def
        enter_handler_def)
qed

lemma uiret_win:
  assumes ok: "ok (paging_view (env_of m i)) (phys_mem m)" and win: "frame_in win esp"
    and rsp: "regs (env_of m i) R_ESP = esp - 24"
  shows "helper_uiret i m = Done () (upd_env i
    (leave_handler (ldq_le (phys_mem m) (phys (esp - 8))) (ldq_le (phys_mem m) (phys (esp - 16)))
      (ldq_le (phys_mem m) (phys (esp - 24)))) m)"
proof -
  have w: "win (esp - 24)" "win (esp - 24 + 8)" "win (esp - 24 + 8 + 8)"
    and eq: "esp - 24 + 8 = esp - 16" "esp - 24 + 8 + 8 = esp - 8"
    using win by (simp_all add: frame_in_def algebra_simps)
  show ?thesis
    unfolding helper_uiret_def rsp POPQ_win [OF ok w(1)] bind_outcome.simps case_prod_conv
      POPQ_win [OF ok w(2)] POPQ_win [OF ok w(3)]
    by (simp add: eq upd_env_def upd_cpu_def switch_uif_def set_rsp_def leave_handler_def)
qed

end

section \<open>A flat gigabyte of user memory\<close>

text \<open>
  Four-level tables at \<^verbatim>\<open>0x1000\<close> and \<^verbatim>\<open>0x2000\<close> that map the first gigabyte to itself as user
  pages, without protection keys or nested paging. Without SMAP, every aligned quadword above
  the tables is in the window.
\<close>

definition giga_tables :: "CPUX86State \<Rightarrow> mem \<Rightarrow> bool" where
  "giga_tables e p \<longleftrightarrow> bit (cr e 0) 31 \<and> bit (cr e 4) 5 \<and> bit (hflags e) HF_LMA_SHIFT \<and>
     \<not> bit (cr e 4) 12 \<and> \<not> bit (cr e 4) 22 \<and> \<not> bit (cr e 4) 24 \<and>
     \<not> bit (hflags2 e) HF2_NPT_SHIFT \<and> x86_get_a20_mask e = - 1 \<and> phys_bits e = 40 \<and>
     cr e 3 = 0x1000 \<and> ldq_le p 0x1000 = 0x2027 \<and> ldq_le p 0x2000 = 0xe7"

definition giga_ok :: "CPUX86State \<Rightarrow> mem \<Rightarrow> bool" where
  "giga_ok e p \<longleftrightarrow> giga_tables e p \<and> \<not> bit (hflags e) 23"

definition giga_win :: "u64 \<Rightarrow> bool" where
  "giga_win a \<longleftrightarrow> a AND 7 = 0 \<and> 0x3000 \<le> a \<and> a < 0x40000000"

lemma get_pg_mode_bits:
  assumes "bit (cr e 0) 31"
  shows "bit (get_pg_mode e) PG_MODE_PAE = bit (cr e 4) 5"
    "bit (get_pg_mode e) PG_MODE_LMA = bit (hflags e) HF_LMA_SHIFT"
    "bit (get_pg_mode e) PG_MODE_LA57 \<longleftrightarrow> bit (hflags e) HF_LMA_SHIFT \<and> bit (cr e 4) 12"
    "bit (get_pg_mode e) PG_MODE_PKE \<longleftrightarrow> bit (hflags e) HF_LMA_SHIFT \<and> bit (cr e 4) 22"
    "bit (get_pg_mode e) PG_MODE_PKS \<longleftrightarrow> bit (hflags e) HF_LMA_SHIFT \<and> bit (cr e 4) 24"
  using assms by (simp_all add: get_pg_mode_def flag_def bit_or_iff bit_single_bit)

lemma paging_view_simps [simp]:
  "cr (paging_view e) = cr e" "hflags (paging_view e) = hflags e"
  "hflags2 (paging_view e) = hflags2 e" "phys_bits (paging_view e) = phys_bits e"
  "x86_get_a20_mask (paging_view e) = x86_get_a20_mask e"
  by (simp_all add: paging_view_def x86_get_a20_mask_def)

lemma low_address:
  fixes a :: u64
  assumes "a < 0x40000000"
  shows "drop_bit 30 a = 0" "drop_bit 39 a = 0" "signed_drop_bit 47 a = 0"
proof -
  have "unat a < 2 ^ 30" using assms by (simp add: word_less_nat_alt)
  then have "take_bit 30 a = a"
    by (simp add: word_unat_eq_iff unsigned_take_bit_eq take_bit_nat_eq_self)
  then have *: "\<not> bit a n" if "30 \<le> n" for n
    using that by (metis bit_take_bit_iff leD)
  show "drop_bit 30 a = 0" "drop_bit 39 a = 0" "signed_drop_bit 47 a = 0"
    by (rule bit_word_eqI, use * in \<open>simp add: bit_simps\<close>)+
qed

lemma giga_slots:
  assumes "a < 0x40000000"
  shows "pt_slot (- 1) (0x1000 AND PG_ADDRESS_MASK) 39 a = 0x1000"
    "pt_slot (- 1) (0x2027 AND PG_ADDRESS_MASK) 30 a = 0x2000"
  by (simp_all add: pt_slot_def low_address [OF assms])

text \<open>Any address whose path is one table and one gigabyte page at zero.\<close>

definition giga_mode :: "CPUX86State \<Rightarrow> bool" where
  "giga_mode e \<longleftrightarrow> bit (cr e 0) 31 \<and> bit (cr e 4) 5 \<and> bit (hflags e) HF_LMA_SHIFT \<and>
     \<not> bit (cr e 4) 12 \<and> \<not> bit (cr e 4) 22 \<and> \<not> bit (cr e 4) 24 \<and>
     \<not> bit (hflags2 e) HF2_NPT_SHIFT \<and> x86_get_a20_mask e = - 1 \<and> phys_bits e = 40"

lemma giga_path_translate:
  assumes ok: "giga_mode e" and w: "w < 2"
    and path: "[0x2027, 0xe7] = pt_path p (a20 e) a (cr e 3 AND PG_ADDRESS_MASK) [39, 30, 21, 12]"
  shows "\<exists>pr. mmu_translate e a (Some (get_hphys e)) (cr e 3) w idx (get_pg_mode e) p =
    Done (if path_allows [0x2027, 0xe7] w idx (get_pg_mode e) then Inr (a AND mask 30, 0x40000000, pr)
          else Inl (mmu_error_code w idx (get_pg_mode e) PG_ERROR_P_MASK)) p"
proof -
  let ?es = "[0x2027, 0xe7] :: u64 list"
  have mode: "\<not> bit (hflags2 e) HF2_NPT_SHIFT" "bit (get_pg_mode e) PG_MODE_PAE"
    "bit (get_pg_mode e) PG_MODE_LMA" "\<not> bit (get_pg_mode e) PG_MODE_LA57"
    "\<not> bit (get_pg_mode e) PG_MODE_PKE" "\<not> bit (get_pg_mode e) PG_MODE_PKS"
    using ok by (simp_all only: giga_mode_def get_pg_mode_bits simp_thms)
  have settled: "settled e (get_pg_mode e) w ?es"
    using ok by (simp add: settled_def path_size_def pt_size_rsvd_def giga_mode_def mask_eq_exp_minus_1)
  have frame: "((0xe7 AND a20 e AND PG_ADDRESS_MASK AND NOT (path_size ?es - 1))
      + (a AND (path_size ?es - 1)) :: u64) = a AND mask 30"
    using ok by (simp add: path_size_def giga_mode_def mask_eq_exp_minus_1)
  have size: "path_size ?es = 0x40000000" by (simp add: path_size_def)
  have "last ?es = 0xe7" "\<not> (\<exists>x\<in>set ?es. \<not> bit x PG_PRESENT_BIT)" "w < 3" using w by simp_all
  then show ?thesis
    using translate_settled [OF mode _ path settled, of idx]
    by (simp only: if_False size frame [unfolded size]) blast
qed

lemma giga_translate:
  assumes ok: "giga_tables e p" and a: "a < 0x40000000" and w: "w < 2"
  shows "\<exists>pr. mmu_translate e a (Some (get_hphys e)) (cr e 3) w idx (get_pg_mode e) p =
    Done (if path_allows [0x2027, 0xe7] w idx (get_pg_mode e) then Inr (a, 0x40000000, pr)
          else Inl (mmu_error_code w idx (get_pg_mode e) PG_ERROR_P_MASK)) p"
proof -
  have path: "[0x2027, 0xe7] = pt_path p (a20 e) a (cr e 3 AND PG_ADDRESS_MASK) [39, 30, 21, 12]"
  proof -
    have "a20 e = - 1" "cr e 3 = 0x1000" "ldq_le p 0x1000 = 0x2027" "ldq_le p 0x2000 = 0xe7"
      using ok by (simp_all add: giga_tables_def)
    then show ?thesis
      by (simp only: pt_path.simps Let_def giga_slots [OF a]) simp
  qed
  have self: "a AND mask 30 = a"
    by (rule bit_word_eqI) (use low_address(1) [OF a] in
      \<open>metis (no_types) bit_and_iff bit_drop_bit_eq bit_mask_iff bit_0_eq bot_apply bot_bool_def
        le_add_diff_inverse not_less comp_apply possible_bit_word\<close>)
  have "giga_mode e" using ok by (simp add: giga_tables_def giga_mode_def)
  from giga_path_translate [OF this w path, of idx] show ?thesis unfolding self .
qed

lemma giga_ok_view: "giga_ok (paging_view e) p = giga_ok e p"
  by (simp add: giga_ok_def giga_tables_def)

lemma giga_fill:
  assumes ok: "giga_ok (env_of m i) (phys_mem m)" and a: "a < 0x40000000" and w: "w < 2"
  shows "\<exists>pr. x86_cpu_tlb_fill i a w (cpu_mmu_index_kernel (env_of m i)) m =
    Done (a AND NOT 0xfff, a AND NOT 0xfff, pr) m"
proof -
  have idx: "cpu_mmu_index_kernel (env_of m i) = MMU_KNOSMAP_IDX"
    using ok by (simp add: giga_ok_def cpu_mmu_index_kernel_def)
  have can: "canonical (get_pg_mode (env_of m i)) a"
    using ok low_address(3) [OF a]
    by (simp add: canonical_def Let_def giga_ok_def giga_tables_def get_pg_mode_bits)
  have pg: "bit (cr (env_of m i) 0) 31" using ok by (simp add: giga_ok_def giga_tables_def)
  have "path_allows [0x2027, 0xe7] w MMU_KNOSMAP_IDX (get_pg_mode (env_of m i))"
    using w by (simp add: path_allows_def)
  then obtain pr where "mmu_translate (env_of m i) a (Some (get_hphys (env_of m i))) (cr (env_of m i) 3) w
      MMU_KNOSMAP_IDX (get_pg_mode (env_of m i)) (phys_mem m) = Done (Inr (a, 0x40000000, pr)) (phys_mem m)"
    using giga_translate [of "env_of m i" "phys_mem m" a w MMU_KNOSMAP_IDX] ok a w
    by (auto simp: giga_ok_def)
  then show ?thesis
    using pg can by (simp add: x86_cpu_tlb_fill_def handle_mmu_fault_def Let_def idx)
qed

lemma giga_win_page:
  assumes "giga_win a"
  shows "8 \<le> 4096 - unat (a AND 0xfff)" "(a AND NOT 0xfff) + (a AND 0xfff) = a"
proof -
  have m: "(0xfff :: u64) = mask 12" "(7 :: u64) = mask 3" by (simp_all add: mask_eq_exp_minus_1)
  have "a AND 0xfff = push_bit 3 (drop_bit 3 a AND mask 9)"
  proof (rule bit_word_eqI)
    fix n
    have "\<not> bit (a AND mask 3) n" using assms by (simp add: giga_win_def m)
    then show "bit (a AND 0xfff) n = bit (push_bit 3 (drop_bit 3 a AND mask 9)) n"
      unfolding m by (auto simp: bit_simps)
  qed
  moreover have "unat (drop_bit 3 a AND mask 9) < 2 ^ 9"
    by (rule unat_less_exp) (simp add: bit_simps)
  ultimately have "unat (a AND 0xfff) \<le> 4088"
    by (simp add: push_bit_eq_mult unat_word_ariths)
  then show "8 \<le> 4096 - unat (a AND 0xfff)" by simp
  have "(a AND NOT 0xfff) + (a AND 0xfff) = (a AND NOT 0xfff) OR (a AND 0xfff)"
    by (rule disjoint_add)
  also have "\<dots> = a" by (rule bit_word_eqI) (auto simp: bit_simps)
  finally show "(a AND NOT 0xfff) + (a AND 0xfff) = a" .
qed

lemma apartI:
  assumes "unat a + n \<le> unat b" "unat b + k \<le> 2 ^ 64" "0 < n"
  shows "apart a n b k"
  using assms by (auto simp: apart_def unat_sub_if')

lemma apart_sym: "apart a n b k \<longleftrightarrow> apart b k a n"
  by (auto simp: apart_def)

lemma giga_win_apart:
  assumes "giga_win a" "giga_win b" "a \<noteq> b"
  shows "apart a 8 b 8"
proof -
  have "unat c mod 8 = 0" if "giga_win c" for c
  proof -
    have "take_bit 3 c = 0"
      using that by (simp add: giga_win_def take_bit_eq_mask mask_eq_exp_minus_1)
    then have "take_bit 3 (unat c) = 0" by (metis unsigned_take_bit_eq unsigned_0)
    then show ?thesis by (simp add: take_bit_eq_mod)
  qed
  then obtain x y where xy: "unat a = 8 * x" "unat b = 8 * y"
    using assms(1,2) by (meson mod_0_imp_dvd dvdE)
  have "unat a \<noteq> unat b" using assms(3) by (simp add: word_unat_eq_iff)
  then have "unat a + 8 \<le> unat b \<or> unat b + 8 \<le> unat a" unfolding xy by arith
  moreover have "unat a + 8 \<le> 2 ^ 64" "unat b + 8 \<le> 2 ^ 64"
    using assms(1,2) by (simp_all add: giga_win_def word_less_nat_alt)
  ultimately show ?thesis using apartI [of a 8 b 8] apartI [of b 8 a 8] apart_sym by auto
qed

lemma giga_ok_store:
  assumes "giga_ok e p" and a: "giga_win a"
  shows "giga_ok e (stq_le p a v)"
proof -
  have "0x3000 \<le> unat a" "unat a + 8 \<le> 2 ^ 64"
    using a by (simp_all add: giga_win_def word_less_nat_alt word_le_nat_alt)
  then have "apart 0x1000 8 a 8" "apart 0x2000 8 a 8" by (auto intro: apartI)
  then have "apart a 8 0x1000 8" "apart a 8 0x2000 8" using apart_sym by blast+
  then show ?thesis using assms(1) by (simp add: giga_ok_def giga_tables_def ldq_stq_apart)
qed

lemma giga_store:
  assumes "giga_ok (env_of m i) (phys_mem m)" and a: "giga_win a"
  shows "cpu_stq_kernel i a v m = Done () (m\<lparr>phys_mem := stq_le (phys_mem m) a v\<rparr>)"
proof -
  obtain pr where "x86_cpu_tlb_fill i a 1 (cpu_mmu_index_kernel (env_of m i)) m =
      Done (a AND NOT 0xfff, a AND NOT 0xfff, pr) m"
    using giga_fill [OF assms(1), of a 1] a unfolding giga_win_def by auto
  then show ?thesis
    using giga_win_page [OF a]
    by (simp add: cpu_stq_kernel_def guest_store_def Let_def stq_le_def)
qed

lemma giga_load:
  assumes "giga_ok (env_of m i) (phys_mem m)" and a: "giga_win a"
  shows "cpu_ldq_kernel i a m = Done (ldq_le (phys_mem m) a) m"
proof -
  obtain pr where "x86_cpu_tlb_fill i a 0 (cpu_mmu_index_kernel (env_of m i)) m =
      Done (a AND NOT 0xfff, a AND NOT 0xfff, pr) m"
    using giga_fill [OF assms(1), of a 0] a unfolding giga_win_def by auto
  then show ?thesis
    using giga_win_page [OF a]
    by (simp add: cpu_ldq_kernel_def guest_load_def Let_def ldq_le_def)
qed

interpretation giga: stack_window i giga_ok giga_win id for i
  by unfold_locales
     (simp_all add: giga_ok_view giga_store giga_load giga_ok_store giga_win_apart)

end
