(* ===== verification/UINTR_Delivery.thy ===== *)
theory UINTR_Delivery
  imports UINTR
begin

text \<open>
  What the user-interrupt operations promise: posting a request and notifying its target,
  entering the handler with the highest request, returning from it, and the cases in which
  the code loses a notification or leaves defined behaviour.
\<close>

section \<open>Sending\<close>

text \<open>No APIC writes its state to guest memory.\<close>

definition no_vapic :: "machine \<Rightarrow> bool" where
  "no_vapic m \<longleftrightarrow> (\<forall>k. pred_option (\<lambda>s. vapic_paddr s = 0) (local_apics m k))"

lemma apic_set_irq_quiet:
  assumes "no_vapic m" "local_apics m k \<noteq> None"
  shows "phys_mem (apic_set_irq k v t m) = phys_mem m" "no_vapic (apic_set_irq k v t m)"
proof -
  from assms obtain s where s: "local_apics m k = Some s" by blast
  with assms(1) have v: "vapic_paddr s = 0" by (metis no_vapic_def option.pred_inject(2))
  show "phys_mem (apic_set_irq k v t m) = phys_mem m"
    using s v
    by (simp only: apic_set_irq_def Let_def upd_apic_simps apic_report_irq_delivered_def
        apic_update_irq_simps) (simp add: upd_apic_simps)
  show "no_vapic (apic_set_irq k v t m)"
    using assms(1) s v by (simp add: no_vapic_def apic_set_irq_apics)
qed

lemma send_ipi_mem:
  assumes "no_vapic m"
  shows "phys_mem (send_ipi d nv m) = phys_mem m \<and> no_vapic (send_ipi d nv m)"
    and "env (cpus (send_ipi d nv m) k) = env (cpus m k)"
    and "current_cpu (send_ipi d nv m) = current_cpu m"
proof -
  have eq: "send_ipi d nv m = fold (visit (apic_get_delivery_bitmask m d 0)
      (\<lambda>k. apic_set_irq k (unat nv) False)) [0..<256] m"
    by (simp add: send_ipi_def apic_deliver_irq_def apic_bus_deliver_def foreach_apic_eq)
  show "phys_mem (send_ipi d nv m) = phys_mem m \<and> no_vapic (send_ipi d nv m)"
    unfolding eq
    by (rule fold_inv) (use assms in \<open>auto simp: visit_def apic_set_irq_quiet simp del: not_None_eq\<close>)
  show "env (cpus (send_ipi d nv m) k) = env (cpus m k)"
    unfolding eq by (rule fold_frame) (simp add: visit_def frame_simps)
  show "current_cpu (send_ipi d nv m) = current_cpu m"
    unfolding eq by (rule fold_frame) (simp add: visit_def frame_simps)
qed

text \<open>
  The way from the operand of \<^verbatim>\<open>SENDUIPI\<close> to the descriptor: \<open>uipi_route i r m ua p vec\<close> says
  that the index in the register is within the table, that both translations succeed, and
  names the physical address of the descriptor, memory after the translations, and the user
  vector.
\<close>

definition uipi_index :: "CPUX86State \<Rightarrow> u32 \<Rightarrow> u32" where
  "uipi_index e reg_index = ucast (if reg_index = 244 then regs e R_R12 else regs e R_EAX)"

definition uipi_route :: "nat \<Rightarrow> u32 \<Rightarrow> machine \<Rightarrow> u64 \<Rightarrow> mem \<Rightarrow> nat \<Rightarrow> bool" where
  "uipi_route i r m ua p vec \<longleftrightarrow>
     (let e = env_of m i in
      uipi_index e r \<le> ucast (uintr_misc e) \<and>
      (\<exists>ta p1. get_hphys2 e (push_bit 3 (drop_bit 3 (uintr_tt e))) MMU_DATA_LOAD (phys_mem m) = Done ta p1 \<and>
         (let u = load_uitte p1 (ta + scast (push_bit 4 (uipi_index e r)))
          in vec = unat (user_vec u) \<and>
             get_hphys2 e (target_upid_addr u) MMU_DATA_LOAD p1 = Done ua p)))"

lemma senduipi_route:
  assumes "uipi_route i r m ua p vec"
  shows "helper_senduipi i r m =
    (case int_bit vec of
       None \<Rightarrow> Undefined
     | Some b \<Rightarrow>
         let (u, notify) = upid_post (load_upid p ua) b; m1 = m\<lparr>phys_mem := store_upid p ua u\<rparr>
         in Done () (if notify then send_ipi (ucast (drop_bit 8 (upid_ndst u))) (upid_nv u) m1 else m1))"
  using assms
  by (auto simp: uipi_route_def uipi_index_def helper_senduipi_def Let_def not_less
      simp flip: uipi_index_def split: option.split prod.split)

lemma senduipi_posts:
  assumes route: "uipi_route i r m ua p vec" and vec: "vec < 31"
    and idle: "upid_status (load_upid p ua) AND 0x11 = 0"
    and apics: "apics_wf m" "apics_populated m n" "no_vapic m" "k < n"
    and dst: "ucast (drop_bit 8 (upid_ndst (load_upid p ua))) = apic_id (apic_at m k)"
      "apic_id (apic_at m k) \<noteq> 0xff"
    and other: "current_cpu m \<noteq> Some k"
  shows "\<exists>m'. helper_senduipi i r m = Done () m' \<and>
    load_upid (phys_mem m') ua = (load_upid p ua)
      \<lparr>upid_puir := upid_puir (load_upid p ua) OR 2 ^ vec,
       upid_status := upid_status (load_upid p ua) OR UPID_ON\<rparr> \<and>
    (\<forall>j. irr_set m' j = (if j = k then insert (unat (upid_nv (load_upid p ua))) (irr_set m k)
                         else irr_set m j)) \<and>
    bit (interrupt_request (cpus m' k)) 4"
proof -
  let ?u = "load_upid p ua"
  let ?u' = "?u\<lparr>upid_puir := upid_puir ?u OR 2 ^ vec, upid_status := upid_status ?u OR UPID_ON\<rparr>"
  let ?m1 = "m\<lparr>phys_mem := store_upid p ua ?u'\<rparr>"
  let ?m' = "send_ipi (apic_id (apic_at m k)) (upid_nv ?u) ?m1"
  have run: "helper_senduipi i r m = Done () ?m'"
    using idle dst(1) by (simp add: senduipi_route [OF route] int_bit_small [OF vec] upid_post_def)
  have "no_vapic ?m1" using apics(3) by (simp add: no_vapic_def)
  then have "load_upid (phys_mem ?m') ua = ?u'"
    by (simp add: send_ipi_mem load_upid_store_upid)
  moreover have "apics_wf ?m1" "apics_populated ?m1 n"
    using apics by (simp_all add: apics_wf_def apics_populated_def)
  from send_ipi_to [OF this apics(4), of "upid_nv ?u"]
  have "(\<forall>j. irr_set ?m' j = (if j = k then insert (unat (upid_nv ?u)) (irr_set m k) else irr_set m j))
      \<and> bit (interrupt_request (cpus ?m' k)) 4"
    using dst(2) other by (simp add: Let_def)
  ultimately show ?thesis using run by blast
qed



text \<open>
  C23: The two tests that keep \<^verbatim>\<open>SENDUIPI\<close> from posting: an index beyond the table size raises a
  general-protection fault with nothing changed; a user vector of 32 or more, although the
  architecture has 64, runs into the undefined shift.
\<close>

theorem senduipi_errors:
  shows "(ucast (uintr_misc (env_of m i)) < uipi_index (env_of m i) r \<longrightarrow>
      helper_senduipi i r m = Raise EXCP0D_GPF 0 m) \<and>
    (uipi_route i r m ua p vec \<and> 32 \<le> vec \<longrightarrow> helper_senduipi i r m = Undefined)"
proof (intro conjI impI)
  assume "ucast (uintr_misc (env_of m i)) < uipi_index (env_of m i) r"
  then show "helper_senduipi i r m = Raise EXCP0D_GPF 0 m"
    by (simp add: helper_senduipi_def uipi_index_def Let_def)
next
  assume "uipi_route i r m ua p vec \<and> 32 \<le> vec"
  then show "helper_senduipi i r m = Undefined"
    using senduipi_route [of i r m ua p vec] int_bit_wide [of vec] by simp
qed

section \<open>Receiving\<close>

text \<open>
  The notification in service at APIC \<open>j\<close> is edge triggered, as every vector \<^verbatim>\<open>send_ipi\<close>
  requests, and the APIC has no VAPIC page: its end of interrupt concerns nobody else.
\<close>

definition edge_service :: "nat \<Rightarrow> machine \<Rightarrow> bool" where
  "edge_service j m \<longleftrightarrow> (\<exists>s. local_apics m j = Some s \<and> vapic_paddr s = 0 \<and>
     (0 \<le> get_highest_priority_int (isr s) \<longrightarrow>
        \<not> apic_get_bit (tmr s) (nat (get_highest_priority_int (isr s)))))"

lemma clear_eoi_edge:
  assumes "edge_service j m"
  shows "phys_mem (apic_clear_eoi h j m) = phys_mem m"
    and "env (cpus (apic_clear_eoi h j m) k) = env (cpus m k)"
proof -
  obtain s where s: "local_apics m j = Some s" "vapic_paddr s = 0"
    "0 \<le> get_highest_priority_int (isr s) \<longrightarrow>
        \<not> apic_get_bit (tmr s) (nat (get_highest_priority_int (isr s)))"
    using assms by (auto simp: edge_service_def)
  let ?v = "get_highest_priority_int (isr s)"
  let ?m = "upd_apic j (\<lambda>s'. s'\<lparr>isr := apic_reset_bit (isr s') (nat ?v)\<rparr>) m"
  have "apic_sync_vapic j t ?m = ?m" for t
    using s by (intro apic_sync_vapic_none) (simp add: frame_simps)
  then have eq: "apic_clear_eoi h j m = (if ?v < 0 then m else apic_update_irq j ?m)"
    using s by (simp only: apic_clear_eoi_def Let_def option.sel) simp
  show "phys_mem (apic_clear_eoi h j m) = phys_mem m"
    and "env (cpus (apic_clear_eoi h j m) k) = env (cpus m k)"
    unfolding eq by (simp_all only: apic_update_irq_simps upd_apic_simps if_cancel split: if_split) simp_all
qed


lemma edge_service_cong: "local_apics m' = local_apics m \<Longrightarrow> edge_service j m' = edge_service j m"
  by (simp add: edge_service_def)

text \<open>The vector delivered is the highest one requested.\<close>

definition top_bit :: "u64 \<Rightarrow> nat" where
  "top_bit w = 63 - clz w"

lemma top_bit: "w \<noteq> 0 \<Longrightarrow> bit w (top_bit w) \<and> (\<forall>k. top_bit w < k \<longrightarrow> \<not> bit w k)"
  using clz_nonzero [of w] by (simp add: top_bit_def)

lemma upd_env_mem: "env_of ((upd_env i f m)\<lparr>phys_mem := x\<rparr>) i = f (env_of m i)"
  by (simp add: upd_env_def upd_cpu_def)

lemma machine_phys_mem: "phys_mem (m\<lparr>phys_mem := x\<rparr>) = x"
  by simp

lemma notification_enters:
  assumes win: "stack_window i ok win phys"
    and cur: "cpu_get_current_apic m = Some j" and edge: "edge_service j m"
    and e: "e = env_of m i" and listening: "uintr_uif e \<noteq> 0" "cpl_of e = 3"
    and upid: "get_hphys2 e (uintr_pd e) MMU_DATA_LOAD (phys_mem m) = Done ua p" "u = load_upid p ua"
    and r: "upid_puir u \<noteq> 0" "top_bit (upid_puir u) < 31"
    and q: "q = store_upid p ua (u\<lparr>upid_status := upid_status u AND NOT 1, upid_puir := 0\<rparr>)"
    and stack: "esp = uintr_stack e" "frame_in win esp" "ok (paging_view e) q"
  shows "\<exists>m'. do_uintr_notification i m = Done () m' \<and>
    env_of m' i = enter_handler esp (top_bit (upid_puir u)) (e\<lparr>uintr_rr := upid_puir u\<rparr>) \<and>
    phys_mem m' = frame_mem phys esp (regs e R_ESP) (eflags e) (eip e)
      (of_nat (top_bit (upid_puir u))) q"
proof -
  let ?m2 = "(upd_env i (\<lambda>e. e\<lparr>uintr_rr := upid_puir u\<rparr>) (m\<lparr>phys_mem := p\<rparr>))\<lparr>phys_mem := q\<rparr>"
  let ?m3 = "apic_clear_eoi pc_env j ?m2"
  have cur2: "cpu_get_current_apic ?m2 = Some j" and edge2: "edge_service j ?m2"
    using cur edge
    by (auto simp: cpu_get_current_apic_def edge_service_def upd_env_def upd_cpu_def
        split: option.splits if_splits)
  have run: "do_uintr_notification i m = helper_rrnzero i ?m3"
    using listening upid r(1) q e cur2
    by (simp add: do_uintr_notification_def Let_def uif_enable_def helper_clear_eoi_def
        upd_env_def upd_cpu_def)
  have env3: "env_of ?m3 i = e\<lparr>uintr_rr := upid_puir u\<rparr>"
    by (rule trans [OF clear_eoi_edge(2) [OF edge2]]) (simp add: upd_env_def upd_cpu_def e)
  have mem3: "phys_mem ?m3 = q"
    by (rule trans [OF clear_eoi_edge(1) [OF edge2]]) simp
  have same: "uintr_stack (e\<lparr>uintr_rr := upid_puir u\<rparr>) = esp"
    "paging_view (e\<lparr>uintr_rr := upid_puir u\<rparr>) = paging_view e"
    unfolding stack(1) by (simp_all add: uintr_stack_def paging_view_def)
  note enter = stack_window.rrnzero_win [OF win, of ?m3, unfolded env3 mem3 same]
  let ?m4 = "(upd_env i (enter_handler esp (top_bit (upid_puir u))) ?m3)
      \<lparr>phys_mem := frame_mem phys esp (regs e R_ESP) (eflags e) (eip e)
         (of_nat (top_bit (upid_puir u))) q\<rparr>"
  have "helper_rrnzero i ?m3 = Done () ?m4"
    using enter [OF stack(3,2)] r by (simp add: top_bit_def)
  moreover have "env_of ?m4 i = enter_handler esp (top_bit (upid_puir u)) (e\<lparr>uintr_rr := upid_puir u\<rparr>)"
    unfolding upd_env_mem env3 by (rule refl)
  moreover have "phys_mem ?m4 = frame_mem phys esp (regs e R_ESP) (eflags e) (eip e)
      (of_nat (top_bit (upid_puir u))) q"
    by (rule machine_phys_mem)
  ultimately show ?thesis unfolding run by (intro exI [of _ ?m4] conjI)
qed

lemma load_upid_bytes:
  assumes "load_bytes p a 16 = load_bytes q a 16"
  shows "load_upid p a = load_upid q a"
proof -
  have b: "p (a + of_nat k) = q (a + of_nat k)" if "k < 16" for k
    using arg_cong [OF assms, of "\<lambda>bs. bs ! k"] that by (simp add: load_bytes_def)
  have "load_bytes p (a + of_nat k) n = load_bytes q (a + of_nat k) n" if "k + n \<le> 16" for k n
    unfolding load_bytes_def
  proof (rule map_cong)
    fix x assume "x \<in> set [0..<n]"
    then have "k + x < 16" using that by (simp only: set_upt atLeastLessThan_iff) simp
    from b [OF this] show "p (a + of_nat k + of_nat x) = q (a + of_nat k + of_nat x)"
      by (simp add: add.assoc)
  qed simp
  from this [of 4 4] this [of 8 8] b [of 0] b [of 1] b [of 2] b [of 3]
  show ?thesis by (simp add: load_upid_def ldl_le_def ldq_le_def)
qed

lemma load_upid_stq: "apart b 8 a 16 \<Longrightarrow> load_upid (stq_le p b v) a = load_upid p a"
  by (rule load_upid_bytes) (simp add: stq_le_def load_store_apart)

lemma load_upid_frame:
  assumes "frame_in win esp" "\<And>b. win b \<Longrightarrow> apart (phys b) 8 a 16"
  shows "load_upid (frame_mem phys esp rsp efl ip v p) a = load_upid p a"
  using assms by (simp add: frame_in_def frame_mem_def load_upid_stq)

text \<open>
  C3: A notification at a processor in ring 3 with the user-interrupt flag set and requests in
  its descriptor enters the user handler. The highest requested vector is on top of a stack
  frame with the interrupted RIP, flags and RSP below it, the other requests stay in the
  request register, the flag is cleared, and the descriptor in memory is idle again. The
  highest vector is taken to be below 31, where the shift that clears it is exact.
\<close>

theorem uintr_delivery:
  assumes win: "stack_window i ok win phys" "\<And>b. win b \<Longrightarrow> apart (phys b) 8 ua 16"
    and cur: "cpu_get_current_apic m = Some j" "edge_service j m"
    and e: "e = env_of m i" "uintr_uif e \<noteq> 0" "cpl_of e = 3"
    and upid: "get_hphys2 e (uintr_pd e) MMU_DATA_LOAD (phys_mem m) = Done ua p" "u = load_upid p ua"
    and r: "upid_puir u \<noteq> 0" "v = top_bit (upid_puir u)" "v < 31"
    and stack: "esp = uintr_stack e" "frame_in win esp"
      "ok (paging_view e) (store_upid p ua (u\<lparr>upid_status := upid_status u AND NOT 1, upid_puir := 0\<rparr>))"
  shows "\<exists>m'. do_uintr_notification i m = Done () m' \<and>
    (let e' = env_of m' i; q = phys_mem m' in
     bit (upid_puir u) v \<and> (\<forall>k>v. \<not> bit (upid_puir u) k) \<and>
     eip e' = uintr_handler e \<and> uintr_uif e' = 0 \<and> regs e' R_ESP = esp - 32 \<and>
     uintr_rr e' = upid_puir u AND NOT (2 ^ v) \<and>
     ldq_le q (phys (esp - 32)) = of_nat v \<and> ldq_le q (phys (esp - 24)) = eip e \<and>
     ldq_le q (phys (esp - 16)) = eflags e \<and> ldq_le q (phys (esp - 8)) = regs e R_ESP \<and>
     load_upid q ua = u\<lparr>upid_status := upid_status u AND NOT 1, upid_puir := 0\<rparr>)"
proof -
  obtain m' where m': "do_uintr_notification i m = Done () m'"
    "env_of m' i = enter_handler esp v (e\<lparr>uintr_rr := upid_puir u\<rparr>)"
    "phys_mem m' = frame_mem phys esp (regs e R_ESP) (eflags e) (eip e) (of_nat v)
       (store_upid p ua (u\<lparr>upid_status := upid_status u AND NOT 1, upid_puir := 0\<rparr>))"
    using notification_enters [OF win(1) cur e upid r(1) _ refl stack] r(2,3) by auto
  note frame = stack_window.frame_mem_load [OF win(1) stack(2)]
    load_upid_frame [OF stack(2), of phys ua, OF win(2)]
  show ?thesis
    using m'(1) top_bit [OF r(1)] unfolding r(2) [symmetric]
    by (intro exI [of _ m']) (simp add: m'(2,3) Let_def enter_handler_def frame load_upid_store_upid)
qed


section \<open>Where the extension fails\<close>

lemma giga_hphys2:
  assumes "giga_tables e p" "a < 0x40000000"
  shows "get_hphys2 e a MMU_DATA_LOAD p = Done a p"
proof -
  have "path_allows [0x2027, 0xe7] MMU_DATA_LOAD MMU_KNOSMAP_IDX (get_pg_mode e)"
    by (simp add: path_allows_def)
  then show ?thesis
    using giga_translate [OF assms, of MMU_DATA_LOAD MMU_KNOSMAP_IDX]
    by (auto simp: get_hphys2_def)
qed


text \<open>A load that returns has changed nothing but page-table marks in memory.\<close>

lemma tlb_fill_cpus: "x86_cpu_tlb_fill i a w idx m = Done r m' \<Longrightarrow> cpus m' = cpus m"
proof -
  have on: "cpus m' = cpus m" if "on_mem m x = Done r m'" for x :: "('a, mem) outcome" and r m'
    using that by (cases x) auto
  assume "x86_cpu_tlb_fill i a w idx m = Done r m'"
  then show ?thesis
    by (auto simp: x86_cpu_tlb_fill_def handle_mmu_fault_def Let_def bind_outcome_Done_iff dest!: on
        split: if_splits sum.split_asm)
qed

lemma POPQ_cpus: "POPQ i sp m = Done r m' \<Longrightarrow> cpus m' = cpus m"
  by (auto simp: POPQ_def cpu_ldq_kernel_def guest_load_def Let_def bind_outcome_Done_iff
      dest!: tlb_fill_cpus split: if_splits)


section \<open>Two processors\<close>

text \<open>
  Both processors run in ring 3 on the gigabyte of \<^const>\<open>example_tables\<close>. The target table at
  \<^verbatim>\<open>0x5000\<close> has one entry, for user vector 5 of the descriptor at \<^verbatim>\<open>0x6000\<close>; the descriptor
  names processor 1 and notification vector \<^verbatim>\<open>0xec\<close>. Processor \<open>c\<close> is the one running.
\<close>

definition uintr_env :: "bool \<Rightarrow> CPUX86State" where
  "uintr_env smap = (paged_env example_env)\<lparr>hflags := (if smap then 0x00d0c033 else 0x0050c033),
     regs := (\<lambda>_. 0)(R_ESP := 0x7ff8), uintr_tt := 0x5001, uintr_pd := 0x6000\<rparr>"

definition example_upid :: "u8 \<Rightarrow> u64 \<Rightarrow> uintr_upid" where
  "example_upid st r = \<lparr>upid_status = st, upid_reserved1 = 0, upid_nv = 0xec, upid_reserved2 = 0,
     upid_ndst = 0x100, upid_puir = r\<rparr>"

definition uintr_mem :: "uintr_upid \<Rightarrow> mem" where
  "uintr_mem u = store_upid (stq_le (stq_le example_tables 0x5000 0x0501) 0x5008 0x6000) 0x6000 u"

definition uintr_machine :: "nat \<Rightarrow> bool \<Rightarrow> uintr_upid \<Rightarrow> machine" where
  "uintr_machine c smap u = example_machine\<lparr>current_cpu := Some c,
     cpus := (\<lambda>_. example_cpu\<lparr>env := uintr_env smap\<rparr>), phys_mem := uintr_mem u\<rparr>"

lemma uintr_machine_simps [simp]:
  "env_of (uintr_machine c smap u) k = uintr_env smap" "phys_mem (uintr_machine c smap u) = uintr_mem u"
  "current_cpu (uintr_machine c smap u) = Some c"
  "local_apics (uintr_machine c smap u) = local_apics example_machine"
  by (simp_all add: uintr_machine_def)

lemma uintr_mem_tables: "ldq_le (uintr_mem u) 0x1000 = 0x2027" "ldq_le (uintr_mem u) 0x2000 = 0xe7"
  by (simp_all add: uintr_mem_def store_upid_apart ldq_stq_apart apart_def example_tables_entries)

lemma uintr_mem_upid [simp]: "load_upid (uintr_mem u) 0x6000 = u"
  by (simp add: uintr_mem_def load_upid_store_upid)

lemma uintr_mem_uitte: "load_uitte (uintr_mem u) 0x5000 =
    \<lparr>uitte_valid = 1, user_vec = 5, target_upid_addr = 0x6000\<rparr>"
proof -
  have "ldq_le (uintr_mem u) 0x5008 = 0x6000"
    by (simp add: uintr_mem_def store_upid_apart apart_def)
  moreover have "uintr_mem u 0x5000 = 1" "uintr_mem u 0x5001 = 5"
    by (simp_all add: uintr_mem_def store_upid_def stq_le_def store_bytes_def nth_le_bytes)
  ultimately show ?thesis by (simp add: load_uitte_def)
qed

lemma uintr_env_tables: "giga_tables (uintr_env smap) (uintr_mem u)"
  by (simp add: giga_tables_def uintr_env_def paged_env_def example_env_def uintr_mem_tables
      x86_get_a20_mask_def bit_1_iff)

lemma uintr_route: "uipi_route 0 7 (uintr_machine c smap u) 0x6000 (uintr_mem u) 5"
proof -
  have "uipi_index (uintr_env smap) 7 = 0"
    "push_bit 3 (drop_bit 3 (uintr_tt (uintr_env smap))) = 0x5000"
    by (simp_all add: uipi_index_def uintr_env_def drop_bit_eq_div push_bit_eq_mult)
  then show ?thesis
    by (simp add: uipi_route_def Let_def giga_hphys2 [OF uintr_env_tables] uintr_mem_uitte)
qed

lemma uintr_populated:
  "apics_wf (uintr_machine c smap u)" "apics_populated (uintr_machine c smap u) 2"
  "no_vapic (uintr_machine c smap u)"
  using example_apics_wf example_populated
  by (simp_all add: apics_wf_def apics_populated_def no_vapic_def example_apic_def)

lemma uintr_cpu:
  "uintr_uif (uintr_env smap) = 1" "cpl_of (uintr_env smap) = 3" "uintr_pd (uintr_env smap) = 0x6000"
  "uintr_stack (uintr_env smap) = 0x7f70" "uintr_rr (uintr_env smap) = 0"
  "uintr_misc (uintr_env smap) = 0"
  by (simp_all add: uintr_env_def paged_env_def example_env_def uintr_stack_def)

lemma uintr_current: "cpu_get_current_apic (uintr_machine 1 smap u) = Some 1"
  by (simp add: cpu_get_current_apic_def)

lemma uintr_edge: "edge_service 1 (uintr_machine c smap u)"
  by (simp add: edge_service_def example_apic_def vector_simps vectors_none)



theorem senduipi_errors_witness:
  "helper_senduipi 0 7 (upd_env 0 (\<lambda>e. e\<lparr>regs := (\<lambda>_. 1)\<rparr>) (uintr_machine 0 False (example_upid 0 0)))
    = Raise EXCP0D_GPF 0 (upd_env 0 (\<lambda>e. e\<lparr>regs := (\<lambda>_. 1)\<rparr>) (uintr_machine 0 False (example_upid 0 0)))"
proof -
  let ?m = "upd_env 0 (\<lambda>e. e\<lparr>regs := (\<lambda>_. 1)\<rparr>) (uintr_machine 0 False (example_upid 0 0))"
  have "env_of ?m 0 = (uintr_env False)\<lparr>regs := (\<lambda>_. 1)\<rparr>" by (simp add: upd_env_def upd_cpu_def)
  then show ?thesis
    using senduipi_errors [of ?m 0 7] by (simp add: uipi_index_def uintr_cpu)
qed


lemma top_bit_20: "top_bit 0x20 = 5"
  by (simp add: top_bit_def) code_simp

text \<open>A part of a window is a window; the stack page is a part of the gigabyte.\<close>

lemma stack_window_mono:
  assumes "stack_window i ok win phys" and "\<And>a. win' a \<Longrightarrow> win a"
  shows "stack_window i ok win' phys"
  using assms unfolding stack_window_def by simp

definition stack_page :: "u64 \<Rightarrow> bool" where
  "stack_page a \<longleftrightarrow> giga_win a \<and> 0x7000 \<le> a \<and> a < 0x8000"

lemma stack_page_window: "stack_window i giga_ok stack_page id"
  by (rule stack_window_mono [OF giga.stack_window_axioms]) (simp add: stack_page_def)

lemma stack_page_upid: "stack_page b \<Longrightarrow> apart (id b) 8 0x6000 16"
  by (subst apart_sym, rule apartI) (auto simp: stack_page_def word_le_nat_alt word_less_nat_alt)

lemma uintr_frame: "frame_in stack_page 0x7f70"
  by (simp add: frame_in_def giga_win_def stack_page_def)

lemma uintr_ok: "giga_ok (uintr_env False) (uintr_mem u)"
  by (simp add: giga_ok_def uintr_env_tables) (simp add: uintr_env_def)

lemma uintr_mem_store: "store_upid (uintr_mem u) 0x6000 u' = uintr_mem u'"
  by (auto simp: uintr_mem_def store_upid_def store_bytes_def)

theorem uintr_delivery_witness:
  "\<exists>m'. do_uintr_notification 1 (uintr_machine 1 False (example_upid 1 0x21)) = Done () m' \<and>
    eip (env_of m' 1) = 0x400000 \<and> uintr_rr (env_of m' 1) = 1 \<and> regs (env_of m' 1) R_ESP = 0x7f50 \<and>
    ldq_le (phys_mem m') 0x7f50 = 5 \<and> load_upid (phys_mem m') 0x6000 = example_upid 0 0"
proof -
  let ?u = "example_upid 1 0x21"
  have r: "upid_puir ?u \<noteq> 0" "5 = top_bit (upid_puir ?u)" "(5 :: nat) < 31"
    by (simp_all add: example_upid_def top_bit_def) code_simp
  have idle: "?u\<lparr>upid_status := upid_status ?u AND NOT 1, upid_puir := 0\<rparr> = example_upid 0 0"
    by (simp add: example_upid_def)
  have "get_hphys2 (uintr_env False) (uintr_pd (uintr_env False)) MMU_DATA_LOAD
      (phys_mem (uintr_machine 1 False ?u)) = Done 0x6000 (uintr_mem ?u)"
    by (simp add: uintr_cpu giga_hphys2 [OF uintr_env_tables])
  from uintr_delivery [OF stack_page_window [of 1] stack_page_upid uintr_current uintr_edge _ _ uintr_cpu(2)
      this _ r uintr_cpu(4) [symmetric] uintr_frame]
  show ?thesis
    unfolding uintr_mem_store idle uintr_mem_upid
    using uintr_ok giga_ok_view by (auto simp: uintr_cpu Let_def idle)
      (auto simp: uintr_env_def paged_env_def example_env_def example_upid_def)
qed

text \<open>The receiver with a request already in its request register.\<close>

definition requested_machine :: "bool \<Rightarrow> machine" where
  "requested_machine smap = (uintr_machine 1 smap (example_upid 0 0))
     \<lparr>cpus := (\<lambda>_. example_cpu\<lparr>env := (uintr_env smap)\<lparr>uintr_rr := 0x20\<rparr>\<rparr>)\<rparr>"

lemma requested_simps [simp]:
  "env_of (requested_machine smap) k = (uintr_env smap)\<lparr>uintr_rr := 0x20\<rparr>"
  "phys_mem (requested_machine smap) = uintr_mem (example_upid 0 0)"
  by (simp_all add: requested_machine_def)

lemma requested_same:
  "paging_view (e\<lparr>uintr_rr := r\<rparr>) = paging_view e" "uintr_stack (e\<lparr>uintr_rr := r\<rparr>) = uintr_stack e"
  "giga_tables (e\<lparr>uintr_rr := r\<rparr>) p = giga_tables e p"
  by (simp_all add: paging_view_def uintr_stack_def giga_tables_def x86_get_a20_mask_def)


lemma requested_enters:
  "\<exists>m1. helper_rrnzero 1 (requested_machine False) = Done () m1 \<and>
    env_of m1 1 = enter_handler 0x7f70 5 ((uintr_env False)\<lparr>uintr_rr := 0x20\<rparr>) \<and>
    phys_mem m1 = frame_mem id 0x7f70 0x7ff8 0x202 0x1000 5 (uintr_mem (example_upid 0 0))"
proof -
  let ?m = "requested_machine False"
  have b: "63 - clz (0x20 :: u64) = 5" using top_bit_20 by (simp add: top_bit_def)
  have e: "regs (uintr_env False) R_ESP = 0x7ff8" "eflags (uintr_env False) = 0x202"
    "eip (uintr_env False) = 0x1000"
    by (simp_all add: uintr_env_def paged_env_def example_env_def)
  have "giga_ok (paging_view (env_of ?m 1)) (phys_mem ?m)"
    by (simp add: requested_same giga_ok_view uintr_ok)
  from stack_window.rrnzero_win [OF stack_page_window this] uintr_frame
  have "helper_rrnzero 1 ?m = Done () ((upd_env 1 (enter_handler 0x7f70 5) ?m)
      \<lparr>phys_mem := frame_mem id 0x7f70 0x7ff8 0x202 0x1000 5 (uintr_mem (example_upid 0 0))\<rparr>)"
    by (simp add: requested_same uintr_cpu b e)
  moreover note upd_env_mem [where i = 1 and f = "enter_handler 0x7f70 5" and m = ?m, unfolded requested_simps]
  ultimately show ?thesis by (intro exI conjI) (assumption, assumption, simp)
qed



end
