(* ===== verification/Interrupt64.thy ===== *)
theory Interrupt64
  imports UINTR_Delivery
begin

text \<open>
  Interrupt and exception delivery in long mode: descriptor loading, the stack pointer from
  the task-state segment, \<^verbatim>\<open>do_interrupt64\<close> with every check of the gate and of the target
  segment (\<^verbatim>\<open>target/i386/tcg/seg_helper.c\<close>), and the hardware-interrupt side of
  \<^verbatim>\<open>x86_cpu_exec_interrupt\<close> (\<^verbatim>\<open>target/i386/tcg/sysemu/seg_helper.c\<close>) for a processor in long
  mode that is not an SVM guest. \<^verbatim>\<open>cpu_abort\<close>, which ends the program, is \<^const>\<open>Undefined\<close>.
\<close>

section \<open>Descriptors\<close>

abbreviation (input) DESC_G_SHIFT :: nat where "DESC_G_SHIFT \<equiv> 23"
abbreviation (input) DESC_B_SHIFT :: nat where "DESC_B_SHIFT \<equiv> 22"
abbreviation (input) DESC_L_SHIFT :: nat where "DESC_L_SHIFT \<equiv> 21"
abbreviation (input) DESC_P_SHIFT :: nat where "DESC_P_SHIFT \<equiv> 15"
abbreviation (input) DESC_DPL_SHIFT :: nat where "DESC_DPL_SHIFT \<equiv> 13"
abbreviation (input) DESC_S_SHIFT :: nat where "DESC_S_SHIFT \<equiv> 12"
abbreviation (input) DESC_CS_SHIFT :: nat where "DESC_CS_SHIFT \<equiv> 11"
abbreviation (input) DESC_C_SHIFT :: nat where "DESC_C_SHIFT \<equiv> 10"
abbreviation (input) DESC_TYPE_SHIFT :: nat where "DESC_TYPE_SHIFT \<equiv> 8"

abbreviation (input) EXCP0A_TSS :: nat where "EXCP0A_TSS \<equiv> 10"
abbreviation (input) EXCP0B_NOSEG :: nat where "EXCP0B_NOSEG \<equiv> 11"
abbreviation (input) EXCP0C_STACK :: nat where "EXCP0C_STACK \<equiv> 12"

text \<open>The two words of a descriptor, or \<^const>\<open>None\<close> beyond the limit of its table.\<close>

definition load_segment :: "nat \<Rightarrow> u32 \<Rightarrow> machine \<Rightarrow> ((u32 \<times> u32) option, machine) outcome" where
  "load_segment i sel m =
     (let dt = (if bit sel 2 then ldt (env_of m i) else gdt (env_of m i));
          index = sel AND NOT 7
      in if limit dt < index + 7 then Done None m
         else
           let ptr = base dt + scast index in
           bind_outcome (cpu_ldl_kernel i ptr m) (\<lambda>e1 m.
           bind_outcome (cpu_ldl_kernel i (ptr + 4) m) (\<lambda>e2 m.
           Done (Some (e1, e2)) m)))"

definition get_seg_limit :: "u32 \<Rightarrow> u32 \<Rightarrow> u32" where
  "get_seg_limit e1 e2 =
     (let lim = (e1 AND 0xffff) OR (e2 AND 0x000f0000)
      in if bit e2 DESC_G_SHIFT then push_bit 12 lim OR 0xfff else lim)"

definition get_seg_base :: "u32 \<Rightarrow> u32 \<Rightarrow> u32" where
  "get_seg_base e1 e2 = drop_bit 16 e1 OR push_bit 16 (e2 AND 0xff) OR (e2 AND 0xff000000)"

definition desc_dpl :: "u32 \<Rightarrow> u32" where
  "desc_dpl e2 = drop_bit DESC_DPL_SHIFT e2 AND 3"

definition get_rsp_from_tss :: "nat \<Rightarrow> u32 \<Rightarrow> machine \<Rightarrow> (u64, machine) outcome" where
  "get_rsp_from_tss i level m =
     (let e = env_of m i; index = 8 * level + 4
      in if \<not> bit (seg_flags (tr e)) DESC_P_SHIFT then Undefined
         else if limit (tr e) < index + 7 then Raise EXCP0A_TSS (selector (tr e) AND 0xfffc) m
         else bind_outcome (cpu_ldq_kernel i (base (tr e) + ucast index) m) (\<lambda>rsp m.
           if canonical (get_pg_mode (env_of m i)) rsp then Done rsp m
           else Raise EXCP0C_STACK 0 m))"

definition exception_has_error_code :: "int \<Rightarrow> bool" where
  "exception_has_error_code intno \<longleftrightarrow> intno \<in> {8, 10, 11, 12, 13, 14, 17}"

section \<open>Delivery through a gate\<close>

text \<open>
  The parts of \<^verbatim>\<open>do_interrupt64\<close> after the user-interrupt branch. The gate: its type, the
  privilege and presence tests, and from it selector, offset and stack-table index.
\<close>

record gate =
  gate_type :: u32
  gate_selector :: u32
  gate_offset :: u64
  gate_ist :: u32

definition load_gate :: "nat \<Rightarrow> int \<Rightarrow> bool \<Rightarrow> machine \<Rightarrow> (gate, machine) outcome" where
  "load_gate i intno is_int m =
     (let e = env_of m i; dt = idt e; n = of_int intno :: u32; err = n * 16 + 2
      in if limit dt < n * 16 + 15 then Raise EXCP0D_GPF err m
         else
           let ptr = base dt + scast (n * 16) in
           bind_outcome (cpu_ldl_kernel i ptr m) (\<lambda>e1 m.
           bind_outcome (cpu_ldl_kernel i (ptr + 4) m) (\<lambda>e2 m.
           bind_outcome (cpu_ldl_kernel i (ptr + 8) m) (\<lambda>e3 m.
           let typ = drop_bit DESC_TYPE_SHIFT e2 AND 0x1f in
           if typ \<noteq> 14 \<and> typ \<noteq> 15 then Raise EXCP0D_GPF err m
           else if is_int \<and> desc_dpl e2 < cpl_of e then Raise EXCP0D_GPF err m
           else if \<not> bit e2 DESC_P_SHIFT then Raise EXCP0B_NOSEG err m
           else Done \<lparr>gate_type = typ, gate_selector = drop_bit 16 e1,
                      gate_offset = push_bit 32 (ucast e3) OR ucast (e2 AND 0xffff0000) OR ucast (e1 AND 0xffff),
                      gate_ist = e2 AND 7\<rparr> m))))"

text \<open>The code segment the gate names, with the privilege level the handler gets.\<close>

definition load_target :: "nat \<Rightarrow> u32 \<Rightarrow> machine \<Rightarrow> (u32 \<times> u32 \<times> u32, machine) outcome" where
  "load_target i sel m =
     (let cpl = cpl_of (env_of m i); err = sel AND 0xfffc
      in if sel AND 0xfffc = 0 then Raise EXCP0D_GPF 0 m
         else bind_outcome (load_segment i sel m) (\<lambda>r m.
           case r of
             None \<Rightarrow> Raise EXCP0D_GPF err m
           | Some (e1, e2) \<Rightarrow>
               if \<not> bit e2 DESC_S_SHIFT \<or> \<not> bit e2 DESC_CS_SHIFT then Raise EXCP0D_GPF err m
               else if cpl < desc_dpl e2 then Raise EXCP0D_GPF err m
               else if \<not> bit e2 DESC_P_SHIFT then Raise EXCP0B_NOSEG err m
               else if \<not> bit e2 DESC_L_SHIFT \<or> bit e2 DESC_B_SHIFT then Raise EXCP0D_GPF err m
               else Done (e1, e2, if bit e2 DESC_C_SHIFT then cpl else desc_dpl e2) m))"

text \<open>The stack of the handler, and whether it is a new one.\<close>

definition handler_stack :: "nat \<Rightarrow> u32 \<Rightarrow> u32 \<Rightarrow> u32 \<Rightarrow> machine \<Rightarrow> (bool \<times> u64, machine) outcome" where
  "handler_stack i dpl ist sel m =
     (let e = env_of m i
      in if dpl < cpl_of e \<or> ist \<noteq> 0 then
           bind_outcome (get_rsp_from_tss i (if ist \<noteq> 0 then ist + 3 else dpl) m)
             (\<lambda>esp m. Done (True, esp AND NOT 0xf) m)
         else if bit (eflags e) VM_SHIFT then Raise EXCP0D_GPF (sel AND 0xfffc) m
         else Done (False, regs e R_ESP AND NOT 0xf) m)"

definition push_frame ::
    "nat \<Rightarrow> u64 \<Rightarrow> u64 \<Rightarrow> u32 option \<Rightarrow> machine \<Rightarrow> (u64, machine) outcome" where
  "push_frame i esp old_eip error m =
     (let e = env_of m i in
      bind_outcome (PUSHQ i esp (ucast (selector (segs e R_SS))) m) (\<lambda>esp m.
      bind_outcome (PUSHQ i esp (regs e R_ESP) m) (\<lambda>esp m.
      bind_outcome (PUSHQ i esp (ucast (cpu_compute_eflags e)) m) (\<lambda>esp m.
      bind_outcome (PUSHQ i esp (ucast (selector (segs e R_CS))) m) (\<lambda>esp m.
      bind_outcome (PUSHQ i esp old_eip m) (\<lambda>esp m.
      case error of
        None \<Rightarrow> Done esp m
      | Some c \<Rightarrow> PUSHQ i esp (scast c) m))))))"

text \<open>
  The new registers: \<^verbatim>\<open>IF_MASK\<close> is \<^verbatim>\<open>0x200\<close>, \<^verbatim>\<open>TF | VM | RF | NT\<close> is \<^verbatim>\<open>0x34100\<close>.
\<close>

definition enter_gate ::
    "gate \<Rightarrow> u32 \<Rightarrow> u32 \<Rightarrow> u32 \<Rightarrow> bool \<Rightarrow> u64 \<Rightarrow> CPUX86State \<Rightarrow> CPUX86State" where
  "enter_gate g e1 e2 dpl new_stack esp e =
     (let ea = (if bit (gate_type g) 0 then e else e\<lparr>eflags := eflags e AND NOT 0x200\<rparr>);
          eb = ea\<lparr>eflags := eflags ea AND NOT 0x34100\<rparr>;
          ec = (if new_stack then cpu_x86_load_seg_cache eb R_SS dpl 0 0 (push_bit DESC_DPL_SHIFT dpl)
                else eb);
          ed = set_rsp esp ec;
          ee = cpu_x86_load_seg_cache ed R_CS ((gate_selector g AND NOT 3) OR dpl)
                 (ucast (get_seg_base e1 e2)) (get_seg_limit e1 e2) e2
      in ee\<lparr>eip := gate_offset g\<rparr>)"

definition do_interrupt64 ::
    "nat \<Rightarrow> int \<Rightarrow> bool \<Rightarrow> u32 \<Rightarrow> u64 \<Rightarrow> bool \<Rightarrow> machine \<Rightarrow> (unit, machine) outcome" where
  "do_interrupt64 i intno is_int error next_eip is_hw m =
     (let has_error_code = (\<not> is_int \<and> \<not> is_hw \<and> exception_has_error_code intno);
          old_eip = (if is_int then next_eip else eip (env_of m i))
      in if intno = int UINTR_UINV then do_uintr_notification i m
         else
           bind_outcome (load_gate i intno is_int m) (\<lambda>g m.
           bind_outcome (load_target i (gate_selector g) m) (\<lambda>(e1, e2, dpl) m.
           bind_outcome (handler_stack i dpl (gate_ist g) (gate_selector g) m) (\<lambda>(new_stack, esp) m.
           bind_outcome (push_frame i esp old_eip (if has_error_code then Some error else None) m)
             (\<lambda>esp m.
           Done () (upd_env i (enter_gate g e1 e2 dpl new_stack esp) m))))))"

section \<open>Taking an interrupt\<close>

text \<open>
  \<^verbatim>\<open>x86_cpu_exec_interrupt\<close>: a poll request, a start-up message, and the non-maskable,
  machine-check and hardware interrupts, which go through \<^verbatim>\<open>do_interrupt_x86_hardirq\<close> and
  \<^verbatim>\<open>do_interrupt_all\<close> to \<^verbatim>\<open>do_interrupt64\<close>. The result is whether anything was taken;
  \<open>None\<close> stands for the two request kinds left out, the system-management interrupt and the
  virtual interrupt of an SVM guest.
\<close>

definition exec_interrupt :: "nat \<Rightarrow> machine \<Rightarrow> (bool option, machine) outcome" where
  "exec_interrupt i m =
     (let req = x86_cpu_pending_interrupt (env_of m i) (interrupt_request (cpus m i))
      in if req = 0 then Done (Some False) m
         else if req = CPU_INTERRUPT_POLL then
           Done (Some True) (apic_poll_irq i (cpu_reset_interrupt i CPU_INTERRUPT_POLL m))
         else if req = CPU_INTERRUPT_SIPI then Done (Some True) (apic_sipi i m)
         else if req = CPU_INTERRUPT_NMI then
           bind_outcome (do_interrupt64 i 2 False 0 0 True
             (upd_env i (\<lambda>e. e\<lparr>hflags2 := hflags2 e OR push_bit HF2_NMI_SHIFT 1\<rparr>)
               (cpu_reset_interrupt i CPU_INTERRUPT_NMI m))) (\<lambda>_ m. Done (Some True) m)
         else if req = CPU_INTERRUPT_MCE then
           bind_outcome (do_interrupt64 i 18 False 0 0 False (cpu_reset_interrupt i CPU_INTERRUPT_MCE m))
             (\<lambda>_ m. Done (Some True) m)
         else if req = CPU_INTERRUPT_HARD then
           (case cpu_get_pic_interrupt i
                   (cpu_reset_interrupt i (CPU_INTERRUPT_HARD OR CPU_INTERRUPT_VIRQ) m) of
              (intno, m1) \<Rightarrow>
                bind_outcome (do_interrupt64 i intno False 0 0 True m1) (\<lambda>_ m. Done (Some True) m))
         else Done None m)"

section \<open>Privilege\<close>

lemma cpu_ldl_kernel_cpus: "cpu_ldl_kernel i a m = Done r m' \<Longrightarrow> cpus m' = cpus m"
  by (auto simp: cpu_ldl_kernel_def guest_load_def Let_def bind_outcome_Done_iff
      dest!: tlb_fill_cpus split: if_splits)

lemma cpu_ldq_kernel_cpus: "cpu_ldq_kernel i a m = Done r m' \<Longrightarrow> cpus m' = cpus m"
  by (auto simp: cpu_ldq_kernel_def guest_load_def Let_def bind_outcome_Done_iff
      dest!: tlb_fill_cpus split: if_splits)

lemma PUSHQ_Done: "PUSHQ i sp v m = Done r m' \<Longrightarrow> r = sp - 8 \<and> cpus m' = cpus m"
  by (auto simp: PUSHQ_def cpu_stq_kernel_def guest_store_def Let_def bind_outcome_Done_iff
      dest!: tlb_fill_cpus split: if_splits)

lemma load_segment_cpus: "load_segment i sel m = Done r m' \<Longrightarrow> cpus m' = cpus m"
  by (auto simp: load_segment_def Let_def bind_outcome_Done_iff dest!: cpu_ldl_kernel_cpus
      split: if_splits)

lemma load_gate_cpus: "load_gate i n b m = Done g m' \<Longrightarrow> cpus m' = cpus m"
  by (auto simp: load_gate_def Let_def bind_outcome_Done_iff dest!: cpu_ldl_kernel_cpus
      split: if_splits)

lemma get_rsp_from_tss_cpus: "get_rsp_from_tss i level m = Done r m' \<Longrightarrow> cpus m' = cpus m"
  by (auto simp: get_rsp_from_tss_def Let_def bind_outcome_Done_iff dest!: cpu_ldq_kernel_cpus
      split: if_splits)

lemma load_target_Done:
  assumes "load_target i sel m = Done (e1, e2, dpl) m'"
  shows "cpus m' = cpus m" "dpl \<le> cpl_of (env_of m i)"
proof -
  obtain a b where seg: "load_segment i sel m = Done (Some (a, b)) m'"
    and dpl: "dpl = (if bit b DESC_C_SHIFT then cpl_of (env_of m i) else desc_dpl b)"
    and le: "\<not> cpl_of (env_of m i) < desc_dpl b"
  proof -
    obtain r m1 where r: "load_segment i sel m = Done r m1"
      using assms by (auto simp: load_target_def Let_def bind_outcome_Done_iff split: if_splits)
      show thesis
    proof (cases r)
      case None
      then show ?thesis using assms r by (simp add: load_target_def Let_def split: if_splits)
    next
      case (Some p)
      obtain a b where p: "p = (a, b)" by (cases p)
      have "m1 = m' \<and> dpl = (if bit b DESC_C_SHIFT then cpl_of (env_of m i) else desc_dpl b) \<and>
          \<not> cpl_of (env_of m i) < desc_dpl b"
        using assms unfolding load_target_def Let_def r Some p bind_outcome.simps option.case prod.case
        by (simp only: split: if_split_asm) auto
      then show ?thesis using r Some p by (intro that [of a b]) auto
    qed
  qed
  from load_segment_cpus [OF seg] show "cpus m' = cpus m" .
  from dpl le show "dpl \<le> cpl_of (env_of m i)" by (simp add: not_less split: if_splits)
qed

lemma handler_stack_Done:
  assumes "handler_stack i dpl ist sel m = Done (new, esp) m'"
  shows "cpus m' = cpus m" "\<exists>x. esp = x AND NOT 0xf" "\<not> new \<Longrightarrow> cpl_of (env_of m i) \<le> dpl"
  using assms
  by (auto simp: handler_stack_def Let_def bind_outcome_Done_iff not_less
      dest!: get_rsp_from_tss_cpus split: if_splits)

lemma push_frame_Done:
  assumes "push_frame i esp ip c m = Done r m'"
  shows "cpus m' = cpus m" "r = esp - (if c = None then 40 else 48)"
proof -
  obtain v1 s1 m1 v2 s2 m2 v3 s3 m3 v4 s4 m4 v5 s5 m5
    where p: "PUSHQ i esp v1 m = Done s1 m1" "PUSHQ i s1 v2 m1 = Done s2 m2"
      "PUSHQ i s2 v3 m2 = Done s3 m3" "PUSHQ i s3 v4 m3 = Done s4 m4" "PUSHQ i s4 v5 m4 = Done s5 m5"
      and last: "(case c of None \<Rightarrow> Done s5 m5 | Some c \<Rightarrow> PUSHQ i s5 (scast c) m5) = Done r m'"
    using assms unfolding push_frame_def Let_def bind_outcome_Done_iff by blast
  note d = PUSHQ_Done [OF p(1)] PUSHQ_Done [OF p(2)] PUSHQ_Done [OF p(3)] PUSHQ_Done [OF p(4)]
    PUSHQ_Done [OF p(5)]
  have e: "(c = None \<and> r = s5 \<and> m' = m5) \<or> (c \<noteq> None \<and> r = s5 - 8 \<and> cpus m' = cpus m5)"
    using last by (cases c) (auto dest: PUSHQ_Done)
  from d e show "cpus m' = cpus m" by metis
  from d e show "r = esp - (if c = None then 40 else 48)" by auto
qed

section \<open>What loading a segment does to the privilege level\<close>

lemma and_3_cong:
  fixes v w :: u32
  assumes "bit v 0 = bit w 0" "bit v 1 = bit w 1"
  shows "v AND 3 = w AND 3"
proof (rule bit_word_eqI)
  have three: "(3 :: u32) = mask 2" by (simp add: mask_eq_exp_minus_1)
  fix n
  show "bit (v AND 3) n = bit (w AND 3) n"
    using assms by (cases "n < 2") (auto simp: three bit_and_iff bit_mask_iff less_2_cases_iff)
qed

lemma cpl_load_cs: "cpl_of (cpu_x86_load_seg_cache e R_CS sel b l flg) = cpl_of e"
  by (rule and_3_cong) (simp_all add: cpu_x86_load_seg_cache_def Let_def bit_simps)

lemma cpl_load_ss:
  assumes "dpl \<le> 3"
  shows "cpl_of (cpu_x86_load_seg_cache e R_SS sel b l (push_bit DESC_DPL_SHIFT dpl)) = dpl"
proof -
  have three: "(3 :: u32) = mask 2" by (simp add: mask_eq_exp_minus_1)
  have small: "dpl AND 3 = dpl"
  proof -
    have "uint dpl < 2 ^ 2" using assms by (simp add: word_le_def)
    then have "take_bit 2 dpl = dpl" 
      by (simp add: word_uint_eq_iff unsigned_take_bit_eq take_bit_int_eq_self)
    then show ?thesis by (simp add: three take_bit_eq_mask)
  qed
  have "cpl_of (cpu_x86_load_seg_cache e R_SS sel b l (push_bit DESC_DPL_SHIFT dpl)) = dpl AND 3"
    by (rule and_3_cong)
      (simp_all add: cpu_x86_load_seg_cache_def cpu_sync_bndcs_hflags_def Let_def bit_simps three)
  with small show ?thesis by simp
qed

lemma load_seg_cache_fields [simp]:
  "eflags (cpu_x86_load_seg_cache e r sel b l flg) = eflags e"
  "regs (cpu_x86_load_seg_cache e r sel b l flg) = regs e"
  "segs (cpu_x86_load_seg_cache e r sel b l flg) =
     (segs e)(r := \<lparr>selector = sel, base = b, limit = l, seg_flags = flg\<rparr>)"
  by (simp_all add: cpu_x86_load_seg_cache_def cpu_sync_bndcs_hflags_def Let_def)

lemma enter_gate_cpl:
  assumes "dpl \<le> cpl_of e" "\<not> new \<Longrightarrow> cpl_of e \<le> dpl"
  shows "cpl_of (enter_gate g e1 e2 dpl new esp e) = dpl"
proof -
  have "dpl \<le> 3" using assms(1) word_and_le1 order_trans by blast
  then show ?thesis
    using assms by (auto simp: enter_gate_def Let_def cpl_load_cs cpl_load_ss set_rsp_def
        simp del: One_nat_def)
qed

lemma enter_gate_fields:
  shows "regs (enter_gate g e1 e2 dpl new esp e) R_ESP = esp"
    "selector (segs (enter_gate g e1 e2 dpl new esp e) R_CS) = (gate_selector g AND NOT 3) OR dpl"
    "eflags (enter_gate g e1 e2 dpl new esp e) AND 0x34100 = 0"
    "eip (enter_gate g e1 e2 dpl new esp e) = gate_offset g"
  by (simp_all add: enter_gate_def Let_def set_rsp_def and.assoc del: One_nat_def)

lemma do_interrupt64_Done:
  assumes "do_interrupt64 i n is_int c ne hw m = Done () m'" "n \<noteq> int UINTR_UINV"
  obtains g e1 e2 dpl new esp esp' mf where
    "m' = upd_env i (enter_gate g e1 e2 dpl new esp') mf" "cpus mf = cpus m"
    "dpl \<le> cpl_of (env_of m i)" "\<not> new \<Longrightarrow> cpl_of (env_of m i) \<le> dpl"
    "\<exists>x. esp = x AND NOT 0xf" "esp' = esp - 40 \<or> esp' = esp - 48"
proof -
  obtain g m1 e1 e2 dpl m2 new esp m3 esp' m4 err old
    where steps: "load_gate i n is_int m = Done g m1"
      "load_target i (gate_selector g) m1 = Done (e1, e2, dpl) m2"
      "handler_stack i dpl (gate_ist g) (gate_selector g) m2 = Done (new, esp) m3"
      "push_frame i esp old err m3 = Done esp' m4"
      and m': "m' = upd_env i (enter_gate g e1 e2 dpl new esp') m4"
    using assms unfolding do_interrupt64_def Let_def
    by (simp only: if_False bind_outcome_Done_iff split_paired_Ex prod.case outcome.inject) metis
  note d = load_gate_cpus [OF steps(1)] load_target_Done [OF steps(2)] handler_stack_Done [OF steps(3)]
    push_frame_Done [OF steps(4)]
  show thesis using d by (intro that [OF m', of esp]) auto
qed

lemma aligned_push:
  fixes x :: u64
  assumes "8 dvd k"
  shows "((x AND NOT 0xf) - of_nat k) AND 7 = 0"
proof -
  have m3: "(7 :: u64) = mask 3" and m4: "(0xf :: u64) = mask 4" by (simp_all add: mask_eq_exp_minus_1)
  obtain y where "x AND NOT 0xf = push_bit 3 y"
  proof
    show "x AND NOT 0xf = push_bit 3 (drop_bit 3 (x AND NOT 0xf))"
      by (rule bit_word_eqI) (auto simp: m4 bit_simps)
  qed
  moreover obtain j where "k = 8 * j" using assms by (elim dvdE)
  ultimately have "(x AND NOT 0xf) - of_nat k = push_bit 3 (y - of_nat j)"
    by (simp add: push_bit_eq_mult algebra_simps)
  then show ?thesis by (simp add: m3 take_bit_push_bit flip: take_bit_eq_mask)
qed

text \<open>
  C7: delivery through a gate never lowers privilege. When \<^verbatim>\<open>do_interrupt64\<close> returns for a
  vector other than the notification vector, the processor's privilege level is at least as
  inner as before (numerically at most), the requested privilege of the new code selector is
  that level, the trap, nested-task, resume and virtual-8086 flags are clear, the stack
  pointer is 8-aligned and no other processor changed.
\<close>

theorem do_interrupt64_privilege:
  assumes "do_interrupt64 i n is_int c ne hw m = Done () m'" "n \<noteq> int UINTR_UINV"
  shows "cpl_of (env_of m' i) \<le> cpl_of (env_of m i) \<and>
    selector (segs (env_of m' i) R_CS) AND 3 = cpl_of (env_of m' i) \<and>
    eflags (env_of m' i) AND 0x34100 = 0 \<and>
    regs (env_of m' i) R_ESP AND 7 = 0 \<and>
    (\<forall>k. k \<noteq> i \<longrightarrow> cpus m' k = cpus m k)"
proof -
  obtain g e1 e2 dpl new esp esp' mf where m': "m' = upd_env i (enter_gate g e1 e2 dpl new esp') mf"
    and mf: "cpus mf = cpus m" and dpl: "dpl \<le> cpl_of (env_of m i)"
    and same: "\<not> new \<Longrightarrow> cpl_of (env_of m i) \<le> dpl" and esp: "\<exists>x. esp = x AND NOT 0xf"
    and esp': "esp' = esp - 40 \<or> esp' = esp - 48"
    using do_interrupt64_Done [OF assms] by metis
  have env: "env_of m' i = enter_gate g e1 e2 dpl new esp' (env_of m i)"
    using mf by (simp add: m' upd_env_def upd_cpu_def)
  have cpl: "cpl_of (env_of m' i) = dpl"
    unfolding env by (rule enter_gate_cpl) (fact dpl same)+
  have "dpl AND 3 = dpl" using cpl by (metis and.assoc and.idem)
  then have sel: "selector (segs (env_of m' i) R_CS) AND 3 = dpl"
    by (simp add: env enter_gate_fields and.assoc bit.conj_disj_distrib2 del: One_nat_def)
  have al: "regs (env_of m' i) R_ESP AND 7 = 0"
    using esp esp' aligned_push [of 40] aligned_push [of 48] by (auto simp: env enter_gate_fields)
  show ?thesis
    using cpl dpl sel al mf by (simp add: env enter_gate_fields) (simp add: m' upd_env_def upd_cpu_def)
qed

section \<open>An example gate\<close>

text \<open>
  Vector \<^verbatim>\<open>0x20\<close> of a table at \<^verbatim>\<open>0x9000\<close> names a 64-bit ring-0 code segment; the
  task-state segment at \<^verbatim>\<open>0xb000\<close> has the ring-0 stack.
\<close>

definition gate_mem :: mem where
  "gate_mem = stl_le (stl_le (stl_le (stl_le (stl_le (stq_le (uintr_mem (example_upid 0 0))
     0xb004 0x7f78) 0xa008 0) 0xa00c 0x00209a00) 0x9200 0x00081234) 0x9204 0x00008e00) 0x9208 0"

definition gate_env :: CPUX86State where
  "gate_env = (uintr_env False)\<lparr>
     idt := \<lparr>selector = 0, base = 0x9000, limit = 0xfff, seg_flags = 0\<rparr>,
     gdt := \<lparr>selector = 0, base = 0xa000, limit = 0xff, seg_flags = 0\<rparr>,
     tr := \<lparr>selector = 0x40, base = 0xb000, limit = 0x67, seg_flags = 0x8b00\<rparr>\<rparr>"

definition gate_machine :: machine where
  "gate_machine = (uintr_machine 0 False (example_upid 0 0))\<lparr>
     cpus := (\<lambda>_. example_cpu\<lparr>env := gate_env\<rparr>), phys_mem := gate_mem\<rparr>"

lemma gate_machine_simps [simp]:
  "env_of gate_machine k = gate_env" "phys_mem gate_machine = gate_mem"
  by (simp_all add: gate_machine_def)

lemma gate_env_simps [simp]:
  "hflags gate_env = 0x0050c033" "base (idt gate_env) = 0x9000" "limit (idt gate_env) = 0xfff"
  "base (gdt gate_env) = 0xa000" "limit (gdt gate_env) = 0xff" "base (tr gate_env) = 0xb000"
  "limit (tr gate_env) = 0x67" "seg_flags (tr gate_env) = 0x8b00"
  by (simp_all add: gate_env_def uintr_env_def)

lemma ldl_stl_apart: "apart a 4 b 4 \<Longrightarrow> ldl_le (stl_le m a v) b = ldl_le m b"
  by (simp add: ldl_le_def stl_le_def load_store_apart)

lemma ldq_stl_apart: "apart a 4 b 8 \<Longrightarrow> ldq_le (stl_le m a v) b = ldq_le m b"
  by (simp add: ldq_le_def stl_le_def load_store_apart)

lemma gate_mem_loads:
  "ldl_le gate_mem 0x9200 = 0x00081234" "ldl_le gate_mem 0x9204 = 0x00008e00"
  "ldl_le gate_mem 0x9208 = 0" "ldl_le gate_mem 0xa008 = 0" "ldl_le gate_mem 0xa00c = 0x00209a00"
  "ldq_le gate_mem 0xb004 = 0x7f78"
  "ldq_le gate_mem 0x1000 = 0x2027" "ldq_le gate_mem 0x2000 = 0xe7"
  by (simp_all add: gate_mem_def ldl_stl_apart ldq_stl_apart ldq_stq_apart apart_def uintr_mem_tables)

lemma gate_ok: "giga_ok gate_env gate_mem"
proof -
  have "giga_ok (uintr_env False) (uintr_mem (example_upid 0 0))" by (rule uintr_ok)
  then show ?thesis
    by (simp add: giga_ok_def giga_tables_def gate_mem_loads) (auto simp: gate_env_def x86_get_a20_mask_def)
qed

lemma giga_read:
  assumes ok: "giga_ok (env_of m i) (phys_mem m)" and a: "a < 0x40000000"
    and page: "unat (a AND 0xfff) + n \<le> 4096"
  shows "guest_load n i a (cpu_mmu_index_kernel (env_of m i)) m = Done (load_bytes (phys_mem m) a n) m"
proof -
  have "(a AND NOT 0xfff) + (a AND 0xfff) = (a AND NOT 0xfff) OR (a AND 0xfff)"
    by (rule disjoint_add)
  also have "\<dots> = a" by (rule bit_word_eqI) (auto simp: bit_simps)
  finally have split: "(a AND NOT 0xfff) + (a AND 0xfff) = a" .
  obtain pr where "x86_cpu_tlb_fill i a MMU_DATA_LOAD (cpu_mmu_index_kernel (env_of m i)) m =
      Done (a AND NOT 0xfff, a AND NOT 0xfff, pr) m"
    using giga_fill [OF ok a, of MMU_DATA_LOAD] by auto
  moreover have "n \<le> 4096 - unat (a AND 0xfff)" using page by simp
  ultimately show ?thesis using split by (simp add: guest_load_def Let_def)
qed

lemma gate_ldl:
  "a < 0x40000000 \<Longrightarrow> unat (a AND 0xfff) + 4 \<le> 4096 \<Longrightarrow>
    cpu_ldl_kernel 0 a gate_machine = Done (ldl_le gate_mem a) gate_machine"
  using giga_read [of gate_machine 0 a 4] gate_ok by (simp add: cpu_ldl_kernel_def ldl_le_def)

lemma gate_ldq:
  "a < 0x40000000 \<Longrightarrow> unat (a AND 0xfff) + 8 \<le> 4096 \<Longrightarrow>
    cpu_ldq_kernel 0 a gate_machine = Done (ldq_le gate_mem a) gate_machine"
  using giga_read [of gate_machine 0 a 8] gate_ok by (simp add: cpu_ldq_kernel_def ldq_le_def)

lemma gate_steps:
  "load_gate 0 0x20 False gate_machine = Done
     \<lparr>gate_type = 14, gate_selector = 8, gate_offset = 0x1234, gate_ist = 0\<rparr> gate_machine"
  "load_target 0 8 gate_machine = Done (0, 0x00209a00, 0) gate_machine"
  "handler_stack 0 0 0 8 gate_machine = Done (True, 0x7f70) gate_machine"
  by (simp_all add: load_gate_def load_target_def load_segment_def handler_stack_def get_rsp_from_tss_def
      Let_def gate_ldl gate_ldq gate_mem_loads desc_dpl_def canonical_def)

lemma push_frame_giga:
  assumes "giga_ok (env_of m i) (phys_mem m)" "giga_win (sp - 8)" "giga_win (sp - 16)"
    "giga_win (sp - 24)" "giga_win (sp - 32)" "giga_win (sp - 40)"
  shows "\<exists>p. push_frame i sp ip None m = Done (sp - 40) (m\<lparr>phys_mem := p\<rparr>)"
  using assms
  by (simp add: push_frame_def Let_def giga.PUSHQ_win giga_ok_view giga.ok_store [unfolded id_apply])
    (rule exI, rule refl)

lemma gate_delivers:
  "\<exists>p. do_interrupt64 0 0x20 False 0 0 True gate_machine = Done () (upd_env 0
     (enter_gate \<lparr>gate_type = 14, gate_selector = 8, gate_offset = 0x1234, gate_ist = 0\<rparr>
       0 0x00209a00 0 True 0x7f48) (gate_machine\<lparr>phys_mem := p\<rparr>))"
proof -
  obtain p where "push_frame 0 0x7f70 (eip gate_env) None gate_machine = Done 0x7f48 (gate_machine\<lparr>phys_mem := p\<rparr>)"
    using push_frame_giga [of gate_machine 0 "0x7f70" "eip gate_env"] gate_ok by (auto simp: giga_win_def)
  then show ?thesis
    by (intro exI [of _ p]) (simp add: do_interrupt64_def gate_steps exception_has_error_code_def)
qed

theorem do_interrupt64_privilege_witness:
  "\<exists>m'. do_interrupt64 0 0x20 False 0 0 True gate_machine = Done () m' \<and>
    cpl_of gate_env = 3 \<and> cpl_of (env_of m' 0) \<le> 3 \<and>
    selector (segs (env_of m' 0) R_CS) AND 3 = cpl_of (env_of m' 0) \<and>
    eflags (env_of m' 0) AND 0x34100 = 0 \<and> regs (env_of m' 0) R_ESP AND 7 = 0"
proof -
  obtain m' where m': "do_interrupt64 0 0x20 False 0 0 True gate_machine = Done () m'"
    using gate_delivers by blast
  show ?thesis
    by (intro exI [of _ m'] conjI m') (use do_interrupt64_privilege [OF m'] in simp_all)
qed

end
