(* ===== verification/UINTR_Receive.thy ===== *)
theory UINTR_Receive
  imports Interrupt64
begin

text \<open>
  A user interrupt from the side of the processor it is sent to: the two rounds of
  \<^verbatim>\<open>x86_cpu_exec_interrupt\<close> that follow the poll request \<^verbatim>\<open>SENDUIPI\<close> leaves behind, through
  the acknowledge at the local APIC to the first instruction of the user handler.
\<close>

section \<open>Two rounds of the interrupt loop\<close>

text \<open>
  Processor \<open>k\<close> runs with interrupts enabled and a poll request, its APIC has the notification
  vector as its most urgent, acceptable, edge-triggered request, and no other kind of
  interrupt is pending for it.
\<close>

definition uintr_pending :: "nat \<Rightarrow> machine \<Rightarrow> bool" where
  "uintr_pending k m \<longleftrightarrow>
     current_cpu m = Some k \<and> no_pic_intr k m \<and>
     (\<exists>s. local_apics m k = Some s \<and> apic_wf s \<and> vapic_paddr s = 0 \<and>
        bit (spurious_vec s) APIC_SV_ENABLE_SHIFT \<and> vectors (irr s) \<noteq> {} \<and>
        Max (vectors (irr s)) = UINTR_UINV \<and> apic_accepts s UINTR_UINV \<and>
        \<not> apic_get_bit (tmr s) UINTR_UINV) \<and>
     interrupt_request (cpus m k) = CPU_INTERRUPT_POLL \<and>
     (let e = env_of m k in bit (hflags2 e) HF2_GIF_SHIFT \<and> \<not> bit (hflags2 e) HF2_VINTR_SHIFT \<and>
        bit (eflags e) IF_SHIFT \<and> \<not> bit (hflags e) HF_INHIBIT_IRQ_SHIFT)"

text \<open>The machine after the poll, and after the acknowledge.\<close>

definition polled :: "nat \<Rightarrow> machine \<Rightarrow> machine" where
  "polled k m = cpu_interrupt k CPU_INTERRUPT_HARD (cpu_reset_interrupt k CPU_INTERRUPT_POLL m)"

lemma polled_simps [simp]:
  "local_apics (polled k m) = local_apics m" "current_cpu (polled k m) = current_cpu m"
  "phys_mem (polled k m) = phys_mem m" "isa_pic (polled k m) = isa_pic m"
  "env (cpus (polled k m) j) = env (cpus m j)"
  by (simp_all add: polled_def tcg_handle_interrupt_def cpu_reset_interrupt_def frame_simps)

lemma exec_poll:
  assumes "uintr_pending k m"
  shows "exec_interrupt k m = Done (Some True) (polled k m)"
proof -
  obtain s where s: "local_apics m k = Some s" "vapic_paddr s = 0"
    "bit (spurious_vec s) APIC_SV_ENABLE_SHIFT" "vectors (irr s) \<noteq> {}"
    "Max (vectors (irr s)) = UINTR_UINV" "apic_accepts s UINTR_UINV"
    and cur: "current_cpu m = Some k" and req: "interrupt_request (cpus m k) = CPU_INTERRUPT_POLL"
    using assms unfolding uintr_pending_def by blast
  let ?m = "cpu_reset_interrupt k CPU_INTERRUPT_POLL m"
  have m: "local_apics ?m = local_apics m" "current_cpu ?m = current_cpu m"
    by (simp_all add: cpu_reset_interrupt_def frame_simps)
  have "apic_irq_pending s = 0xec" using s by (simp add: apic_irq_pending_eq)
  then have "apic_poll_irq k ?m = polled k m"
    using s cur by (simp add: apic_poll_irq_def apic_sync_vapic_none m apic_update_irq_def
        qemu_cpu_is_self_def polled_def)
  then show ?thesis using req by (simp add: exec_interrupt_def x86_cpu_pending_interrupt_def)
qed

definition acknowledged :: "nat \<Rightarrow> machine \<Rightarrow> machine" where
  "acknowledged k m = apic_update_irq k
     (upd_apic k (\<lambda>s. s\<lparr>irr := apic_reset_bit (irr s) UINTR_UINV, isr := apic_set_bit (isr s) UINTR_UINV\<rparr>)
       (cpu_reset_interrupt k (CPU_INTERRUPT_HARD OR CPU_INTERRUPT_VIRQ) (polled k m)))"

lemma acknowledged_simps:
  "current_cpu (acknowledged k m) = current_cpu m" "phys_mem (acknowledged k m) = phys_mem m"
  "env (cpus (acknowledged k m) j) = env (cpus m j)"
  by (simp_all add: acknowledged_def cpu_reset_interrupt_def frame_simps)

lemma get_interrupt_uinv:
  assumes "local_apics m k = Some s" "vapic_paddr s = 0" "bit (spurious_vec s) APIC_SV_ENABLE_SHIFT"
    "vectors (irr s) \<noteq> {}" "Max (vectors (irr s)) = UINTR_UINV" "apic_accepts s UINTR_UINV" "no_pic_intr k m"
  shows "apic_get_interrupt k m = (0xec, apic_update_irq k (upd_apic k (\<lambda>s. s\<lparr>irr := apic_reset_bit (irr s) UINTR_UINV,
    isr := apic_set_bit (isr s) UINTR_UINV\<rparr>) m))"
proof -
  have p: "apic_irq_pending s = 0xec" using assms by (simp add: apic_irq_pending_eq)
  have "apic_check_pic k m = (False, m)" using assms(7) by (auto simp: apic_check_pic_def no_pic_intr_def)
  moreover have "vapic_paddr (apic_at (upd_apic k f m) k) = 0" if "\<And>s. vapic_paddr (f s) = vapic_paddr s" for f
    using assms(1,2) that by (simp add: frame_simps)
  ultimately show ?thesis
    using assms(1-3) p by (simp add: apic_get_interrupt_def apic_sync_vapic_none)
qed

lemma exec_acknowledge:
  assumes "uintr_pending k m"
  shows "exec_interrupt k (polled k m) =
    bind_outcome (do_uintr_notification k (acknowledged k m)) (\<lambda>_ m. Done (Some True) m)"
proof -
  obtain s where s: "local_apics m k = Some s" "vapic_paddr s = 0"
    "bit (spurious_vec s) APIC_SV_ENABLE_SHIFT" "vectors (irr s) \<noteq> {}"
    "Max (vectors (irr s)) = UINTR_UINV" "apic_accepts s UINTR_UINV" "no_pic_intr k m"
    and req: "interrupt_request (cpus m k) = CPU_INTERRUPT_POLL"
    and e: "bit (hflags2 (env_of m k)) HF2_GIF_SHIFT" "\<not> bit (hflags2 (env_of m k)) HF2_VINTR_SHIFT"
      "bit (eflags (env_of m k)) IF_SHIFT" "\<not> bit (hflags (env_of m k)) HF_INHIBIT_IRQ_SHIFT"
    using assms unfolding uintr_pending_def Let_def by blast
  let ?m = "cpu_reset_interrupt k (CPU_INTERRUPT_HARD OR CPU_INTERRUPT_VIRQ) (polled k m)"
  have "local_apics ?m = local_apics m" "isa_pic ?m = isa_pic m"
    by (simp_all add: cpu_reset_interrupt_def frame_simps)
  then have "local_apics ?m k = Some s" "no_pic_intr k ?m"
    using s(1,7) by (simp_all add: no_pic_intr_def apic_accept_pic_intr_def isa_pic_output_def)
  from get_interrupt_uinv [OF this(1) s(2-6) this(2)]
  have get: "cpu_get_pic_interrupt k ?m = (0xec, acknowledged k m)"
    by (simp add: cpu_get_pic_interrupt_def acknowledged_def)
  have hard: "interrupt_request (cpus (polled k m) k) = CPU_INTERRUPT_HARD"
    using req by (simp add: polled_def tcg_handle_interrupt_def cpu_reset_interrupt_def upd_cpu_def)
  have "x86_cpu_pending_interrupt (env_of m k) CPU_INTERRUPT_HARD = CPU_INTERRUPT_HARD"
    using e by (simp add: x86_cpu_pending_interrupt_def)
  then show ?thesis
    unfolding exec_interrupt_def polled_simps hard Let_def get prod.case by (simp add: do_interrupt64_def)
qed

lemma acknowledged_edge:
  assumes "uintr_pending k m"
  shows "edge_service k (acknowledged k m)" "cpu_get_current_apic (acknowledged k m) = Some k"
proof -
  obtain s where s: "local_apics m k = Some s" "vapic_paddr s = 0" "apic_wf s" "apic_accepts s UINTR_UINV"
    "\<not> apic_get_bit (tmr s) UINTR_UINV" and cur: "current_cpu m = Some k"
    using assms unfolding uintr_pending_def by blast
  let ?s = "s\<lparr>irr := apic_reset_bit (irr s) UINTR_UINV, isr := apic_set_bit (isr s) UINTR_UINV\<rparr>"
  have at: "local_apics (acknowledged k m) k = Some ?s"
    using s(1) by (simp add: acknowledged_def cpu_reset_interrupt_def frame_simps)
  have "vectors (isr ?s) = insert UINTR_UINV (vectors (isr s))"
    using s(3) by (simp add: vector_simps apic_wf_def)
  moreover have "v < UINTR_UINV" if "v \<in> vectors (isr s)" for v
    using apic_accepts_above_isr [OF s(4) _ that] by simp
  ultimately have "get_highest_priority_int (isr ?s) = int UINTR_UINV"
    by (simp add: get_highest_priority_int_Max) (subst Max_insert2; auto simp: less_imp_le)
  then show "edge_service k (acknowledged k m)"
    using at s(2,5) unfolding edge_service_def by (intro exI [of _ ?s]) simp
  show "cpu_get_current_apic (acknowledged k m) = Some k"
    using cur at by (simp add: cpu_get_current_apic_def acknowledged_simps)
qed

section \<open>From the sender's instruction to the receiver's handler\<close>

lemma fold_single:
  assumes "distinct xs" "k \<in> set xs" "I m" "I (g k m)" and other: "\<And>j m. j \<noteq> k \<Longrightarrow> I m \<Longrightarrow> g j m = m"
  shows "fold g xs m = g k m"
proof -
  have keep: "fold g ys m' = m'" if "k \<notin> set ys" "I m'" for ys m'
    using that by (induction ys) (auto simp: other)
  obtain ys zs where xs: "xs = ys @ k # zs" using assms(2) by (auto simp: in_set_conv_decomp)
  then show ?thesis using assms(1,3,4) keep [of ys m] keep [of zs "g k m"] by simp
qed

lemma send_ipi_single:
  assumes "apics_populated m n" "k < n" "apic_id (apic_at m k) \<noteq> 0xff"
  shows "send_ipi (apic_id (apic_at m k)) nv m = apic_set_irq k (unat nv) False m"
proof -
  let ?bm = "apic_get_delivery_bitmask m (apic_id (apic_at m k)) 0"
  let ?g = "visit ?bm (\<lambda>k. apic_set_irq k (unat nv) False)"
  let ?I = "\<lambda>m'. \<forall>j. local_apics m' j = None \<longleftrightarrow> local_apics m j = None"
  have hit: "j \<in> vectors ?bm \<and> local_apics m j \<noteq> None \<longleftrightarrow> j = k" for j
    unfolding delivery_bitmask_existing [OF assms(1)] addressed_def
    using assms(2,3) apics_populatedD(3) [OF assms(1) _ assms(2), of j] by auto
  have gk: "?g k m = apic_set_irq k (unat nv) False m" using hit [of k] by (simp add: visit_def)
  have "k \<in> set [0..<256]" using assms(2) apics_populatedD(1) [OF assms(1)] by (simp only: set_upt atLeastLessThan_iff) simp
  then have "fold ?g [0..<256] m = ?g k m"
  proof (rule fold_single [where I = ?I, OF distinct_upt])
    show "?I (?g k m)" unfolding gk by (simp add: apic_set_irq_apics)
    show "?g j m' = m'" if "j \<noteq> k" "?I m'" for j m'
      using that hit [of j] by (auto simp: visit_def simp del: not_None_eq)
  qed simp
  then show ?thesis
    unfolding gk by (simp add: send_ipi_def apic_deliver_irq_def apic_bus_deliver_def foreach_apic_eq)
qed

text \<open>The receiver before the notification: interrupts enabled, nothing requested of it.\<close>

definition receiver_ready :: "nat \<Rightarrow> machine \<Rightarrow> bool" where
  "receiver_ready k m \<longleftrightarrow> no_pic_intr k m \<and>
     (\<exists>s. local_apics m k = Some s \<and> apic_wf s \<and> vapic_paddr s = 0 \<and>
        bit (spurious_vec s) APIC_SV_ENABLE_SHIFT \<and> vectors (irr s) = {} \<and> apic_accepts s UINTR_UINV) \<and>
     interrupt_request (cpus m k) = 0 \<and>
     (let e = env_of m k in bit (hflags2 e) HF2_GIF_SHIFT \<and> \<not> bit (hflags2 e) HF2_VINTR_SHIFT \<and>
        bit (eflags e) IF_SHIFT \<and> \<not> bit (hflags e) HF_INHIBIT_IRQ_SHIFT)"

lemma receiver_ready_mem: "receiver_ready k (m\<lparr>phys_mem := p\<rparr>) = receiver_ready k m"
  by (simp add: receiver_ready_def no_pic_intr_def apic_accept_pic_intr_def isa_pic_output_def Let_def cong: option.case_cong)

lemma pending_after_ipi:
  assumes "receiver_ready k m" "current_cpu m \<noteq> Some k"
  shows "uintr_pending k ((apic_set_irq k UINTR_UINV False m)\<lparr>current_cpu := Some k\<rparr>)"
proof -
  obtain s where s: "local_apics m k = Some s" "apic_wf s" "vapic_paddr s = 0"
    "bit (spurious_vec s) APIC_SV_ENABLE_SHIFT" "vectors (irr s) = {}" "apic_accepts s UINTR_UINV"
    using assms(1) unfolding receiver_ready_def by blast
  let ?s = "s\<lparr>irr := apic_set_bit (irr s) UINTR_UINV, tmr := apic_reset_bit (tmr s) UINTR_UINV\<rparr>"
  let ?m = "(apic_set_irq k UINTR_UINV False m)\<lparr>current_cpu := Some k\<rparr>"
  have at: "local_apics ?m k = Some ?s" using s by (simp add: apic_set_irq_apics)
  have wf: "wf_vectab (irr s)" "wf_vectab (tmr s)" using s(2) by (simp_all add: apic_wf_def)
  have "apic_wf ?s" using s(2) by (simp add: apic_wf_def)
  moreover have "vectors (irr ?s) = {UINTR_UINV}" using s(5) wf by (simp add: vector_simps)
  moreover have "\<not> apic_get_bit (tmr ?s) UINTR_UINV" using wf by (simp add: vector_simps)
  moreover have "apic_accepts ?s UINTR_UINV"
  proof -
    have "apic_get_ppr ?s = apic_get_ppr s" "isr_class ?s = isr_class s" "tpr ?s = tpr s"
      by (simp_all add: apic_get_ppr_def isr_class_def Let_def)
    then show ?thesis using s(6) unfolding apic_accepts_def by metis
  qed
  moreover have "isa_pic ?m = isa_pic m" "env_of ?m k = env_of m k" by (simp_all add: frame_simps)
  moreover have "interrupt_request (cpus ?m k) = CPU_INTERRUPT_POLL"
    using assms s(1,3) by (simp add: apic_set_irq_def Let_def frame_simps apic_report_irq_delivered_def
        apic_update_irq_def qemu_cpu_is_self_def tcg_handle_interrupt_def upd_cpu_def receiver_ready_def)
  ultimately show ?thesis
    using assms(1) s(1,3,4) at
    by (simp add: uintr_pending_def receiver_ready_def no_pic_intr_def apic_accept_pic_intr_def isa_pic_output_def)
qed

lemma store_upid_twice: "store_upid (store_upid p a u) a u' = store_upid p a u'"
  by (auto simp: store_upid_def store_bytes_def)

lemma top_bit_power: "v < 64 \<Longrightarrow> top_bit (2 ^ v) = v"
proof -
  assume "v < 64"
  then have "(2 ^ v :: u64) \<noteq> 0" by simp
  from top_bit [OF this] show ?thesis by (simp add: bit_exp_iff)
qed


lemma uintr_receiver_ready: "receiver_ready 1 (uintr_machine 0 False u)"
proof -
  have "isr_class (example_apic 1) = 0" by (simp add: isr_class_def example_apic_def vectors_none)
  then have "apic_accepts (example_apic 1) UINTR_UINV" by (simp add: apic_accepts_def example_apic_def)
  moreover have "apic_wf (example_apic 1)" by (simp add: apic_wf_def wf_vectab_def example_apic_def)
  moreover have "local_apics (uintr_machine 0 False u) 1 = Some (example_apic 1)" by simp
  moreover have "isa_pic (uintr_machine 0 False u) = None" "cpus (uintr_machine 0 False u) 1 = example_cpu\<lparr>env := uintr_env False\<rparr>"
    by (simp_all add: uintr_machine_def example_machine_def)
  moreover have "hflags2 (uintr_env False) = 1" "eflags (uintr_env False) = 0x202" "hflags (uintr_env False) = 0x0050c033"
    by (simp_all add: uintr_env_def paged_env_def example_env_def)
  ultimately show ?thesis
    by (simp add: receiver_ready_def no_pic_intr_def isa_pic_output_def example_cpu_def)
      (simp add: example_apic_def vectors_none)
qed


end
