(* ===== verification/Memory_Regions.thy ===== *)
theory Memory_Regions
  imports Prelude
begin

text \<open>
  Regions of byte-addressed memory, as the address sets the NimbOS theories reason about:
  when regions are disjoint, what a store leaves alone and on which bytes a load depends.
\<close>

definition region :: "u64 \<Rightarrow> nat \<Rightarrow> u64 set" where
  "region a n = {x. unat (x - a) < n}"

lemma stq_le_byte:
  "stq_le m a w x = (if unat (x - a) < 8 then ucast (drop_bit (8 * unat (x - a)) w) else m x)"
  by (simp add: stq_le_def store_bytes_def nth_le_bytes)

lemma stq_outside: "x \<notin> region a 8 \<Longrightarrow> stq_le p a v x = p x"
  by (simp add: region_def stq_le_byte)

lemma ldq_region:
  assumes "\<forall>x \<in> region a 8. p x = q x"
  shows "ldq_le p a = ldq_le q a"
proof -
  have "p (a + of_nat j) = q (a + of_nat j)" if "j < 8" for j
    using assms that by (simp add: region_def unat_of_nat)
  then have "load_bytes p a 8 = load_bytes q a 8" by (simp add: load_bytes_def)
  then show ?thesis by (simp add: ldq_le_def)
qed

lemma region_step:
  assumes "x \<notin> region a (n + 8)"
  shows "x \<notin> region (a + 8) n"
proof -
  define y where "y = x - a"
  have y: "x - (a + 8) = y - 8" by (simp add: y_def algebra_simps)
  have "n + 8 \<le> unat y" using assms by (simp add: region_def y_def)
  then show ?thesis unfolding region_def mem_Collect_eq y by (simp add: unat_sub word_le_nat_alt)
qed

lemma region_part:
  assumes "j < n" "n < 2 ^ 32"
  shows "region (a + 8 * of_nat j) 8 \<subseteq> region a (8 * n)"
proof
  fix x
  define y where "y = x - (a + 8 * of_nat j)"
  assume "x \<in> region (a + 8 * of_nat j) 8"
  then have "unat y < 8" by (simp add: region_def y_def)
  moreover have "unat (8 * of_nat j :: u64) = 8 * j" using assms by (simp add: unat_word_ariths unat_of_nat)
  moreover have "x - a = y + 8 * of_nat j" by (simp add: y_def algebra_simps)
  ultimately show "x \<in> region a (8 * n)" using assms by (simp add: region_def unat_word_ariths)
qed

lemma region_disjoint:
  assumes "unat a + n \<le> unat b" "unat b + k \<le> 2 ^ 64"
  shows "region a n \<inter> region b k = {}"
proof -
  have "unat x < unat a + n" if "x \<in> region a n" for x
    using that assms by (auto simp: region_def unat_sub_if' split: if_splits)
  moreover have "unat b \<le> unat x" if "x \<in> region b k" for x
    using that assms by (auto simp: region_def unat_sub_if' split: if_splits)
  ultimately show ?thesis using assms by fastforce
qed

text \<open>Bounds by a power of two, read as bits.\<close>

lemma bits_below:
  fixes x :: u64
  assumes "\<And>n. bit x n \<Longrightarrow> n < k"
  shows "unat x < 2 ^ k"
proof -
  have "take_bit k x = x" by (rule bit_word_eqI) (auto simp: bit_take_bit_iff dest: assms)
  then have "unat x = take_bit k (unat x)" by (metis unsigned_take_bit_eq)
  also have "\<dots> < 2 ^ k" by (rule take_bit_nat_less_exp)
  finally show ?thesis .
qed

lemma below_bits:
  fixes x :: u64
  assumes "unat x < 2 ^ k" "bit x n"
  shows "n < k"
proof -
  have "take_bit k x = x" using assms(1) by (simp add: word_unat_eq_iff unsigned_take_bit_eq take_bit_nat_eq_self)
  then show ?thesis using assms(2) by (metis bit_take_bit_iff)
qed

end
