(* ===== verification/NimbOS_Context.thy ===== *)
theory NimbOS_Context
  imports UINTR_Receive Memory_Regions
begin

text \<open>
  The task switch of NimbOS (\<^verbatim>\<open>context_switch\<close> in \<^verbatim>\<open>nimbos/kernel/src/arch/x86_64/context.rs\<close>),
  which saves and restores the user-interrupt registers of the emulated processor next to
  the callee-saved registers, and the emulator's side of those accesses
  (\<^verbatim>\<open>target/i386/tcg/sysemu/misc_helper.c\<close>). The instructions work on the registers and on the
  kernel's memory, which the kernel's page table maps at the addresses used here.
\<close>

section \<open>Model-specific registers\<close>

abbreviation (input) R_ECX :: nat where "R_ECX \<equiv> 1"
abbreviation (input) R_EDX :: nat where "R_EDX \<equiv> 2"
abbreviation (input) R_EBX :: nat where "R_EBX \<equiv> 3"
abbreviation (input) R_EBP :: nat where "R_EBP \<equiv> 5"
abbreviation (input) R_ESI :: nat where "R_ESI \<equiv> 6"
abbreviation (input) R_EDI :: nat where "R_EDI \<equiv> 7"
abbreviation (input) R_R13 :: nat where "R_R13 \<equiv> 13"
abbreviation (input) R_R14 :: nat where "R_R14 \<equiv> 14"
abbreviation (input) R_R15 :: nat where "R_R15 \<equiv> 15"

abbreviation (input) MSR_IA32_UINTR_RR :: u32 where "MSR_IA32_UINTR_RR \<equiv> 0x985"
abbreviation (input) MSR_IA32_UINTR_HANDLER :: u32 where "MSR_IA32_UINTR_HANDLER \<equiv> 0x986"
abbreviation (input) MSR_IA32_UINTR_STACKADJUST :: u32 where "MSR_IA32_UINTR_STACKADJUST \<equiv> 0x987"
abbreviation (input) MSR_IA32_UINTR_MISC :: u32 where "MSR_IA32_UINTR_MISC \<equiv> 0x988"
abbreviation (input) MSR_IA32_UINTR_PD :: u32 where "MSR_IA32_UINTR_PD \<equiv> 0x989"
abbreviation (input) MSR_IA32_UINTR_TT :: u32 where "MSR_IA32_UINTR_TT \<equiv> 0x98a"

definition set_reg :: "nat \<Rightarrow> u64 \<Rightarrow> CPUX86State \<Rightarrow> CPUX86State" where
  "set_reg n v e = e\<lparr>regs := (regs e)(n := v)\<rparr>"

text \<open>
  The cases of the user-interrupt registers that only store or load; \<open>n\<close> is the content of
  \<^verbatim>\<open>ECX\<close>. Writing the request register also starts a delivery; the switch never writes it.
\<close>

definition wrmsr_case :: "u32 \<Rightarrow> u64 \<Rightarrow> CPUX86State \<Rightarrow> CPUX86State" where
  "wrmsr_case n val e =
     (if n = MSR_IA32_UINTR_HANDLER then e\<lparr>uintr_handler := val\<rparr>
      else if n = MSR_IA32_UINTR_STACKADJUST then e\<lparr>uintr_stackadjust := val\<rparr>
      else if n = MSR_IA32_UINTR_MISC then e\<lparr>uintr_misc := val\<rparr>
      else if n = MSR_IA32_UINTR_PD then e\<lparr>uintr_pd := val\<rparr>
      else if n = MSR_IA32_UINTR_TT then e\<lparr>uintr_tt := val\<rparr>
      else e)"

definition rdmsr_case :: "u32 \<Rightarrow> CPUX86State \<Rightarrow> u64" where
  "rdmsr_case n e =
     (if n = MSR_IA32_UINTR_RR then uintr_rr e
      else if n = MSR_IA32_UINTR_HANDLER then uintr_handler e
      else if n = MSR_IA32_UINTR_STACKADJUST then uintr_stackadjust e
      else if n = MSR_IA32_UINTR_MISC then uintr_misc e
      else if n = MSR_IA32_UINTR_PD then uintr_pd e
      else if n = MSR_IA32_UINTR_TT then uintr_tt e
      else 0)"

text \<open>The value of a write is \<^verbatim>\<open>EDX:EAX\<close>, and a read leaves its halves in \<^verbatim>\<open>RAX\<close> and \<^verbatim>\<open>RDX\<close>.\<close>

definition low32 :: "u64 \<Rightarrow> u64" where "low32 v = ucast (ucast v :: u32)"

definition wrmsr_uintr :: "CPUX86State \<Rightarrow> CPUX86State" where
  "wrmsr_uintr e =
     wrmsr_case (ucast (regs e R_ECX)) (low32 (regs e R_EAX) OR push_bit 32 (low32 (regs e R_EDX))) e"

definition rdmsr_uintr :: "CPUX86State \<Rightarrow> CPUX86State" where
  "rdmsr_uintr e =
     (let val = rdmsr_case (ucast (regs e R_ECX)) e
      in set_reg R_EDX (low32 (drop_bit 32 val)) (set_reg R_EAX (low32 val) e))"

section \<open>The switch\<close>

type_synonym kstate = "CPUX86State \<times> mem"

definition push_reg :: "nat \<Rightarrow> kstate \<Rightarrow> kstate" where
  "push_reg n s =
     (case s of (e, p) \<Rightarrow>
        let sp = regs e R_ESP - 8 in (set_reg R_ESP sp e, stq_le p sp (regs e n)))"

definition pop_reg :: "nat \<Rightarrow> kstate \<Rightarrow> kstate" where
  "pop_reg n s =
     (case s of (e, p) \<Rightarrow>
        let sp = regs e R_ESP in (set_reg n (ldq_le p sp) (set_reg R_ESP (sp + 8) e), p))"

text \<open>\<^verbatim>\<open>testui; setc al\<close>: the flag in the low byte of \<^verbatim>\<open>RAX\<close>.\<close>

definition read_uif :: "kstate \<Rightarrow> kstate" where
  "read_uif s =
     (case s of (e, p) \<Rightarrow>
        let e1 = helper_testui e
        in (set_reg R_EAX ((regs e1 R_EAX AND NOT 0xff) OR ucast (cc_flags e1 AND 1)) e1, p))"

text \<open>\<^verbatim>\<open>test al, al\<close> and the jump around \<^verbatim>\<open>stui\<close> or \<^verbatim>\<open>clui\<close>.\<close>

definition write_uif :: "kstate \<Rightarrow> kstate" where
  "write_uif s =
     (case s of (e, p) \<Rightarrow> (if regs e R_EAX AND 0xff \<noteq> 0 then helper_stui e else helper_clui e, p))"

definition add_rsp :: "u64 \<Rightarrow> kstate \<Rightarrow> kstate" where
  "add_rsp n s = (case s of (e, p) \<Rightarrow> (set_reg R_ESP (regs e R_ESP + n) e, p))"

text \<open>\<^verbatim>\<open>rdmsr\<close> with the two halves stored at an offset, and the reverse with \<^verbatim>\<open>wrmsr\<close>.\<close>

definition save_msr :: "u32 \<Rightarrow> u64 \<Rightarrow> kstate \<Rightarrow> kstate" where
  "save_msr n off s =
     (case s of (e, p) \<Rightarrow>
        let e1 = rdmsr_uintr (set_reg R_ECX (ucast n) e); sp = regs e1 R_ESP
        in (e1, stl_le (stl_le p (sp + off) (ucast (regs e1 R_EAX))) (sp + (off + 4)) (ucast (regs e1 R_EDX))))"

definition load_msr :: "u32 \<Rightarrow> u64 \<Rightarrow> kstate \<Rightarrow> kstate" where
  "load_msr n off s =
     (case s of (e, p) \<Rightarrow>
        let sp = regs e R_ESP;
            e1 = set_reg R_EDX (ucast (ldl_le p (sp + (off + 4))))
                   (set_reg R_EAX (ucast (ldl_le p (sp + off))) (set_reg R_ECX (ucast n) e))
        in (wrmsr_uintr e1, p))"

definition save_context :: "kstate \<Rightarrow> kstate" where
  "save_context s =
     (let s = push_reg R_R15 (push_reg R_R14 (push_reg R_R13 (push_reg R_R12
                (push_reg R_EBX (push_reg R_EBP s)))));
          s = add_rsp (- 40) (push_reg R_EAX (read_uif s))
      in save_msr 0x98a 0 (save_msr 0x989 8 (save_msr 0x988 16 (save_msr 0x987 24 (save_msr 0x986 32 s)))))"

definition swap_stack :: "kstate \<Rightarrow> kstate" where
  "swap_stack s =
     (case s of (e, p) \<Rightarrow>
        let p1 = stq_le p (regs e R_EDI) (regs e R_ESP)
        in (set_reg R_ESP (ldq_le p1 (regs e R_ESI)) e, p1))"

definition restore_context :: "kstate \<Rightarrow> kstate" where
  "restore_context s =
     (let s = load_msr 0x986 32 (load_msr 0x987 24 (load_msr 0x988 16 (load_msr 0x989 8 (load_msr 0x98a 0 s))));
          s = write_uif (pop_reg R_EAX (add_rsp 40 s))
      in pop_reg R_EBP (pop_reg R_EBX (pop_reg R_R12 (pop_reg R_R13 (pop_reg R_R14 (pop_reg R_R15 s))))))"

definition ret :: "kstate \<Rightarrow> kstate" where
  "ret s =
     (case s of (e, p) \<Rightarrow>
        (set_reg R_ESP (regs e R_ESP + 8) (e\<lparr>eip := ldq_le p (regs e R_ESP)\<rparr>), p))"

definition context_switch :: "kstate \<Rightarrow> kstate" where
  "context_switch s = ret (restore_context (swap_stack (save_context s)))"

text \<open>Quadwords stored upwards from an address, the last one first.\<close>

primrec store_quads :: "u64 \<Rightarrow> u64 list \<Rightarrow> mem \<Rightarrow> mem" where
  "store_quads a [] p = p"
| "store_quads a (v # vs) p = stq_le (store_quads (a + 8) vs p) a v"

text \<open>The frame of a new task at the top of its kernel stack: everything zero but the entry point.\<close>

definition task_init :: "u64 \<Rightarrow> u64 \<Rightarrow> mem \<Rightarrow> u64 \<times> mem" where
  "task_init entry kstack_top p =
     (let frame = kstack_top - 104 in (frame, store_quads frame (replicate 12 0 @ [entry]) p))"

section \<open>Halves of a quadword\<close>

lemma stl_pair: "stl_le (stl_le p a (ucast v)) (a + 4) (ucast (drop_bit 32 v)) = stq_le p a v"
proof
  fix x
  define y where "y = x - a"
  have y: "x - (a + 4) = y - 4" by (simp add: y_def algebra_simps)
  have split: "unat (x - (a + 4)) = unat (x - a) - 4" if "4 \<le> unat (x - a)"
    using that unfolding y y_def [symmetric] by (simp add: unat_sub word_le_nat_alt)
  have wrap: "\<not> unat (x - (a + 4)) < 4" if "unat (x - a) < 4"
    using that unfolding y y_def [symmetric] by (simp add: unat_sub_if')
  consider "unat (x - a) < 4" | "4 \<le> unat (x - a)" "unat (x - a) < 8" | "8 \<le> unat (x - a)" by linarith
  then show "stl_le (stl_le p a (ucast v)) (a + 4) (ucast (drop_bit 32 v)) x = stq_le p a v x"
  proof cases
    case 1
    have "(ucast (drop_bit (8 * n) (ucast v :: u32)) :: u8) = ucast (drop_bit (8 * n) v)" if "n < 4" for n
      by (rule bit_word_eqI) (use that in \<open>auto simp: bit_simps\<close>)
    then show ?thesis using 1 wrap by (simp add: stl_le_byte stq_le_byte)
  next
    case 2
    have half: "(ucast (drop_bit (8 * i) (ucast (drop_bit 32 v) :: u32)) :: u8) = ucast (drop_bit (8 * i + 32) v)"
      if "i < 4" for i
      by (rule bit_word_eqI) (use that in \<open>auto simp: bit_simps ac_simps\<close>)
    have "8 * (unat (x - a) - 4) + 32 = 8 * unat (x - a)" using 2(1) by simp
    then show ?thesis
      using 2 split half [of "unat (x - a) - 4"] by (simp add: stl_le_byte stq_le_byte)
  next
    case 3
    then have "\<not> unat (x - (a + 4)) < 4" using split by simp
    then show ?thesis using 3 by (simp add: stl_le_byte stq_le_byte)
  qed
qed

lemma ldl_pair:
  "low32 (ucast (ldl_le p a)) OR push_bit 32 (low32 (ucast (ldl_le p (a + 4)))) = ldq_le p a"
proof (rule bit_word_eqI)
  fix n assume "n < LENGTH(64)"
  then have n: "n < 64" by simp
  have b: "bit (ldl_le p b) j \<longleftrightarrow> bit (p (b + of_nat (j div 8))) (j mod 8)" if "j < 32" for b j
    using that by (simp add: ldl_le_def bit_le_word load_bytes_def less_mult_imp_div_less)
  have q: "bit (ldq_le p a) n \<longleftrightarrow> bit (p (a + of_nat (n div 8))) (n mod 8)"
    using n by (simp add: ldq_le_def bit_le_word load_bytes_def less_mult_imp_div_less)
  show "bit (low32 (ucast (ldl_le p a)) OR push_bit 32 (low32 (ucast (ldl_le p (a + 4))))) n = bit (ldq_le p a) n"
  proof (cases "n < 32")
    case True
    then show ?thesis using b [of n a] q by (simp add: low32_def bit_simps)
  next
    case False
    define j where "j = n - 32"
    then have j: "j < 32" "n = j + 32" using False n by simp_all
    have "n div 8 = j div 8 + 4" "j mod 8 = n mod 8" unfolding j(2) by presburger+
    then have at: "a + 4 + of_nat (j div 8) = a + of_nat (n div 8)" "j mod 8 = n mod 8" by simp_all
    have eq: "bit (ldl_le p (a + 4)) j = bit (ldq_le p a) n"
      using b [OF j(1), of "a + 4"] unfolding at q .
    have "\<not> bit (ldl_le p a) n" using False by (auto dest: bit_imp_le_length)
    then show ?thesis using eq j False by (auto simp: low32_def bit_simps)
  qed
qed

section \<open>What is saved and restored\<close>

lemma ucast_low32: "(ucast (low32 v) :: u32) = ucast v"
  by (rule bit_word_eqI) (simp add: low32_def bit_simps)

lemma set_reg_simps [simp]:
  "regs (set_reg n v e) = (regs e)(n := v)" "uintr_tt (set_reg n v e) = uintr_tt e"
  "uintr_pd (set_reg n v e) = uintr_pd e" "uintr_misc (set_reg n v e) = uintr_misc e"
  "uintr_stackadjust (set_reg n v e) = uintr_stackadjust e" "uintr_handler (set_reg n v e) = uintr_handler e"
  "uintr_rr (set_reg n v e) = uintr_rr e" "uintr_uif (set_reg n v e) = uintr_uif e" "eip (set_reg n v e) = eip e"
  by (simp_all add: set_reg_def)

lemma rdmsr_case_set_reg [simp]: "rdmsr_case n (set_reg r v e) = rdmsr_case n e"
  by (simp add: rdmsr_case_def)

lemma ucast_msr: "(ucast (ucast n :: u64) :: u32) = n"
  by (rule bit_word_eqI) (simp add: bit_simps)

lemma save_msr_eq:
  "save_msr n off (e, p) =
     (set_reg R_EDX (low32 (drop_bit 32 (rdmsr_case n e))) (set_reg R_EAX (low32 (rdmsr_case n e))
        (set_reg R_ECX (ucast n) e)), stq_le p (regs e R_ESP + off) (rdmsr_case n e))"
  using stl_pair [of p "regs e R_ESP + off" "rdmsr_case n e"]
  by (simp add: save_msr_def rdmsr_uintr_def Let_def ucast_low32 ucast_msr add.assoc)

lemma load_msr_eq:
  "load_msr n off (e, p) =
     (wrmsr_case n (ldq_le p (regs e R_ESP + off)) (set_reg R_EDX (ucast (ldl_le p (regs e R_ESP + (off + 4))))
        (set_reg R_EAX (ucast (ldl_le p (regs e R_ESP + off))) (set_reg R_ECX (ucast n) e))), p)"
  using ldl_pair [of p "regs e R_ESP + off"]
  by (simp add: load_msr_def wrmsr_uintr_def Let_def ucast_msr add.assoc)

text \<open>The saved word of the user-interrupt flag.\<close>

definition uif_word :: "CPUX86State \<Rightarrow> u64" where
  "uif_word e = (regs e R_EAX AND NOT 0xff) OR (if uintr_uif e \<noteq> 0 then 1 else 0)"

definition saved_frame :: "CPUX86State \<Rightarrow> u64 list" where
  "saved_frame e = [uintr_tt e, uintr_pd e, uintr_misc e, uintr_stackadjust e, uintr_handler e, uif_word e,
     regs e R_R15, regs e R_R14, regs e R_R13, regs e R_R12, regs e R_EBX, regs e R_EBP]"

lemma read_uif_eq:
  "read_uif (e, p) = (set_reg R_EAX (uif_word e) (helper_testui e), p)"
  by (simp add: read_uif_def uif_word_def helper_testui_def cpu_load_eflags_def uif_enable_def Let_def)

lemma testui_rest:
  "regs (helper_testui e) = regs e" "uintr_tt (helper_testui e) = uintr_tt e" "uintr_pd (helper_testui e) = uintr_pd e"
  "uintr_misc (helper_testui e) = uintr_misc e" "uintr_stackadjust (helper_testui e) = uintr_stackadjust e"
  "uintr_handler (helper_testui e) = uintr_handler e" "uintr_rr (helper_testui e) = uintr_rr e"
  "uintr_uif (helper_testui e) = uintr_uif e"
  by (simp_all add: helper_testui_def cpu_load_eflags_def Let_def)

lemma save_context_eq:
  obtains e' where "save_context (e, p) = (e', store_quads (regs e R_ESP - 96) (saved_frame e) p)"
    "regs e' R_ESP = regs e R_ESP - 96" "regs e' R_EDI = regs e R_EDI" "regs e' R_ESI = regs e R_ESI"
    "uintr_rr e' = uintr_rr e"
proof -
  have "\<exists>e'. save_context (e, p) = (e', store_quads (regs e R_ESP - 96) (saved_frame e) p) \<and>
    regs e' R_ESP = regs e R_ESP - 96 \<and> regs e' R_EDI = regs e R_EDI \<and> regs e' R_ESI = regs e R_ESI \<and>
    uintr_rr e' = uintr_rr e"
    by (simp add: save_context_def push_reg_def Let_def read_uif_eq add_rsp_def save_msr_eq testui_rest
        rdmsr_case_def saved_frame_def uif_word_def)
  then show thesis using that by blast
qed

lemma wrmsr_case_regs [simp]:
  "regs (wrmsr_case n v e) = regs e" "uintr_rr (wrmsr_case n v e) = uintr_rr e"
  "uintr_uif (wrmsr_case n v e) = uintr_uif e"
  by (simp_all add: wrmsr_case_def)

lemma switch_uif_rest [simp]:
  "regs (switch_uif e b) = regs e" "uintr_tt (switch_uif e b) = uintr_tt e" "uintr_pd (switch_uif e b) = uintr_pd e"
  "uintr_misc (switch_uif e b) = uintr_misc e" "uintr_stackadjust (switch_uif e b) = uintr_stackadjust e"
  "uintr_handler (switch_uif e b) = uintr_handler e" "uintr_rr (switch_uif e b) = uintr_rr e"
  "uintr_uif (switch_uif e b) = (if b then 1 else 0)"
  by (simp_all add: switch_uif_def)

text \<open>The processor after \<open>restore_context\<close> and \<open>ret\<close> from a frame with these quadwords.\<close>

definition resumed :: "u64 \<Rightarrow> u64 list \<Rightarrow> CPUX86State \<Rightarrow> bool" where
  "resumed r vs e \<longleftrightarrow>
     [uintr_tt e, uintr_pd e, uintr_misc e, uintr_stackadjust e, uintr_handler e] = take 5 vs \<and>
     uintr_uif e = (if vs ! 5 AND 0xff \<noteq> 0 then 1 else 0) \<and>
     [regs e R_R15, regs e R_R14, regs e R_R13, regs e R_R12, regs e R_EBX, regs e R_EBP] = take 6 (drop 6 vs) \<and>
     eip e = vs ! 12 \<and> regs e R_ESP = r + 104"

definition load_quads :: "mem \<Rightarrow> u64 \<Rightarrow> nat \<Rightarrow> u64 list" where
  "load_quads p a n = map (\<lambda>j. ldq_le p (a + 8 * of_nat j)) [0..<n]"

lemma restore_context_eq:
  obtains e' where "ret (restore_context (e, p)) = (e', p)" "uintr_rr e' = uintr_rr e"
    "resumed (regs e R_ESP) (load_quads p (regs e R_ESP) 13) e'"
proof -
  have quads: "load_quads p a 13 = [ldq_le p a, ldq_le p (a + 8), ldq_le p (a + 16), ldq_le p (a + 24),
      ldq_le p (a + 32), ldq_le p (a + 40), ldq_le p (a + 48), ldq_le p (a + 56), ldq_le p (a + 64),
      ldq_le p (a + 72), ldq_le p (a + 80), ldq_le p (a + 88), ldq_le p (a + 96)]" for a
    by (simp add: load_quads_def upt_rec)
  have "\<exists>e'. ret (restore_context (e, p)) = (e', p) \<and> uintr_rr e' = uintr_rr e \<and>
    resumed (regs e R_ESP) (load_quads p (regs e R_ESP) 13) e'"
    by (simp add: ret_def restore_context_def pop_reg_def Let_def add_rsp_def load_msr_eq write_uif_def
        helper_stui_def helper_clui_def resumed_def quads)
      (simp add: wrmsr_case_def, simp add: add.commute)
  then show thesis using that by blast
qed

section \<open>Regions of memory\<close>

lemma store_quads_outside: "x \<notin> region a (8 * length vs) \<Longrightarrow> store_quads a vs p x = p x"
proof (induction vs arbitrary: a)
  case (Cons v vs)
  have "x \<notin> region (a + 8) (8 * length vs)" by (rule region_step) (use Cons.prems in \<open>simp add: add.commute\<close>)
  moreover have "\<not> unat (x - a) < 8" using Cons.prems by (simp add: region_def)
  ultimately show ?case using Cons.IH by (simp add: stq_le_byte)
qed simp

lemma load_quads_region:
  assumes "\<forall>x \<in> region a (8 * n). p x = q x" "n < 2 ^ 32"
  shows "load_quads p a n = load_quads q a n"
  unfolding load_quads_def
proof (rule map_cong)
  fix j assume "j \<in> set [0..<n]"
  then have "region (a + 8 * of_nat j) 8 \<subseteq> region a (8 * n)" using assms(2) by (intro region_part) simp_all
  then show "ldq_le p (a + 8 * of_nat j) = ldq_le q (a + 8 * of_nat j)" using assms(1) by (intro ldq_region) blast
qed simp

lemma ldq_store_quads:
  "j < length vs \<Longrightarrow> length vs < 2 ^ 32 \<Longrightarrow> ldq_le (store_quads a vs p) (a + 8 * of_nat j) = vs ! j"
proof (induction vs arbitrary: a j)
  case (Cons v vs)
  show ?case
  proof (cases j)
    case (Suc i)
    then have "unat (8 * of_nat i + 8 :: u64) = 8 * i + 8"
      using Cons.prems by (simp add: unat_word_ariths unat_of_nat)
    moreover have "unat (0 - (8 * of_nat i + 8 :: u64)) = 2 ^ 64 - (8 * i + 8)"
      using calculation unat_sub_if' [of 0 "8 * of_nat i + 8 :: u64"] by simp
    ultimately have "apart a 8 (a + (8 * of_nat i + 8)) 8"
      using Cons.prems Suc by (simp add: apart_def)
    then show ?thesis
      using Cons.IH [of i "a + 8"] Cons.prems Suc by (simp add: ldq_stq_apart algebra_simps)
  qed simp
qed simp

section \<open>Switching out and in\<close>

definition stack_of :: "CPUX86State \<Rightarrow> u64" where "stack_of e = regs e R_ESP - 96"

definition switch_writes :: "CPUX86State \<Rightarrow> u64 set" where
  "switch_writes e = region (stack_of e) 96 \<union> region (regs e R_EDI) 8"

lemma length_saved_frame [simp]: "length (saved_frame e) = 12"
  by (simp add: saved_frame_def)

lemma context_switch_cases:
  obtains e' p' where
    "context_switch (e, p) = (e', p')"
    "p' = stq_le (store_quads (stack_of e) (saved_frame e) p) (regs e R_EDI) (stack_of e)"
    "resumed (ldq_le p' (regs e R_ESI)) (load_quads p' (ldq_le p' (regs e R_ESI)) 13) e'"
    "uintr_rr e' = uintr_rr e"
proof -
  obtain e1 where e1: "save_context (e, p) = (e1, store_quads (stack_of e) (saved_frame e) p)"
    "regs e1 R_ESP = stack_of e" "regs e1 R_EDI = regs e R_EDI" "regs e1 R_ESI = regs e R_ESI"
    "uintr_rr e1 = uintr_rr e"
    unfolding stack_of_def by (rule save_context_eq)
  let ?p = "stq_le (store_quads (stack_of e) (saved_frame e) p) (regs e R_EDI) (stack_of e)"
  let ?s = "set_reg R_ESP (ldq_le ?p (regs e R_ESI)) e1"
  have sw: "swap_stack (save_context (e, p)) = (?s, ?p)" using e1 by (simp add: swap_stack_def Let_def)
  obtain e2 where "ret (restore_context (?s, ?p)) = (e2, ?p)" "uintr_rr e2 = uintr_rr ?s"
    "resumed (regs ?s R_ESP) (load_quads ?p (regs ?s R_ESP) 13) e2"
    by (rule restore_context_eq)
  then show thesis using that [of e2 ?p] e1(5) by (simp add: context_switch_def sw)
qed

lemma context_switch_mem:
  assumes "context_switch (e, p) = (e', p')"
  shows "p' = stq_le (store_quads (stack_of e) (saved_frame e) p) (regs e R_EDI) (stack_of e)"
  using assms by (cases rule: context_switch_cases [of e p]) simp

lemma switch_outside:
  assumes "context_switch (e, p) = (e', p')" "x \<notin> switch_writes e"
  shows "p' x = p x"
  using assms(2) by (simp add: context_switch_mem [OF assms(1)] switch_writes_def stq_outside store_quads_outside)

lemma load_quads_snoc: "load_quads p a (Suc n) = load_quads p a n @ [ldq_le p (a + 8 * of_nat n)]"
  by (simp add: load_quads_def)

lemma load_store_quads:
  "length vs < 2 ^ 32 \<Longrightarrow> load_quads (store_quads a vs p) a (length vs) = vs"
  by (rule nth_equalityI) (simp_all add: load_quads_def ldq_store_quads)

lemma frame_top_outside:
  assumes "x \<in> region (r + 96) 8"
  shows "x \<notin> region r 96"
proof -
  define y where "y = x - r"
  have y: "x - (r + 96) = y - 96" by (simp add: y_def algebra_simps)
  have "unat (y - 96) < 8" using assms unfolding region_def mem_Collect_eq y .
  then have "96 \<le> unat y" by (simp add: unat_sub_if' split: if_splits)
  then show ?thesis by (simp add: region_def y_def)
qed

text \<open>A task that is switched out leaves its registers in the frame its saved stack pointer names.\<close>

lemma switch_out:
  assumes "context_switch (e, p) = (e', p')" "region (regs e R_EDI) 8 \<inter> region (stack_of e) 104 = {}"
  shows "ldq_le p' (regs e R_EDI) = stack_of e"
    and "load_quads p' (stack_of e) 13 = saved_frame e @ [ldq_le p (regs e R_ESP)]"
proof -
  let ?r = "stack_of e" and ?q = "store_quads (stack_of e) (saved_frame e) p"
  note p' = context_switch_mem [OF assms(1)]
  show "ldq_le p' (regs e R_EDI) = ?r" by (simp add: p')
  have "\<forall>x \<in> region ?r (8 * 13). p' x = ?q x" using assms(2) by (auto simp: p' intro: stq_outside)
  then have "load_quads p' ?r 13 = load_quads ?q ?r 13" by (intro load_quads_region) simp_all
  also have "\<dots> = load_quads ?q ?r 12 @ [ldq_le ?q (?r + 96)]"
    using load_quads_snoc [of ?q ?r 12] by simp
  also have "load_quads ?q ?r 12 = saved_frame e" using load_store_quads [of "saved_frame e" ?r p] by simp
  also have "ldq_le ?q (?r + 96) = ldq_le p (?r + 96)"
    by (rule ldq_region) (simp add: store_quads_outside frame_top_outside)
  finally show "load_quads p' ?r 13 = saved_frame e @ [ldq_le p (regs e R_ESP)]" by (simp add: stack_of_def)
qed

text \<open>A task that is switched in resumes from the frame its saved stack pointer names.\<close>

lemma switch_in:
  assumes "context_switch (f, q) = (f', q')" "ldq_le q (regs f R_ESI) = r"
    and "switch_writes f \<inter> (region (regs f R_ESI) 8 \<union> region r 104) = {}"
  shows "resumed r (load_quads q r 13) f'" "uintr_rr f' = uintr_rr f"
proof -
  have same: "q' x = q x" if "x \<in> region (regs f R_ESI) 8 \<union> region r 104" for x
    using switch_outside [OF assms(1)] assms(3) that by blast
  have stack: "ldq_le q' (regs f R_ESI) = r" using same assms(2) ldq_region [of "regs f R_ESI" q' q] by simp
  have "load_quads q' r 13 = load_quads q r 13" using same by (intro load_quads_region) simp_all
  then show "resumed r (load_quads q r 13) f'" "uintr_rr f' = uintr_rr f"
    using stack assms(1) by (cases rule: context_switch_cases [of f q], simp)+
qed

lemma uif_word_flag: "uif_word e AND 0xff \<noteq> 0 \<longleftrightarrow> uintr_uif e \<noteq> 0"
proof -
  have "(w AND NOT 0xff OR v) AND 0xff = v AND (0xff :: u64)" for w v
    by (rule bit_word_eqI) (auto simp: bit_simps)
  then show ?thesis by (simp add: uif_word_def)
qed

section \<open>Properties\<close>

text \<open>
  C8: A task is resumed as it was left. Suppose a task is switched out, with its saved stack
  pointer outside the frame pushed on its stack, and later, in any state whose memory still has
  the frame, the return address and the saved stack pointer and whose own switch does not write
  them, the task is switched in. Then the handler, stack adjustment, vector and size,
  descriptor and target-table registers, the user-interrupt flag and the callee-saved registers
  are those of the task, and it continues behind its call of the switch with the stack pointer
  it had before that call. The request register is not part of the frame: the task is resumed
  with the value the other task left there.
\<close>

theorem context_switch_roundtrip:
  assumes "context_switch (e, p) = (e1, p1)"
    and "region (regs e R_EDI) 8 \<inter> region (regs e R_ESP - 96) 104 = {}"
    and "regs f R_ESI = regs e R_EDI"
    and "\<forall>x \<in> region (regs e R_EDI) 8 \<union> region (regs e R_ESP - 96) 104. q x = p1 x"
    and "(region (regs f R_ESP - 96) 96 \<union> region (regs f R_EDI) 8) \<inter>
         (region (regs e R_EDI) 8 \<union> region (regs e R_ESP - 96) 104) = {}"
    and "context_switch (f, q) = (e2, p2)"
  shows "(uintr_handler e2, uintr_stackadjust e2, uintr_misc e2, uintr_pd e2, uintr_tt e2) =
         (uintr_handler e, uintr_stackadjust e, uintr_misc e, uintr_pd e, uintr_tt e) \<and>
       uintr_uif e2 = (if uintr_uif e = 0 then 0 else 1) \<and>
       (\<forall>n \<in> {R_EBX, R_EBP, R_R12, R_R13, R_R14, R_R15}. regs e2 n = regs e n) \<and>
       eip e2 = ldq_le p (regs e R_ESP) \<and> regs e2 R_ESP = regs e R_ESP + 8 \<and>
       uintr_rr e2 = uintr_rr f"
proof -
  let ?r = "stack_of e"
  have sep: "region (regs e R_EDI) 8 \<inter> region ?r 104 = {}" using assms(2) by (simp add: stack_of_def)
  have "ldq_le q (regs f R_ESI) = ldq_le p1 (regs e R_EDI)"
    unfolding assms(3) by (rule ldq_region) (use assms(4) in blast)
  then have stack: "ldq_le q (regs f R_ESI) = ?r" using switch_out(1) [OF assms(1) sep] by simp
  have "load_quads q ?r 13 = load_quads p1 ?r 13"
    by (rule load_quads_region) (use assms(4) in \<open>simp_all add: stack_of_def\<close>)
  then have frame: "load_quads q ?r 13 = saved_frame e @ [ldq_le p (regs e R_ESP)]"
    using switch_out(2) [OF assms(1) sep] by simp
  have "switch_writes f \<inter> (region (regs f R_ESI) 8 \<union> region ?r 104) = {}"
    using assms(5) by (simp add: switch_writes_def stack_of_def assms(3))
  note resume = switch_in [OF assms(6) stack this]
  have "saved_frame e ! 5 AND 0xff \<noteq> 0 \<longleftrightarrow> uintr_uif e \<noteq> 0" using uif_word_flag by (simp add: saved_frame_def)
  then show ?thesis using resume unfolding frame resumed_def by (simp add: saved_frame_def stack_of_def)
qed

text \<open>
  Two tasks with stacks ending at \<^verbatim>\<open>0x2000\<close> and \<^verbatim>\<open>0x3000\<close> whose saved stack pointers are at
  \<^verbatim>\<open>0x5000\<close> and \<^verbatim>\<open>0x5100\<close>.
\<close>

definition first_task :: CPUX86State where
  "first_task = (uintr_env False)\<lparr>regs := (\<lambda>_. 0)(R_ESP := 0x2000, R_EDI := 0x5000, R_ESI := 0x5100, R_EBX := 7),
     uintr_handler := 0x1234, uintr_uif := 1, uintr_rr := 1\<rparr>"

definition second_task :: CPUX86State where
  "second_task = (uintr_env False)\<lparr>regs := (\<lambda>_. 0)(R_ESP := 0x3000, R_EDI := 0x5100, R_ESI := 0x5000)\<rparr>"

lemma task_regions:
  "region 0x5000 8 \<inter> region 0x1fa0 104 = {}"
  "(region 0x2fa0 96 \<union> region 0x5100 8) \<inter> (region 0x5000 8 \<union> region 0x1fa0 104) = {}"
proof -
  have *: "region 0x1fa0 104 \<inter> region 0x5000 8 = {}" "region 0x1fa0 104 \<inter> region 0x2fa0 96 = {}"
    "region 0x1fa0 104 \<inter> region 0x5100 8 = {}" "region 0x2fa0 96 \<inter> region 0x5000 8 = {}"
    "region 0x5000 8 \<inter> region 0x5100 8 = {}"
    by (simp_all add: region_disjoint)
  show "region 0x5000 8 \<inter> region 0x1fa0 104 = {}"
    "(region 0x2fa0 96 \<union> region 0x5100 8) \<inter> (region 0x5000 8 \<union> region 0x1fa0 104) = {}"
    using * by blast+
qed

theorem context_switch_roundtrip_witness:
  "\<exists>e2 p2. context_switch (second_task, snd (context_switch (first_task, \<lambda>_. 0x11))) = (e2, p2) \<and>
     uintr_handler e2 = 0x1234 \<and> uintr_uif e2 = 1 \<and> regs e2 R_EBX = 7 \<and> regs e2 R_ESP = 0x2008 \<and>
     eip e2 = ldq_le (\<lambda>_. 0x11) 0x2000 \<and> uintr_rr e2 = uintr_rr second_task"
proof -
  obtain e1 p1 where 1: "context_switch (first_task, \<lambda>_. 0x11) = (e1, p1)" by (meson surj_pair)
  obtain e2 p2 where 2: "context_switch (second_task, p1) = (e2, p2)" by (meson surj_pair)
  show ?thesis
    using context_switch_roundtrip [OF 1 _ _ _ _ 2] 1 2 task_regions
    by (simp add: first_task_def second_task_def)
qed

text \<open>
  A new task starts at its entry point on its whole kernel stack, with user interrupts disabled
  and all user-interrupt registers zero but the request register.
\<close>

theorem new_task_start:
  assumes "task_init entry kstack_top p = (r, p1)" "\<forall>x \<in> region r 104. q x = p1 x"
    and "ldq_le q (regs f R_ESI) = r" "switch_writes f \<inter> (region (regs f R_ESI) 8 \<union> region r 104) = {}"
    and "context_switch (f, q) = (e, p2)"
  shows "eip e = entry \<and> regs e R_ESP = kstack_top \<and> uintr_uif e = 0 \<and>
    uintr_handler e = 0 \<and> uintr_pd e = 0 \<and> uintr_tt e = 0 \<and> uintr_rr e = uintr_rr f"
proof -
  have p1: "p1 = store_quads r (replicate 12 0 @ [entry]) p" "r + 104 = kstack_top"
    using assms(1) by (auto simp: task_init_def Let_def)
  have "load_quads q r 13 = load_quads p1 r 13"
    by (rule load_quads_region) (use assms(2) in simp_all)
  also have "\<dots> = replicate 12 0 @ [entry]"
    using load_store_quads [of "replicate 12 0 @ [entry]" r p] by (simp add: p1)
  finally have "resumed r (replicate 12 0 @ [entry]) e" "uintr_rr e = uintr_rr f"
    using switch_in [OF assms(5,3,4)] by simp_all
  then show ?thesis by (simp add: resumed_def numeral_eq_Suc p1(2) [symmetric])
qed

end
