(* ===== verification/NimbOS_Memory.thy ===== *)
theory NimbOS_Memory
  imports Memory_Regions
begin

text \<open>
  Memory management of the NimbOS kernel: addresses (\<^verbatim>\<open>mm/address.rs\<close>), the frame allocator
  (\<^verbatim>\<open>utils/allocator.rs\<close>, \<^verbatim>\<open>mm/frame_allocator.rs\<close>), page-table entries
  (\<^verbatim>\<open>arch/x86_64/page_table.rs\<close>), page tables (\<^verbatim>\<open>mm/paging.rs\<close>) and the areas of an address
  space (\<^verbatim>\<open>mm/memory_set.rs\<close>). \<^verbatim>\<open>usize\<close> is a 64-bit word. A panic is \<^const>\<open>None\<close>; where the code
  returns an \<^verbatim>\<open>Option\<close> itself, the outer level is the panic. The kernel reaches physical memory
  through its linear mapping, so an access by a kernel address is an access to the physical
  address it stands for.
\<close>

section \<open>Addresses\<close>

abbreviation (input) PAGE_SIZE :: u64 where "PAGE_SIZE \<equiv> 0x1000"
abbreviation (input) PHYS_VIRT_OFFSET :: u64 where "PHYS_VIRT_OFFSET \<equiv> 0xffffff8000000000"

definition phys_to_virt :: "u64 \<Rightarrow> u64" where "phys_to_virt paddr = paddr + PHYS_VIRT_OFFSET"

definition virt_to_phys :: "u64 \<Rightarrow> u64" where "virt_to_phys vaddr = vaddr - PHYS_VIRT_OFFSET"

definition PhysAddr_new :: "u64 \<Rightarrow> u64" where "PhysAddr_new pa = pa AND (push_bit 40 1 - 1)"

definition VirtAddr_new :: "u64 \<Rightarrow> u64 option" where
  "VirtAddr_new va =
     (let top_bits = drop_bit (48 - 1) va
      in if top_bits \<noteq> 0 \<and> top_bits \<noteq> 0x1ffff then None else Some va)"

definition into_kvaddr :: "u64 \<Rightarrow> u64 option" where
  "into_kvaddr pa = VirtAddr_new (phys_to_virt pa)"

definition align_down :: "u64 \<Rightarrow> u64 \<Rightarrow> u64" where
  "align_down addr page_size = addr AND NOT (page_size - 1)"

definition addr_align_up :: "u64 \<Rightarrow> u64 \<Rightarrow> u64" where
  "addr_align_up addr page_size = (addr + page_size - 1) AND NOT (page_size - 1)"

definition page_offset :: "u64 \<Rightarrow> u64 \<Rightarrow> u64" where
  "page_offset addr page_size = addr AND (page_size - 1)"

definition is_aligned :: "u64 \<Rightarrow> u64 \<Rightarrow> bool" where
  "is_aligned addr page_size \<longleftrightarrow> page_offset addr page_size = 0"

section \<open>Frames\<close>

text \<open>\<^verbatim>\<open>free_list\<close> is a vector used as a stack; its top is the end of the list.\<close>

record FreeListAllocator =
  range_start :: u64
  range_end :: u64
  next_available :: u64
  free_list :: "u64 list"

definition fl_empty :: FreeListAllocator where
  "fl_empty = \<lparr>range_start = 0, range_end = 0, next_available = 0, free_list = []\<rparr>"

definition fl_init :: "u64 \<Rightarrow> u64 \<Rightarrow> FreeListAllocator \<Rightarrow> FreeListAllocator" where
  "fl_init lo hi a = a\<lparr>next_available := lo, range_start := lo, range_end := hi\<rparr>"

definition available_space :: "FreeListAllocator \<Rightarrow> u64" where
  "available_space a = of_nat (length (free_list a)) + range_end a - next_available a"

definition fl_alloc :: "FreeListAllocator \<Rightarrow> u64 option \<times> FreeListAllocator" where
  "fl_alloc a =
     (if free_list a \<noteq> [] then (Some (last (free_list a)), a\<lparr>free_list := butlast (free_list a)\<rparr>)
      else if range_end a \<le> next_available a then (None, a)
      else (Some (next_available a + 1 - 1), a\<lparr>next_available := next_available a + 1\<rparr>))"

definition fl_dealloc :: "u64 \<Rightarrow> FreeListAllocator \<Rightarrow> FreeListAllocator option" where
  "fl_dealloc v a =
     (if range_start a \<le> v \<and> v < next_available a \<and> v \<notin> set (free_list a)
      then Some (a\<lparr>free_list := free_list a @ [v]\<rparr>) else None)"

text \<open>Physical memory and the allocator of its frames; a \<^verbatim>\<open>PhysFrame\<close> is its address.\<close>

record kmem =
  ram :: mem
  frames :: FreeListAllocator

definition zero_page :: "u64 \<Rightarrow> mem \<Rightarrow> mem" where
  "zero_page f p = store_bytes p f (replicate 4096 0)"

definition frame_alloc :: "kmem \<Rightarrow> u64 option \<times> kmem" where
  "frame_alloc k =
     (case fl_alloc (frames k) of
        (None, a) \<Rightarrow> (None, k\<lparr>frames := a\<rparr>)
      | (Some v, a) \<Rightarrow> (Some (PhysAddr_new (v * PAGE_SIZE)), k\<lparr>frames := a\<rparr>))"

definition alloc_zero :: "kmem \<Rightarrow> (u64 option \<times> kmem) option" where
  "alloc_zero k =
     (case frame_alloc k of
        (None, k1) \<Rightarrow> Some (None, k1)
      | (Some f, k1) \<Rightarrow>
          if into_kvaddr f = None then None else Some (Some f, k1\<lparr>ram := zero_page f (ram k1)\<rparr>))"

text \<open>\<^verbatim>\<open>drop\<close> of a frame.\<close>

definition frame_drop :: "u64 \<Rightarrow> kmem \<Rightarrow> kmem option" where
  "frame_drop f k =
     map_option (\<lambda>a. k\<lparr>frames := a\<rparr>) (fl_dealloc (f div PAGE_SIZE) (frames k))"

text \<open>The frames lie between the end of the kernel image, given by the linker, and the end of memory.\<close>

definition init_frame_allocator :: "u64 \<Rightarrow> u64 \<Rightarrow> FreeListAllocator \<Rightarrow> FreeListAllocator" where
  "init_frame_allocator ekernel phys_memory_end a =
     fl_init (addr_align_up (PhysAddr_new (virt_to_phys ekernel)) PAGE_SIZE div PAGE_SIZE)
       (align_down (PhysAddr_new phys_memory_end) PAGE_SIZE div PAGE_SIZE) a"

section \<open>Entries\<close>

text \<open>
  The flags of an entry come from the \<^verbatim>\<open>x86_64\<close> package. They are a parameter of the model;
  \<open>ptf_documented\<close> is what its documentation says, the bits of the processor's entry format
  and, for \<^verbatim>\<open>from_bits_truncate\<close>, that every bit outside the address is some flag.
\<close>

record PTF =
  PRESENT :: u64
  WRITABLE :: u64
  USER_ACCESSIBLE :: u64
  WRITE_THROUGH :: u64
  NO_CACHE :: u64
  HUGE_PAGE :: u64
  NO_EXECUTE :: u64
  ALL_FLAGS :: u64

abbreviation (input) PHYS_ADDR_MASK :: u64 where "PHYS_ADDR_MASK \<equiv> 0x000ffffffffff000"

definition ptf_documented :: "PTF \<Rightarrow> bool" where
  "ptf_documented F \<longleftrightarrow> F = \<lparr>PRESENT = 1, WRITABLE = 2, USER_ACCESSIBLE = 4, WRITE_THROUGH = 8,
     NO_CACHE = 16, HUGE_PAGE = 128, NO_EXECUTE = push_bit 63 1, ALL_FLAGS = NOT PHYS_ADDR_MASK\<rparr>"

abbreviation (input) READ :: u64 where "READ \<equiv> 1"
abbreviation (input) WRITE :: u64 where "WRITE \<equiv> 2"
abbreviation (input) EXECUTE :: u64 where "EXECUTE \<equiv> 4"
abbreviation (input) USER :: u64 where "USER \<equiv> 8"
abbreviation (input) DEVICE :: u64 where "DEVICE \<equiv> 16"

definition contains :: "u64 \<Rightarrow> u64 \<Rightarrow> bool" where "contains f g \<longleftrightarrow> f AND g = g"

definition MemFlags_from :: "PTF \<Rightarrow> u64 \<Rightarrow> u64" where
  "MemFlags_from F f =
     (if f = 0 then 0
      else READ OR (if contains f (WRITABLE F) then WRITE else 0)
        OR (if \<not> contains f (NO_EXECUTE F) then EXECUTE else 0)
        OR (if contains f (USER_ACCESSIBLE F) then USER else 0)
        OR (if contains f (NO_CACHE F) then DEVICE else 0))"

definition PTF_from :: "PTF \<Rightarrow> u64 \<Rightarrow> u64" where
  "PTF_from F f =
     (if f = 0 then 0
      else PRESENT F OR (if contains f WRITE then WRITABLE F else 0)
        OR (if \<not> contains f EXECUTE then NO_EXECUTE F else 0)
        OR (if contains f USER then USER_ACCESSIBLE F else 0)
        OR (if contains f DEVICE then NO_CACHE F OR WRITE_THROUGH F else 0))"

definition new_page :: "PTF \<Rightarrow> u64 \<Rightarrow> u64 \<Rightarrow> bool \<Rightarrow> u64" where
  "new_page F paddr fl block =
     PTF_from F fl OR (if block then HUGE_PAGE F else 0) OR (paddr AND PHYS_ADDR_MASK)"

definition new_table :: "PTF \<Rightarrow> u64 \<Rightarrow> u64" where
  "new_table F paddr =
     PRESENT F OR WRITABLE F OR USER_ACCESSIBLE F OR (paddr AND PHYS_ADDR_MASK)"

definition pte_paddr :: "u64 \<Rightarrow> u64" where
  "pte_paddr x = PhysAddr_new (x AND PHYS_ADDR_MASK)"

definition pte_flags :: "PTF \<Rightarrow> u64 \<Rightarrow> u64" where
  "pte_flags F x = MemFlags_from F (x AND ALL_FLAGS F)"

definition is_unused :: "u64 \<Rightarrow> bool" where "is_unused x \<longleftrightarrow> x = 0"

definition is_present :: "PTF \<Rightarrow> u64 \<Rightarrow> bool" where
  "is_present F x \<longleftrightarrow> contains (x AND ALL_FLAGS F) (PRESENT F)"

definition is_block :: "PTF \<Rightarrow> u64 \<Rightarrow> bool" where
  "is_block F x \<longleftrightarrow> contains (x AND ALL_FLAGS F) (HUGE_PAGE F)"

section \<open>Page tables\<close>

record PageTableImpl =
  root_paddr :: u64
  intrm_tables :: "u64 list"

definition p4_index :: "u64 \<Rightarrow> u64" where "p4_index va = drop_bit (12 + 27) va AND (512 - 1)"
definition p3_index :: "u64 \<Rightarrow> u64" where "p3_index va = drop_bit (12 + 18) va AND (512 - 1)"
definition p2_index :: "u64 \<Rightarrow> u64" where "p2_index va = drop_bit (12 + 9) va AND (512 - 1)"
definition p1_index :: "u64 \<Rightarrow> u64" where "p1_index va = drop_bit 12 va AND (512 - 1)"

text \<open>A table is its physical address, an entry the physical address of its eight bytes.\<close>

definition table_of_mut :: "u64 \<Rightarrow> u64 option" where
  "table_of_mut paddr = map_option (\<lambda>_. paddr) (into_kvaddr paddr)"

definition entry_of :: "u64 \<Rightarrow> u64 \<Rightarrow> u64" where "entry_of t i = t + 8 * i"

definition next_table_mut :: "PTF \<Rightarrow> u64 \<Rightarrow> u64 option option" where
  "next_table_mut F x =
     (if \<not> is_present F x then Some None
      else if is_block F x then None
      else map_option Some (table_of_mut (pte_paddr x)))"

text \<open>Rust's \<^verbatim>\<open>?\<close> on a computation that may panic.\<close>

definition try_bind :: "'a option option \<Rightarrow> ('a \<Rightarrow> 'b option option) \<Rightarrow> 'b option option" where
  "try_bind r f = (case r of None \<Rightarrow> None | Some None \<Rightarrow> Some None | Some (Some x) \<Rightarrow> f x)"

definition get_entry_mut :: "PTF \<Rightarrow> PageTableImpl \<Rightarrow> u64 \<Rightarrow> mem \<Rightarrow> u64 option option" where
  "get_entry_mut F pt va p =
     Option.bind (table_of_mut (root_paddr pt)) (\<lambda>p4.
     try_bind (next_table_mut F (ldq_le p (entry_of p4 (p4_index va)))) (\<lambda>p3.
     try_bind (next_table_mut F (ldq_le p (entry_of p3 (p3_index va)))) (\<lambda>p2.
     try_bind (next_table_mut F (ldq_le p (entry_of p2 (p2_index va)))) (\<lambda>p1.
     Some (Some (entry_of p1 (p1_index va)))))))"

type_synonym pt_state = "PageTableImpl \<times> kmem"

definition alloc_intrm_table :: "pt_state \<Rightarrow> (u64 \<times> pt_state) option" where
  "alloc_intrm_table s =
     (case s of (pt, k) \<Rightarrow>
        case alloc_zero k of
          Some (Some f, k1) \<Rightarrow> Some (f, pt\<lparr>intrm_tables := intrm_tables pt @ [f]\<rparr>, k1)
        | _ \<Rightarrow> None)"

definition next_table_mut_or_create :: "PTF \<Rightarrow> u64 \<Rightarrow> pt_state \<Rightarrow> (u64 option \<times> pt_state) option" where
  "next_table_mut_or_create F ea s =
     (let x = ldq_le (ram (snd s)) ea
      in if is_unused x then
           Option.bind (alloc_intrm_table s) (\<lambda>(f, pt, k).
           map_option (\<lambda>t. (Some t, pt, k\<lparr>ram := stq_le (ram k) ea (new_table F f)\<rparr>)) (table_of_mut f))
         else map_option (\<lambda>t. (t, s)) (next_table_mut F x))"

definition try_state ::
    "('a option \<times> 's) option \<Rightarrow> ('a \<Rightarrow> 's \<Rightarrow> ('b option \<times> 's) option) \<Rightarrow> ('b option \<times> 's) option" where
  "try_state r f =
     (case r of None \<Rightarrow> None | Some (None, s) \<Rightarrow> Some (None, s) | Some (Some x, s) \<Rightarrow> f x s)"

definition get_entry_mut_or_create :: "PTF \<Rightarrow> u64 \<Rightarrow> pt_state \<Rightarrow> (u64 option \<times> pt_state) option" where
  "get_entry_mut_or_create F va s =
     Option.bind (table_of_mut (root_paddr (fst s))) (\<lambda>p4.
     try_state (next_table_mut_or_create F (entry_of p4 (p4_index va)) s) (\<lambda>p3 s.
     try_state (next_table_mut_or_create F (entry_of p3 (p3_index va)) s) (\<lambda>p2 s.
     try_state (next_table_mut_or_create F (entry_of p2 (p2_index va)) s) (\<lambda>p1 s.
     Some (Some (entry_of p1 (p1_index va)), s)))))"

definition pt_map :: "PTF \<Rightarrow> u64 \<Rightarrow> u64 \<Rightarrow> u64 \<Rightarrow> pt_state \<Rightarrow> pt_state option" where
  "pt_map F va pa fl s =
     (case get_entry_mut_or_create F va s of
        Some (Some ea, pt, k) \<Rightarrow>
          if \<not> is_unused (ldq_le (ram k) ea) then None
          else Some (pt, k\<lparr>ram := stq_le (ram k) ea (new_page F (align_down pa PAGE_SIZE) fl False)\<rparr>)
      | _ \<Rightarrow> None)"

definition pt_unmap :: "PTF \<Rightarrow> u64 \<Rightarrow> pt_state \<Rightarrow> pt_state option" where
  "pt_unmap F va s =
     (case s of (pt, k) \<Rightarrow>
        case get_entry_mut F pt va (ram k) of
          Some (Some ea) \<Rightarrow>
            if is_unused (ldq_le (ram k) ea) then None else Some (pt, k\<lparr>ram := stq_le (ram k) ea 0\<rparr>)
        | _ \<Rightarrow> None)"

definition pt_query :: "PTF \<Rightarrow> PageTableImpl \<Rightarrow> u64 \<Rightarrow> mem \<Rightarrow> (u64 \<times> u64) option option" where
  "pt_query F pt va p =
     try_bind (get_entry_mut F pt va p) (\<lambda>ea.
       let x = ldq_le p ea
       in if is_unused x then Some None
          else Some (Some (PhysAddr_new (pte_paddr x + page_offset va PAGE_SIZE), pte_flags F x)))"

definition pt_new :: "kmem \<Rightarrow> pt_state option" where
  "pt_new k =
     (case alloc_zero k of
        Some (Some f, k1) \<Rightarrow> Some (\<lparr>root_paddr = f, intrm_tables = [f]\<rparr>, k1)
      | _ \<Rightarrow> None)"

text \<open>The top-level entries that cover \<open>[start, end)\<close> are copied into a new table.\<close>

definition clone_from :: "PageTableImpl \<Rightarrow> u64 \<Rightarrow> u64 \<Rightarrow> kmem \<Rightarrow> pt_state option" where
  "clone_from src start end k =
     Option.bind (pt_new k) (\<lambda>(pt, k).
     Option.bind (table_of_mut (root_paddr pt)) (\<lambda>dst.
     Option.bind (table_of_mut (root_paddr src)) (\<lambda>src.
     Option.bind (VirtAddr_new (end - 1)) (\<lambda>last.
     let start_idx = unat (p4_index start); end_idx = unat (p4_index last + 1)
     in if end_idx < start_idx then None
        else Some (pt, k\<lparr>ram := fold (\<lambda>i p. stq_le p (entry_of dst (of_nat i))
                                  (ldq_le p (entry_of src (of_nat i)))) [start_idx..<end_idx] (ram k)\<rparr>)))))"

section \<open>Areas\<close>

datatype Mapper = Offset u64 | Framed "u64 \<rightharpoonup> u64"

record MapArea =
  area_start :: u64
  area_size :: u64
  area_flags :: u64
  mapper :: Mapper

definition new_offset :: "u64 \<Rightarrow> u64 \<Rightarrow> u64 \<Rightarrow> u64 \<Rightarrow> MapArea option" where
  "new_offset start_vaddr start_paddr sz fl =
     (if is_aligned start_vaddr PAGE_SIZE \<and> is_aligned start_paddr PAGE_SIZE \<and> is_aligned sz PAGE_SIZE
      then Some \<lparr>area_start = start_vaddr, area_size = sz, area_flags = fl,
                 mapper = Offset (start_vaddr - start_paddr)\<rparr>
      else None)"

definition new_framed :: "u64 \<Rightarrow> u64 \<Rightarrow> u64 \<Rightarrow> MapArea option" where
  "new_framed start_vaddr sz fl =
     (if is_aligned start_vaddr PAGE_SIZE \<and> is_aligned sz PAGE_SIZE
      then Some \<lparr>area_start = start_vaddr, area_size = sz, area_flags = fl, mapper = Framed Map.empty\<rparr>
      else None)"

definition area_map :: "u64 \<Rightarrow> MapArea \<times> kmem \<Rightarrow> (u64 \<times> MapArea \<times> kmem) option" where
  "area_map va s =
     (case s of (area, k) \<Rightarrow>
        if \<not> is_aligned va PAGE_SIZE then None
        else case mapper area of
          Offset off \<Rightarrow> Some (PhysAddr_new (va - off), area, k)
        | Framed fs \<Rightarrow>
            (case fs va of
               Some f \<Rightarrow> Some (f, area, k)
             | None \<Rightarrow>
                 (case alloc_zero k of
                    Some (Some f, k1) \<Rightarrow> Some (f, area\<lparr>mapper := Framed (fs(va \<mapsto> f))\<rparr>, k1)
                  | _ \<Rightarrow> None)))"

definition area_unmap :: "u64 \<Rightarrow> MapArea \<times> kmem \<Rightarrow> (MapArea \<times> kmem) option" where
  "area_unmap va s =
     (case s of (area, k) \<Rightarrow>
        case mapper area of
          Offset off \<Rightarrow> Some (area, k)
        | Framed fs \<Rightarrow>
            (case fs va of
               None \<Rightarrow> Some (area, k)
             | Some f \<Rightarrow> map_option (\<lambda>k1. (area\<lparr>mapper := Framed (fs(va := None))\<rparr>, k1)) (frame_drop f k)))"

text \<open>
  The loops over the pages of an area. A loop that did not end would have the value
  \<^const>\<open>None\<close>, like a panic.
\<close>

partial_function (option) map_area_from ::
    "PTF \<Rightarrow> u64 \<Rightarrow> u64 \<Rightarrow> MapArea \<Rightarrow> pt_state \<Rightarrow> (MapArea \<times> pt_state) option" where
  "map_area_from F va end area s =
     (if va < end then
        Option.bind (VirtAddr_new va) (\<lambda>v.
        Option.bind (area_map v (area, snd s)) (\<lambda>r.
        Option.bind (pt_map F v (fst r) (area_flags (fst (snd r))) (fst s, snd (snd r))) (\<lambda>s1.
        map_area_from F (va + PAGE_SIZE) end (fst (snd r)) s1)))
      else Some (area, s))"

definition map_area :: "PTF \<Rightarrow> MapArea \<Rightarrow> pt_state \<Rightarrow> (MapArea \<times> pt_state) option" where
  "map_area F area s = map_area_from F (area_start area) (area_start area + area_size area) area s"

partial_function (option) unmap_area_from ::
    "PTF \<Rightarrow> u64 \<Rightarrow> u64 \<Rightarrow> MapArea \<Rightarrow> pt_state \<Rightarrow> (MapArea \<times> pt_state) option" where
  "unmap_area_from F va end area s =
     (if va < end then
        Option.bind (VirtAddr_new va) (\<lambda>v.
        Option.bind (area_unmap v (area, snd s)) (\<lambda>r.
        Option.bind (pt_unmap F v (fst s, snd r)) (\<lambda>s1.
        unmap_area_from F (va + PAGE_SIZE) end (fst r) s1)))
      else Some (area, s))"

definition unmap_area :: "PTF \<Rightarrow> MapArea \<Rightarrow> pt_state \<Rightarrow> (MapArea \<times> pt_state) option" where
  "unmap_area F area s = unmap_area_from F (area_start area) (area_start area + area_size area) area s"

section \<open>Address spaces\<close>

text \<open>The areas are kept by their start addresses; \<^verbatim>\<open>values\<close> goes through them in that order.\<close>

record MemorySet =
  page_table :: PageTableImpl
  areas :: "u64 \<rightharpoonup> MapArea"

definition ms_new_kernel :: "kmem \<Rightarrow> (MemorySet \<times> kmem) option" where
  "ms_new_kernel k = map_option (\<lambda>(t, k). (\<lparr>page_table = t, areas = Map.empty\<rparr>, k)) (pt_new k)"

definition ms_insert :: "PTF \<Rightarrow> MapArea \<Rightarrow> MemorySet \<times> kmem \<Rightarrow> (MemorySet \<times> kmem) option" where
  "ms_insert F area s =
     (case s of (ms, k) \<Rightarrow>
        if 0 < area_size area then
          case areas ms (area_start area) of
            None \<Rightarrow>
              map_option (\<lambda>(a, t, k). (ms\<lparr>page_table := t, areas := (areas ms)(area_start area \<mapsto> a)\<rparr>, k))
                (map_area F area (page_table ms, k))
          | Some _ \<Rightarrow> None
        else Some (ms, k))"

definition area_keys :: "(u64 \<rightharpoonup> MapArea) \<Rightarrow> u64 list" where
  "area_keys m = sorted_list_of_set (dom m)"

text \<open>
  Dropping a value drops the frames it owns. \<^verbatim>\<open>clear\<close> unmaps all areas and then drops them with
  the frames they still have; dropping the address space clears it and drops its tables.
\<close>

definition drop_all :: "u64 list \<Rightarrow> kmem \<Rightarrow> kmem option" where
  "drop_all fs k = fold (\<lambda>f r. Option.bind r (frame_drop f)) fs (Some k)"

definition area_drop :: "MapArea \<Rightarrow> kmem \<Rightarrow> kmem option" where
  "area_drop area k =
     (case mapper area of
        Offset off \<Rightarrow> Some k
      | Framed fs \<Rightarrow> drop_all (map (\<lambda>v. the (fs v)) (sorted_list_of_set (dom fs))) k)"

definition unmap_areas :: "PTF \<Rightarrow> u64 list \<Rightarrow> MemorySet \<times> kmem \<Rightarrow> (MemorySet \<times> kmem) option" where
  "unmap_areas F vs s =
     fold (\<lambda>v r. Option.bind r (\<lambda>(ms, k).
         map_option (\<lambda>(a, t, k). (ms\<lparr>page_table := t, areas := (areas ms)(v \<mapsto> a)\<rparr>, k))
           (unmap_area F (the (areas ms v)) (page_table ms, k))))
       vs (Some s)"

definition ms_clear :: "PTF \<Rightarrow> MemorySet \<times> kmem \<Rightarrow> (MemorySet \<times> kmem) option" where
  "ms_clear F s =
     (let vs = area_keys (areas (fst s))
      in Option.bind (unmap_areas F vs s) (\<lambda>(ms, k).
         map_option (\<lambda>k. (ms\<lparr>areas := Map.empty\<rparr>, k))
           (fold (\<lambda>v r. Option.bind r (area_drop (the (areas ms v)))) vs (Some k))))"

definition ms_drop :: "PTF \<Rightarrow> MemorySet \<times> kmem \<Rightarrow> kmem option" where
  "ms_drop F s = Option.bind (ms_clear F s) (\<lambda>(ms, k). drop_all (intrm_tables (page_table ms)) k)"

end
