(* ===== verification/NimbOS_Uintr.thy ===== *)
theory NimbOS_Uintr
  imports NimbOS_Context NimbOS_Memory
begin

text \<open>
  The system calls by which NimbOS tasks register for user interrupts
  (\<^verbatim>\<open>nimbos/kernel/src/syscall/uintr.rs\<close>): bit sets, the target table of a sender, the descriptor
  of a receiver, and the model-specific registers both calls program. The tables are kernel
  objects; the kernel and, through its page table, the processor reach them at addresses of the
  linear mapping. Where the heap puts a new object is an argument.
\<close>

section \<open>Bit sets\<close>

text \<open>A set of the numbers below \<open>N\<close> in 64-bit words; the indices of the array are checked.\<close>

definition bs_new :: "nat \<Rightarrow> u64 list" where "bs_new M = replicate M 0"

definition bs_set :: "nat \<Rightarrow> nat \<Rightarrow> u64 list \<Rightarrow> u64 list option" where
  "bs_set N i bs =
     (let word = i div 64; b = i mod 64
      in if i < N \<and> word < length bs then Some (bs[word := bs ! word OR push_bit b 1]) else None)"

definition bs_clear :: "nat \<Rightarrow> nat \<Rightarrow> u64 list \<Rightarrow> u64 list option" where
  "bs_clear N i bs =
     (let word = i div 64; b = i mod 64
      in if i < N \<and> word < length bs then Some (bs[word := bs ! word AND NOT (push_bit b 1)]) else None)"

definition bs_test :: "nat \<Rightarrow> nat \<Rightarrow> u64 list \<Rightarrow> bool option" where
  "bs_test N i bs =
     (let word = i div 64; b = i mod 64
      in if i < N \<and> word < length bs then Some (bs ! word AND push_bit b 1 \<noteq> 0) else None)"

definition trailing_ones :: "u64 \<Rightarrow> nat" where
  "trailing_ones w = length (takeWhile (bit w) [0..<64])"

fun find_zero_from :: "nat \<Rightarrow> nat \<Rightarrow> u64 list \<Rightarrow> nat option" where
  "find_zero_from N word_idx [] = None"
| "find_zero_from N word_idx (w # ws) =
     (let i = word_idx * 64 + trailing_ones w
      in if w \<noteq> - 1 \<and> i < N then Some i else find_zero_from N (Suc word_idx) ws)"

definition find_first_zero :: "nat \<Rightarrow> u64 list \<Rightarrow> nat option" where
  "find_first_zero N bs = find_zero_from N 0 bs"

definition bs_is_empty :: "u64 list \<Rightarrow> bool" where
  "bs_is_empty bs \<longleftrightarrow> list_all (\<lambda>w. w = 0) bs"

definition bs_is_full :: "nat \<Rightarrow> u64 list \<Rightarrow> bool option" where
  "bs_is_full N bs =
     (if \<not> list_all (\<lambda>w. w = - 1) (take (N div 64) bs) then Some False
      else if N mod 64 = 0 then Some True
      else if N div 64 < length bs then Some (bs ! (N div 64) = push_bit (N mod 64) 1 - 1)
      else None)"

section \<open>Registers\<close>

definition genmask_ull :: "u64 \<Rightarrow> u64 \<Rightarrow> u64 option" where
  "genmask_ull h l =
     (if 64 \<le> h \<or> 64 \<le> l \<or> h < l then None
      else Some (push_bit (unat l) (NOT 0) AND drop_bit (unat (63 - h)) (NOT 0)))"

text \<open>The instructions with their operands in \<^verbatim>\<open>ECX\<close>, \<^verbatim>\<open>EAX\<close> and \<^verbatim>\<open>EDX\<close>.\<close>

definition asm_wrmsr :: "u32 \<Rightarrow> u32 \<Rightarrow> u32 \<Rightarrow> CPUX86State \<Rightarrow> CPUX86State" where
  "asm_wrmsr n low high e =
     wrmsr_uintr (set_reg R_EDX (ucast high) (set_reg R_EAX (ucast low) (set_reg R_ECX (ucast n) e)))"

definition asm_rdmsr :: "u32 \<Rightarrow> CPUX86State \<Rightarrow> (u32 \<times> u32) \<times> CPUX86State" where
  "asm_rdmsr n e =
     (let e1 = rdmsr_uintr (set_reg R_ECX (ucast n) e)
      in ((ucast (regs e1 R_EAX), ucast (regs e1 R_EDX)), e1))"

section \<open>Senders\<close>

abbreviation (input) UINTR_MAX_UITT_NR :: nat where "UINTR_MAX_UITT_NR \<equiv> 16"
abbreviation (input) UINTR_UITT_MASK_WORDS :: nat where "UINTR_UITT_MASK_WORDS \<equiv> 1"

record UintrUittCtx =
  uitt_ptr :: u64
  uitt_mask :: "u64 list"

text \<open>The fields of \<^verbatim>\<open>TaskContext\<close> the calls use; \<open>uintr_upid_ctx\<close> is the address of the descriptor.\<close>

record TaskContext =
  uitt :: "UintrUittCtx option"
  uitt_activated :: bool
  upid_activated :: bool
  uintr_upid_ctx :: "u64 option"

definition TaskContext_default :: TaskContext where
  "TaskContext_default = \<lparr>uitt = None, uitt_activated = False, upid_activated = False, uintr_upid_ctx = None\<rparr>"

type_synonym uintr_call_state = "TaskContext \<times> CPUX86State \<times> mem"

definition uintr_init_sender :: "u64 \<Rightarrow> uintr_call_state \<Rightarrow> uintr_call_state" where
  "uintr_init_sender heap s =
     (case s of (ctx, e, p) \<Rightarrow>
        case uitt ctx of
          None \<Rightarrow>
            (ctx\<lparr>uitt := Some \<lparr>uitt_ptr = heap, uitt_mask = bs_new UINTR_UITT_MASK_WORDS\<rparr>\<rparr>, e,
             store_bytes p (virt_to_phys heap) (replicate (16 * UINTR_MAX_UITT_NR) 0))
        | Some _ \<Rightarrow> s)"

definition uintr_set_sender_msrs :: "uintr_call_state \<Rightarrow> uintr_call_state option" where
  "uintr_set_sender_msrs s =
     (case s of (ctx, e, p) \<Rightarrow>
        Option.bind (uitt ctx) (\<lambda>u.
        let e = asm_wrmsr MSR_IA32_UINTR_TT (ucast (uitt_ptr u) OR 1) (ucast (drop_bit 32 (uitt_ptr u))) e;
            ((msr64_low, msr64_high), e) = asm_rdmsr MSR_IA32_UINTR_MISC e
        in Option.bind (genmask_ull 63 32) (\<lambda>mask.
           let msr64_high = msr64_high AND ucast (drop_bit 32 mask);
               msr64_low = msr64_low OR of_nat (UINTR_MAX_UITT_NR - 1)
           in Some (ctx\<lparr>uitt_activated := True\<rparr>, asm_wrmsr MSR_IA32_UINTR_MISC msr64_low msr64_high e, p))))"

text \<open>Entry \<open>n\<close> of the table, sixteen bytes: valid, vector, six reserved bytes, descriptor.\<close>

definition write_uitte :: "u64 \<Rightarrow> nat \<Rightarrow> u64 \<Rightarrow> u64 \<Rightarrow> mem \<Rightarrow> mem" where
  "write_uitte tab n uvec upid p =
     (let a = virt_to_phys tab + 16 * of_nat n
      in stq_le (store_bytes p a [1, ucast (uvec AND 0xff)]) (a + 8) upid)"

definition do_uintr_register_sender ::
    "u64 \<Rightarrow> u64 \<Rightarrow> u64 \<Rightarrow> uintr_call_state \<Rightarrow> (int \<times> uintr_call_state) option" where
  "do_uintr_register_sender heap uvec upid s =
     (if upid = 0 then Some (- 22, s)
      else case uintr_init_sender heap s of (ctx, e, p) \<Rightarrow>
        Option.bind (uitt ctx) (\<lambda>u.
        case find_first_zero UINTR_MAX_UITT_NR (uitt_mask u) of
          None \<Rightarrow> Some (- 28, ctx, e, p)
        | Some n \<Rightarrow>
            if \<not> n < UINTR_MAX_UITT_NR then None
            else Option.bind (bs_set UINTR_MAX_UITT_NR n (uitt_mask u)) (\<lambda>mask.
              let s1 = (ctx\<lparr>uitt := Some (u\<lparr>uitt_mask := mask\<rparr>)\<rparr>, e, write_uitte (uitt_ptr u) n uvec upid p)
              in map_option (Pair (int n))
                   (if \<not> uitt_activated ctx then uintr_set_sender_msrs s1 else Some s1))))"

definition sys_uintr_register_sender ::
    "u64 \<Rightarrow> u64 \<Rightarrow> u64 \<Rightarrow> uintr_call_state \<Rightarrow> (int \<times> uintr_call_state) option" where
  "sys_uintr_register_sender heap upid_addr uvec s = do_uintr_register_sender heap uvec upid_addr s"

section \<open>Receivers\<close>

abbreviation (input) UINTR_NOTIFICATION_VECTOR :: u8 where "UINTR_NOTIFICATION_VECTOR \<equiv> 0xec"

text \<open>\<open>apic\<close> is the number of the processor's local APIC, the value of \<^verbatim>\<open>get_apic_id()\<close>.\<close>

definition do_uintr_register_handler ::
    "u64 \<Rightarrow> u32 \<Rightarrow> u64 \<Rightarrow> uintr_call_state \<Rightarrow> u64 \<times> uintr_call_state" where
  "do_uintr_register_handler heap apic handler s =
     (case s of (ctx, e, p) \<Rightarrow>
        if upid_activated ctx then (0, s)
        else
          let (upid, p) =
                (case uintr_upid_ctx ctx of
                   None \<Rightarrow> (heap, store_upid p (virt_to_phys heap)
                      \<lparr>upid_status = 0, upid_reserved1 = 0, upid_nv = 0, upid_reserved2 = 0, upid_ndst = 0, upid_puir = 0\<rparr>)
                 | Some a \<Rightarrow> (a, p));
              p = store_bytes p (virt_to_phys upid + 2) [UINTR_NOTIFICATION_VECTOR];
              p = stl_le p (virt_to_phys upid + 4) (push_bit 8 apic);
              e = asm_wrmsr MSR_IA32_UINTR_HANDLER (ucast handler) (ucast (drop_bit 32 handler)) e;
              e = asm_wrmsr MSR_IA32_UINTR_PD (ucast upid) (ucast (drop_bit 32 upid)) e;
              e = asm_wrmsr MSR_IA32_UINTR_STACKADJUST 0 0 e;
              ((misc_low, misc_high), e) = asm_rdmsr MSR_IA32_UINTR_MISC e;
              e = asm_wrmsr MSR_IA32_UINTR_MISC misc_low (misc_high OR ucast UINTR_NOTIFICATION_VECTOR) e
          in (upid, ctx\<lparr>uintr_upid_ctx := Some upid, upid_activated := True\<rparr>, e, p))"

definition sys_uintr_register_handler ::
    "u64 \<Rightarrow> u32 \<Rightarrow> u64 \<Rightarrow> uintr_call_state \<Rightarrow> u64 \<times> uintr_call_state" where
  "sys_uintr_register_handler heap apic handler s =
     (if handler = 0 then (0, s) else do_uintr_register_handler heap apic handler s)"

section \<open>Bit sets as sets\<close>

definition bs_elems :: "nat \<Rightarrow> u64 list \<Rightarrow> nat set" where
  "bs_elems N bs = {i. i < N \<and> i < 64 * length bs \<and> bit (bs ! (i div 64)) (i mod 64)}"

lemma bs_index: "i div 64 < length bs \<longleftrightarrow> i < 64 * length bs" for i :: nat
  by (simp add: div_less_iff_less_mult mult.commute)

lemma bs_test_elems: "bs_test N i bs = (if i < N \<and> i < 64 * length bs then Some (i \<in> bs_elems N bs) else None)"
proof -
  have "w AND push_bit b 1 \<noteq> 0 \<longleftrightarrow> bit w b" if "b < 64" for w :: u64 and b
  proof -
    have "w AND push_bit b 1 = of_bool (bit w b) * push_bit b 1"
      by (rule bit_word_eqI) (auto simp: bit_simps)
    moreover have "push_bit b (1 :: u64) \<noteq> 0" using that by (simp add: push_bit_eq_mult)
    ultimately show ?thesis by auto
  qed
  then show ?thesis by (simp add: bs_test_def bs_elems_def bs_index Let_def)
qed

lemma bs_update:
  assumes "i < N" "i < 64 * length bs" "\<And>b. bit (f (bs ! (i div 64))) b \<longleftrightarrow> (if b = i mod 64 then v else bit (bs ! (i div 64)) b)"
  shows "bs_elems N (bs[i div 64 := f (bs ! (i div 64))]) = (if v then insert i (bs_elems N bs) else bs_elems N bs - {i})"
proof (rule set_eqI)
  fix j
  show "j \<in> bs_elems N (bs[i div 64 := f (bs ! (i div 64))]) \<longleftrightarrow>
      j \<in> (if v then insert i (bs_elems N bs) else bs_elems N bs - {i})"
  proof (cases "j div 64 = i div 64")
    case True
    then have "j mod 64 = i mod 64 \<longleftrightarrow> j = i" by (metis div_mult_mod_eq)
    then show ?thesis using assms True bs_index [of i bs] by (auto simp: bs_elems_def)
  next
    case False
    then show ?thesis by (auto simp: bs_elems_def)
  qed
qed

lemma bs_set_elems:
  assumes "i < N" "i < 64 * length bs"
  shows "\<exists>bs'. bs_set N i bs = Some bs' \<and> length bs' = length bs \<and> bs_elems N bs' = insert i (bs_elems N bs)"
proof -
  have "bit (w OR push_bit (i mod 64) 1) b \<longleftrightarrow> (if b = i mod 64 then True else bit w b)" for w :: u64 and b
    by (auto simp: bit_simps)
  note u = bs_update [OF assms, of "\<lambda>w. w OR push_bit (i mod 64) 1" True, OF this]
  then show ?thesis using assms bs_index [of i bs] by (simp add: bs_set_def Let_def)
qed

lemma bs_clear_elems:
  assumes "i < N" "i < 64 * length bs"
  shows "\<exists>bs'. bs_clear N i bs = Some bs' \<and> length bs' = length bs \<and> bs_elems N bs' = bs_elems N bs - {i}"
proof -
  have "bit (w AND NOT (push_bit (i mod 64) 1)) b \<longleftrightarrow> (if b = i mod 64 then False else bit w b)" for w :: u64 and b
    using bit_imp_le_length [of w b] by (auto simp: bit_simps)
  note u = bs_update [OF assms, of "\<lambda>w. w AND NOT (push_bit (i mod 64) 1)" False, OF this]
  then show ?thesis using assms bs_index [of i bs] by (simp add: bs_clear_def Let_def)
qed

lemma trailing_ones_spec:
  shows "w = - 1 \<longleftrightarrow> trailing_ones w = 64" "trailing_ones w \<le> 64" "j < trailing_ones w \<Longrightarrow> bit w j"
    "trailing_ones w < 64 \<Longrightarrow> \<not> bit w (trailing_ones w)"
proof -
  let ?t = "takeWhile (bit w) [0..<64]"
  show le: "trailing_ones w \<le> 64" using length_takeWhile_le [of "bit w" "[0..<64]"] by (simp add: trailing_ones_def)
  show ones: "bit w j" if "j < trailing_ones w" for j
    using that nth_mem [of j ?t] set_takeWhileD [of "?t ! j" "bit w" "[0..<64]"] takeWhile_nth [of j "bit w" "[0..<64]"] le
    by (simp add: trailing_ones_def)
  show zero: "\<not> bit w (trailing_ones w)" if "trailing_ones w < 64"
    using that nth_length_takeWhile [of "bit w" "[0..<64]"] by (simp add: trailing_ones_def)
  show "w = - 1 \<longleftrightarrow> trailing_ones w = 64"
  proof
    assume "w = - 1"
    then show "trailing_ones w = 64" using zero le by (cases "trailing_ones w < 64") simp_all
  next
    assume "trailing_ones w = 64"
    then show "w = - 1" using ones by (intro bit_word_eqI) simp
  qed
qed

lemma find_zero_from_spec:
  "case find_zero_from N k bs of
     None \<Rightarrow> \<forall>i < 64 * length bs. 64 * k + i < N \<longrightarrow> bit (bs ! (i div 64)) (i mod 64)
   | Some n \<Rightarrow> \<exists>i < 64 * length bs. n = 64 * k + i \<and> n < N \<and> \<not> bit (bs ! (i div 64)) (i mod 64) \<and>
       (\<forall>j < i. bit (bs ! (j div 64)) (j mod 64))"
proof (induction bs arbitrary: k)
  case Nil
  then show ?case by simp
next
  case (Cons w ws)
  note t = trailing_ones_spec [where w = w]
  have low: "bit ((w # ws) ! (i div 64)) (i mod 64) = bit w i" if "i < 64" for i :: nat using that by simp
  have high: "bit ((w # ws) ! ((i + 64) div 64)) ((i + 64) mod 64) = bit (ws ! (i div 64)) (i mod 64)" for i :: nat
  proof -
    have "(i + 64) div 64 = Suc (i div 64)" by simp
    then show ?thesis by (simp only: nth_Cons_Suc mod_add_self2)
  qed
  show ?case
  proof (cases "w \<noteq> - 1 \<and> k * 64 + trailing_ones w < N")
    case True
    then have "trailing_ones w < 64" using t(1,2) by linarith
    then have "trailing_ones w < 64 * length (w # ws) \<and> \<not> bit w (trailing_ones w) \<and>
        (\<forall>j < trailing_ones w. bit w j)" using t(3,4) by simp
    then show ?thesis using True low \<open>trailing_ones w < 64\<close> by (simp add: Let_def mult.commute)
  next
    case False
    then have find: "find_zero_from N k (w # ws) = find_zero_from N (Suc k) ws" by (auto simp: Let_def)
    have w: "bit w i" if "i < 64" "64 * k + i < N" for i
      using False that t(1,3) by (cases "w = - 1") (auto simp: mult.commute)
    note IH = Cons.IH [of "Suc k"]
    show ?thesis
    proof (cases "find_zero_from N (Suc k) ws")
      case None
      have "bit ((w # ws) ! (i div 64)) (i mod 64)" if "i < 64 * length (w # ws)" "64 * k + i < N" for i
      proof (cases "i < 64")
        case True
        then show ?thesis using w that low by simp
      next
        case False
        then obtain j where "i = j + 64" by (metis add.commute le_Suc_ex not_less)
        then show ?thesis using IH None that high [of j] by simp
      qed
      then show ?thesis using find None by simp
    next
      case (Some n)
      then obtain i where i: "i < 64 * length ws" "n = 64 * Suc k + i" "n < N" "\<not> bit (ws ! (i div 64)) (i mod 64)"
        "\<forall>j < i. bit (ws ! (j div 64)) (j mod 64)" using IH by auto
      have "bit ((w # ws) ! (j div 64)) (j mod 64)" if "j < i + 64" for j
      proof (cases "j < 64")
        case True
        then show ?thesis using w [of j] low [of j] i(2,3) by simp
      next
        case False
        then obtain l where "j = l + 64" by (metis add.commute le_Suc_ex not_less)
        then show ?thesis using i(5) that high [of l] by simp
      qed
      then have "\<exists>i < 64 * length (w # ws). n = 64 * k + i \<and> n < N \<and> \<not> bit ((w # ws) ! (i div 64)) (i mod 64) \<and>
          (\<forall>j < i. bit ((w # ws) ! (j div 64)) (j mod 64))"
        using i(1-4) high [of i] by (intro exI [of _ "i + 64"]) simp
      then show ?thesis using find Some by simp
    qed
  qed
qed

text \<open>
  What a client needs of a set of \<open>N\<close> slots: the numbers in use, taking one, and finding one
  that is free.
\<close>

locale slots =
  fixes N :: nat and ok :: "'b \<Rightarrow> bool" and used :: "'b \<Rightarrow> nat set"
    and take_slot :: "nat \<Rightarrow> 'b \<Rightarrow> 'b option" and find_slot :: "'b \<Rightarrow> nat option"
  assumes used_bound: "used b \<subseteq> {..< N}"
    and take_ok: "ok b \<Longrightarrow> i < N \<Longrightarrow> \<exists>b'. take_slot i b = Some b' \<and> ok b' \<and> used b' = insert i (used b)"
    and find_none: "ok b \<Longrightarrow> find_slot b = None \<Longrightarrow> used b = {..< N}"
    and find_some: "ok b \<Longrightarrow> find_slot b = Some i \<Longrightarrow> i < N \<and> i \<notin> used b \<and> {..< i} \<subseteq> used b"
begin

lemma allocate:
  assumes "ok b"
  obtains (full) "find_slot b = None" "used b = {..< N}"
    | (slot) i b' where "find_slot b = Some i" "i < N" "i \<notin> used b" "take_slot i b = Some b'" "ok b'"
        "used b' = insert i (used b)"
  using find_none [OF assms] find_some [OF assms] take_ok [OF assms] by (cases "find_slot b") blast+

lemma find_first:
  assumes "ok b" "used b = {..< k}"
  shows "find_slot b = (if k < N then Some k else None)"
proof (cases "find_slot b")
  case None
  then show ?thesis using find_none [OF assms(1)] assms(2) by simp
next
  case (Some i)
  then have "i < N" "\<not> i < k" "\<forall>j < i. j < k" using find_some [OF assms(1)] assms(2) by auto
  then have "i = k" by (metis linorder_neqE_nat less_irrefl)
  then show ?thesis using Some \<open>i < N\<close> by simp
qed

end

interpretation bits: slots N "\<lambda>bs. N \<le> 64 * length bs" "bs_elems N" "bs_set N" "find_first_zero N" for N
proof unfold_locales
  fix bs :: "u64 list" and i
  show "bs_elems N bs \<subseteq> {..< N}" by (auto simp: bs_elems_def)
  assume ok: "N \<le> 64 * length bs"
  note f = find_zero_from_spec [where N = N and k = 0 and bs = bs]
  show "\<exists>bs'. bs_set N i bs = Some bs' \<and> N \<le> 64 * length bs' \<and> bs_elems N bs' = insert i (bs_elems N bs)" if "i < N"
    using bs_set_elems [OF that, of bs] that ok by auto
  show "bs_elems N bs = {..< N}" if "find_first_zero N bs = None"
    using f that ok by (auto simp: bs_elems_def find_first_zero_def)
  show "i < N \<and> i \<notin> bs_elems N bs \<and> {..< i} \<subseteq> bs_elems N bs" if "find_first_zero N bs = Some i"
    using f that ok by (auto simp: bs_elems_def find_first_zero_def)
qed

section \<open>What the registers hold after a write\<close>

lemma msr_halves: "(ucast (ucast v :: u32) OR push_bit 32 (ucast (ucast (drop_bit 32 v) :: u32)) :: u64) = v"
proof (rule bit_word_eqI)
  fix n assume "n < LENGTH(64)"
  then show "bit (ucast (ucast v :: u32) OR push_bit 32 (ucast (ucast (drop_bit 32 v) :: u32)) :: u64) n = bit v n"
    by (cases "n < 32") (auto simp: bit_simps)
qed

lemma low32_ucast: "low32 (ucast (w :: u32)) = ucast w"
  by (simp add: low32_def)

lemma asm_wrmsr_eq: "\<exists>r. asm_wrmsr n low high e = wrmsr_case n (ucast low OR push_bit 32 (ucast high)) (e\<lparr>regs := r\<rparr>)"
  by (auto simp: asm_wrmsr_def wrmsr_uintr_def set_reg_def low32_ucast ucast_msr)

lemma asm_rdmsr_eq: "\<exists>r. asm_rdmsr n e = ((ucast (rdmsr_case n e), ucast (drop_bit 32 (rdmsr_case n e))), e\<lparr>regs := r\<rparr>)"
proof -
  have "ucast (low32 v) = (ucast v :: u32)" for v by (simp add: low32_def)
  moreover have "rdmsr_case n (e\<lparr>regs := r\<rparr>) = rdmsr_case n e" for r by (simp add: rdmsr_case_def)
  ultimately show ?thesis
    by (auto simp: asm_rdmsr_def rdmsr_uintr_def set_reg_def Let_def ucast_msr)
qed

lemma or_15_ge: "15 \<le> (w OR 15 :: u32)"
  by (rule le_word_or1)

text \<open>Setting the registers of a sender keeps everything but the table and the size of the table.\<close>

lemma set_sender_msrs:
  assumes "uitt ctx = Some u" "uitt_ptr u AND 15 = 0"
  shows "\<exists>r v. uintr_set_sender_msrs (ctx, e, p) =
      Some (ctx\<lparr>uitt_activated := True\<rparr>, e\<lparr>regs := r, uintr_tt := uitt_ptr u OR 1, uintr_misc := v\<rparr>, p) \<and>
    15 \<le> (ucast v :: u32) \<and> drop_bit 32 v = drop_bit 32 (uintr_misc e)"
proof -
  let ?tt = "ucast (ucast (uitt_ptr u) OR 1 :: u32) OR push_bit 32 (ucast (ucast (drop_bit 32 (uitt_ptr u)) :: u32)) :: u64"
  let ?low = "ucast (uintr_misc e) OR 15 :: u32" and ?high = "ucast (drop_bit 32 (uintr_misc e)) :: u32"
  let ?v = "ucast ?low OR push_bit 32 (ucast ?high) :: u64"
  have "?tt = (ucast (ucast (uitt_ptr u) :: u32) OR push_bit 32 (ucast (ucast (drop_bit 32 (uitt_ptr u)) :: u32))) OR 1"
    by (rule bit_word_eqI) (auto simp: bit_simps)
  then have tt: "?tt = uitt_ptr u OR 1" unfolding msr_halves .
  obtain mask where mask: "genmask_ull 63 32 = Some mask" "ucast (drop_bit 32 mask) = (- 1 :: u32)"
    by (simp add: genmask_ull_def mask_eq_exp_minus_1)
  obtain r1 where w1: "asm_wrmsr MSR_IA32_UINTR_TT (ucast (uitt_ptr u) OR 1) (ucast (drop_bit 32 (uitt_ptr u))) e =
      wrmsr_case MSR_IA32_UINTR_TT ?tt (e\<lparr>regs := r1\<rparr>)" using asm_wrmsr_eq by blast
  let ?e1 = "wrmsr_case MSR_IA32_UINTR_TT ?tt (e\<lparr>regs := r1\<rparr>)"
  obtain r2 where w2: "asm_rdmsr MSR_IA32_UINTR_MISC ?e1 = ((ucast (rdmsr_case MSR_IA32_UINTR_MISC ?e1),
      ucast (drop_bit 32 (rdmsr_case MSR_IA32_UINTR_MISC ?e1))), ?e1\<lparr>regs := r2\<rparr>)" using asm_rdmsr_eq by blast
  have misc: "rdmsr_case MSR_IA32_UINTR_MISC ?e1 = uintr_misc e" by (simp add: rdmsr_case_def wrmsr_case_def)
  obtain r3 where w3: "asm_wrmsr MSR_IA32_UINTR_MISC ?low ?high (?e1\<lparr>regs := r2\<rparr>) =
      wrmsr_case MSR_IA32_UINTR_MISC ?v (?e1\<lparr>regs := r2, regs := r3\<rparr>)" using asm_wrmsr_eq by blast
  have "uintr_set_sender_msrs (ctx, e, p) =
      Some (ctx\<lparr>uitt_activated := True\<rparr>, e\<lparr>regs := r3, uintr_tt := uitt_ptr u OR 1, uintr_misc := ?v\<rparr>, p)"
    by (simp add: uintr_set_sender_msrs_def assms(1) w1 w2 misc mask w3 del: push_bit_of_1)
      (simp add: wrmsr_case_def tt)
  moreover have "ucast ?v = ?low" by (rule bit_word_eqI) (auto simp: bit_simps)
  moreover have "drop_bit 32 ?v = drop_bit 32 (uintr_misc e)" by (rule bit_word_eqI) (auto simp: bit_simps dest: bit_imp_le_length)
  ultimately show ?thesis using or_15_ge by metis
qed

section \<open>The table in memory\<close>

lemma uitt_slot:
  assumes "k < 16" "n < 16" "j < 16"
  shows "unat (b + 16 * of_nat k + of_nat j - (b + 16 * of_nat n) :: u64) < 16 \<longleftrightarrow> k = n"
proof -
  have d: "b + 16 * of_nat k + of_nat j - (b + 16 * of_nat n) = of_nat (16 * k + j) - of_nat (16 * n)" by simp
  have u: "unat (of_nat (16 * k + j) :: u64) = 16 * k + j" "unat (of_nat (16 * n) :: u64) = 16 * n"
    using assms by (simp_all only: unat_of_nat) simp_all
  have le: "(of_nat (16 * n) :: u64) \<le> of_nat (16 * k + j) \<longleftrightarrow> 16 * n \<le> 16 * k + j" by (simp only: word_le_nat_alt u)
  show ?thesis unfolding d using assms by (simp only: unat_sub_if' u le) auto
qed

lemma load_uitte_cong:
  assumes "\<And>j. j < 16 \<Longrightarrow> p (a + of_nat j) = q (a + of_nat j)"
  shows "load_uitte p a = load_uitte q a"
proof -
  have "p (a + 8 + of_nat j) = q (a + 8 + of_nat j)" if "j < 8" for j
    using assms [of "8 + j"] that by (simp add: add.assoc)
  then have "load_bytes p (a + 8) 8 = load_bytes q (a + 8) 8" by (simp add: load_bytes_def)
  then show ?thesis using assms [of 0] assms [of 1] by (simp add: load_uitte_def ldq_le_def)
qed

lemma write_uitte_outside:
  assumes "\<not> unat (x - (virt_to_phys tab + 16 * of_nat n)) < 16"
  shows "write_uitte tab n uvec upid p x = p x"
proof -
  define a where "a = virt_to_phys tab + 16 * of_nat n"
  have eq: "x - (a + 8) = x - a - 8" by simp
  have "\<not> unat (x - (a + 8)) < 8" "\<not> unat (x - a) < 2"
    using assms unfolding eq a_def [symmetric] by (simp_all add: unat_sub word_le_nat_alt)
  then show ?thesis by (simp add: write_uitte_def Let_def stq_le_byte store_bytes_def flip: a_def)
qed

lemma ucast_byte: "(ucast (v AND 0xff :: u64) :: u8) = ucast v"
proof -
  have "v AND 0xff = take_bit 8 v" by (simp add: take_bit_eq_mask mask_eq_exp_minus_1)
  then show ?thesis by (simp only:) (rule bit_word_eqI, simp add: bit_simps)
qed

lemma load_write_uitte:
  assumes "k < 16" "n < 16"
  shows "load_uitte (write_uitte tab n uvec upid p) (virt_to_phys tab + 16 * of_nat k) =
    (if k = n then \<lparr>uitte_valid = 1, user_vec = ucast uvec, target_upid_addr = upid\<rparr>
     else load_uitte p (virt_to_phys tab + 16 * of_nat k))"
proof (cases "k = n")
  case True
  let ?a = "virt_to_phys tab + 16 * of_nat n"
  have "stq_le q (?a + 8) v (?a + of_nat j) = q (?a + of_nat j)" if "j < 2" for q v j
  proof -
    have "(of_nat j - 8 :: u64) = of_nat (j + (2 ^ 64 - 8))" by simp
    then have "unat (of_nat j - 8 :: u64) = j + (2 ^ 64 - 8)" using that by (simp only: unat_of_nat) simp
    then show ?thesis using that by (simp add: stq_le_byte)
  qed
  from this [of 0] this [of 1] show ?thesis
    using True by (simp add: load_uitte_def write_uitte_def Let_def store_bytes_def ucast_byte)
next
  case False
  have "write_uitte tab n uvec upid p (virt_to_phys tab + 16 * of_nat k + of_nat j) =
      p (virt_to_phys tab + 16 * of_nat k + of_nat j)" if "j < 16" for j
    by (rule write_uitte_outside) (use uitt_slot [OF assms that, of "virt_to_phys tab"] False in blast)
  then have "load_uitte (write_uitte tab n uvec upid p) (virt_to_phys tab + 16 * of_nat k) =
      load_uitte p (virt_to_phys tab + 16 * of_nat k)" by (rule load_uitte_cong)
  then show ?thesis using False by simp
qed

section \<open>Registering a sender\<close>

text \<open>
  The table of a task as a partial map from indices to vectors and descriptors, and the
  invariant: the table is aligned, and once it has entries the processor's registers name it
  and give its size.
\<close>

definition uitt_used :: "TaskContext \<Rightarrow> nat set" where
  "uitt_used ctx = (case uitt ctx of None \<Rightarrow> {} | Some u \<Rightarrow> bs_elems 16 (uitt_mask u))"

definition sender_table :: "uintr_call_state \<Rightarrow> nat \<rightharpoonup> u8 \<times> u64" where
  "sender_table s n =
     (case s of (ctx, e, p) \<Rightarrow>
        case uitt ctx of
          None \<Rightarrow> None
        | Some u \<Rightarrow>
            let t = load_uitte p (virt_to_phys (uitt_ptr u) + 16 * of_nat n)
            in if n \<in> bs_elems 16 (uitt_mask u) then Some (user_vec t, target_upid_addr t) else None)"

definition sender_ok :: "uintr_call_state \<Rightarrow> bool" where
  "sender_ok s =
     (case s of (ctx, e, p) \<Rightarrow>
        case uitt ctx of
          None \<Rightarrow> \<not> uitt_activated ctx
        | Some u \<Rightarrow> length (uitt_mask u) = 1 \<and> uitt_ptr u AND 15 = 0 \<and>
            (bs_elems 16 (uitt_mask u) \<noteq> {} \<longrightarrow> uitt_activated ctx) \<and>
            (uitt_activated ctx \<longrightarrow> uintr_tt e = uitt_ptr u OR 1 \<and> 15 \<le> (ucast (uintr_misc e) :: u32)))"

lemma dom_sender_table: "dom (sender_table (ctx, e, p)) = uitt_used ctx"
  by (auto simp: sender_table_def uitt_used_def dom_def Let_def split: option.splits if_splits)

lemma init_sender:
  assumes "sender_ok (ctx, e, p)" "heap AND 15 = 0"
  obtains ctx' u p' where "uintr_init_sender heap (ctx, e, p) = (ctx', e, p')" "uitt ctx' = Some u"
    "sender_ok (ctx', e, p')" "sender_table (ctx', e, p') = sender_table (ctx, e, p)"
proof (cases "uitt ctx")
  case None
  have "bs_elems 16 [0] = {}" by (auto simp: bs_elems_def)
  then show ?thesis
    using None assms
      that [of "ctx\<lparr>uitt := Some \<lparr>uitt_ptr = heap, uitt_mask = [0]\<rparr>\<rparr>" "store_bytes p (virt_to_phys heap) (replicate 256 0)"]
    by (simp add: uintr_init_sender_def sender_ok_def sender_table_def bs_new_def Let_def fun_eq_iff)
next
  case (Some u)
  then show ?thesis using assms that by (simp add: uintr_init_sender_def)
qed

lemma add_sender:
  fixes uvec upid :: u64
  assumes "sender_ok (ctx, e, p)" "uitt ctx = Some u" "n < 16" "bs_set 16 n (uitt_mask u) = Some b"
    "length b = 1" "bs_elems 16 b = insert n (bs_elems 16 (uitt_mask u))"
  defines "ctx1 \<equiv> ctx\<lparr>uitt := Some (u\<lparr>uitt_mask := b\<rparr>)\<rparr>" and "p1 \<equiv> write_uitte (uitt_ptr u) n uvec upid p"
  obtains e' where "(if \<not> uitt_activated ctx1 then uintr_set_sender_msrs (ctx1, e, p1) else Some (ctx1, e, p1)) =
      Some (ctx1\<lparr>uitt_activated := True\<rparr>, e', p1)" "sender_ok (ctx1\<lparr>uitt_activated := True\<rparr>, e', p1)"
    "sender_table (ctx1\<lparr>uitt_activated := True\<rparr>, e', p1) = (sender_table (ctx, e, p))(n \<mapsto> (ucast uvec, upid))"
proof -
  have ptr: "uitt_ptr u AND 15 = 0" using assms by (simp add: sender_ok_def)
  have tab: "sender_table (ctx1\<lparr>uitt_activated := True\<rparr>, e', p1) = (sender_table (ctx, e, p))(n \<mapsto> (ucast uvec, upid))" for e'
  proof
    fix k
    have "k \<in> bs_elems 16 b \<Longrightarrow> k < 16" by (simp add: bs_elems_def)
    then show "sender_table (ctx1\<lparr>uitt_activated := True\<rparr>, e', p1) k = ((sender_table (ctx, e, p))(n \<mapsto> (ucast uvec, upid))) k"
      using load_write_uitte [of k n "uitt_ptr u" uvec upid p] assms(2,3,6)
      by (auto simp: sender_table_def ctx1_def p1_def Let_def)
  qed
  show thesis
  proof (cases "uitt_activated ctx")
    case True
    then have "sender_ok (ctx1\<lparr>uitt_activated := True\<rparr>, e, p1)" "ctx1\<lparr>uitt_activated := True\<rparr> = ctx1"
      using assms(1,2,5) by (auto simp: sender_ok_def ctx1_def)
    then show thesis using True that [of e] tab by (simp add: ctx1_def)
  next
    case False
    obtain r v where "uintr_set_sender_msrs (ctx1, e, p1) = Some (ctx1\<lparr>uitt_activated := True\<rparr>,
        e\<lparr>regs := r, uintr_tt := uitt_ptr u OR 1, uintr_misc := v\<rparr>, p1)" "15 \<le> (ucast v :: u32)"
      using set_sender_msrs [of ctx1 "u\<lparr>uitt_mask := b\<rparr>" e p1] ptr by (auto simp: ctx1_def)
    then show thesis using False that tab ptr assms(5) by (simp add: ctx1_def sender_ok_def)
  qed
qed

text \<open>
  C13: Registering a sender. The call returns in every state of the task and keeps its invariant.
  It refuses a null descriptor and a full table with their error codes and without a change of
  the table; otherwise it enters the descriptor and the low byte of the vector at the lowest
  free of the sixteen indices, returns that index, and leaves all other entries as they are.
\<close>

theorem register_sender_refines:
  assumes inv: "sender_ok s" and heap: "heap AND 15 = 0"
  shows "\<exists>r s'. sys_uintr_register_sender heap upid uvec s = Some (r, s') \<and> sender_ok s' \<and>
    (r, sender_table s') =
      (let T = sender_table s; n = LEAST n. n \<notin> dom T
       in if upid = 0 then (- 22, T) else if dom T = {..< 16} then (- 28, T)
          else (int n, T(n \<mapsto> (ucast uvec, upid)))) \<and> dom (sender_table s') \<subseteq> {..< 16}"
proof -
  obtain ctx e p where s: "s = (ctx, e, p)" by (cases s) auto
  have bound: "dom (sender_table t) \<subseteq> {..< 16}" for t
    by (cases t) (auto simp: dom_sender_table uitt_used_def bs_elems_def split: option.splits)
  obtain ctx1 u p1 where i: "uintr_init_sender heap (ctx, e, p) = (ctx1, e, p1)" "uitt ctx1 = Some u"
    "sender_ok (ctx1, e, p1)" "sender_table (ctx1, e, p1) = sender_table (ctx, e, p)"
    using init_sender [OF inv [unfolded s] heap] by metis
  have len: "16 \<le> 64 * length (uitt_mask u)" using i(2,3) by (simp add: sender_ok_def)
  have dom: "dom (sender_table s) = bs_elems 16 (uitt_mask u)"
    using dom_sender_table [of ctx1 e p1] i(2,4) by (simp add: uitt_used_def s)
  show ?thesis
  proof (cases "upid = 0")
    case True
    then show ?thesis using inv bound by (simp add: sys_uintr_register_sender_def do_uintr_register_sender_def Let_def)
  next
    case False
    from len show ?thesis
    proof (cases rule: bits.allocate)
      case full
      then show ?thesis using False i dom bound
        by (simp add: sys_uintr_register_sender_def do_uintr_register_sender_def s Let_def)
    next
      case (slot n b)
      have least: "(LEAST n. n \<notin> dom (sender_table s)) = n"
        using bits.find_some [OF len slot(1)] slot(3) by (intro Least_equality) (auto simp: dom not_less [symmetric])
      have "length b = 1" using bs_set_elems [of n 16 "uitt_mask u"] slot(2,4) len i(2,3) by (simp add: sender_ok_def)
      then obtain e' where a: "(if \<not> uitt_activated (ctx1\<lparr>uitt := Some (u\<lparr>uitt_mask := b\<rparr>)\<rparr>)
            then uintr_set_sender_msrs (ctx1\<lparr>uitt := Some (u\<lparr>uitt_mask := b\<rparr>)\<rparr>, e, write_uitte (uitt_ptr u) n uvec upid p1)
            else Some (ctx1\<lparr>uitt := Some (u\<lparr>uitt_mask := b\<rparr>)\<rparr>, e, write_uitte (uitt_ptr u) n uvec upid p1)) =
          Some (ctx1\<lparr>uitt := Some (u\<lparr>uitt_mask := b\<rparr>), uitt_activated := True\<rparr>, e', write_uitte (uitt_ptr u) n uvec upid p1)"
        "sender_ok (ctx1\<lparr>uitt := Some (u\<lparr>uitt_mask := b\<rparr>), uitt_activated := True\<rparr>, e', write_uitte (uitt_ptr u) n uvec upid p1)"
        "sender_table (ctx1\<lparr>uitt := Some (u\<lparr>uitt_mask := b\<rparr>), uitt_activated := True\<rparr>, e', write_uitte (uitt_ptr u) n uvec upid p1) =
          (sender_table s)(n \<mapsto> (ucast uvec, upid))"
        using add_sender [OF i(3,2) slot(2,4) _ slot(6)] i(4) s by metis
      have "dom (sender_table s) \<noteq> {..< 16}" using dom slot(2,3) by auto
      then show ?thesis
        using a False i(1,2) slot(1,2,4) bound least
        by (simp add: sys_uintr_register_sender_def do_uintr_register_sender_def s Let_def)
    qed
  qed
qed

section \<open>Witnesses\<close>

theorem register_sender_refines_witness:
  "\<exists>s'. sys_uintr_register_sender 0xffffff8000005000 0xffffff8000006000 5 (TaskContext_default, example_env, \<lambda>_. 0) =
     Some (0, s') \<and> sender_table s' = [0 \<mapsto> (5, 0xffffff8000006000)]"
proof -
  let ?s = "(TaskContext_default, example_env, \<lambda>_. 0) :: uintr_call_state"
  have ok: "sender_ok ?s" and empty: "sender_table ?s = Map.empty"
    by (simp_all add: sender_ok_def TaskContext_default_def sender_table_def fun_eq_iff)
  have "(LEAST n :: nat. True) = 0" by (rule Least_equality) simp_all
  moreover have "({} :: nat set) \<noteq> {..< 16}" using lessThan_empty_iff [of "16 :: nat"] by fastforce
  ultimately show ?thesis
    using register_sender_refines [OF ok, of "0xffffff8000005000" "0xffffff8000006000" 5] by (auto simp: empty Let_def)
qed

end
