(* ===== verification/NimbOS_Paging.thy ===== *)
theory NimbOS_Paging
  imports NimbOS_Memory
begin

text \<open>
  What the page tables of NimbOS promise. The tables of an address space form a tree of
  distinct frames; on such trees \<^verbatim>\<open>map\<close>, \<^verbatim>\<open>unmap\<close> and \<^verbatim>\<open>query\<close> are update, removal and lookup of
  a finite map from pages to frames with flags.
\<close>

section \<open>Entries in memory\<close>

abbreviation page :: "u64 \<Rightarrow> bool" where "page t \<equiv> t AND 0xfff = 0"

definition entry :: "mem \<Rightarrow> u64 \<Rightarrow> u64 \<Rightarrow> u64" where "entry p t i = ldq_le p (entry_of t i)"

lemma page_unat:
  assumes "page t"
  shows "unat t = 4096 * (unat t div 4096)" "unat t \<le> 2 ^ 64 - 4096"
proof -
  have "take_bit 12 t = 0" using assms by (simp add: take_bit_eq_mask mask_eq_exp_minus_1)
  then have "take_bit 12 (unat t) = 0" by (metis unsigned_take_bit_eq unsigned_0)
  then have "unat t mod 4096 = 0" by (simp add: take_bit_eq_mod)
  then show *: "unat t = 4096 * (unat t div 4096)" by (metis add_0_right mult_div_mod_eq)
  define q where "q = unat t div 4096"
  have "4096 * q < 18446744073709551616" using unat_bound [of t] * by (simp add: q_def)
  then have "q \<le> 4503599627370495" by simp
  then show "unat t \<le> 2 ^ 64 - 4096" using * by (simp add: q_def)
qed

lemma unat_entry_of:
  assumes "page t" "i < 512"
  shows "unat (entry_of t i) = 8 * (512 * (unat t div 4096) + unat i)"
proof -
  have i: "unat i < 512" using assms(2) by (simp add: word_less_nat_alt)
  then have "unat (8 * i) = 8 * unat i" by (simp add: unat_word_ariths)
  moreover have "unat t + 8 * unat i < 2 ^ 64" using page_unat(2) [OF assms(1)] i by simp
  ultimately have "unat (t + 8 * i) = unat t + 8 * unat i" by (simp add: unat_word_ariths)
  then show ?thesis using page_unat(1) [OF assms(1)] by (simp add: entry_of_def)
qed

lemma apart_quads:
  assumes "unat a = 8 * x" "unat b = 8 * y" "x \<noteq> y"
  shows "apart a 8 b 8"
proof -
  have "8 * x < 18446744073709551616" "8 * y < 18446744073709551616"
    using unat_bound [of a] unat_bound [of b] assms(1,2) by simp_all
  then have "x \<le> 2305843009213693951" "y \<le> 2305843009213693951" by simp_all
  then show ?thesis using assms by (auto simp: apart_def unat_sub_if')
qed

lemma entry_apart:
  assumes "page t" "i < 512" "page t'" "j < 512" "\<not> (t = t' \<and> i = j)"
  shows "apart (entry_of t i) 8 (entry_of t' j) 8"
proof -
  let ?x = "512 * (unat t div 4096) + unat i" and ?y = "512 * (unat t' div 4096) + unat j"
  have ij: "unat i < 512" "unat j < 512" using assms(2,4) by (simp_all add: word_less_nat_alt)
  have "?x \<noteq> ?y"
  proof
    assume eq: "?x = ?y"
    have "unat t div 4096 = ?x div 512" "unat t' div 4096 = ?y div 512"
      "unat i = ?x mod 512" "unat j = ?y mod 512" using ij by simp_all
    then have "unat t div 4096 = unat t' div 4096" "unat i = unat j" using eq by metis+
    then have "unat t = unat t'" "unat i = unat j"
      using page_unat(1) [OF assms(1)] page_unat(1) [OF assms(3)] by simp_all
    then show False using assms(5) by (simp add: word_unat_eq_iff)
  qed
  then show ?thesis using unat_entry_of [OF assms(1,2)] unat_entry_of [OF assms(3,4)] by (rule apart_quads [rotated 2])
qed

lemma entry_stq:
  assumes "page t" "i < 512" "page t'" "j < 512"
  shows "entry (stq_le p (entry_of t i) v) t' j = (if t = t' \<and> i = j then v else entry p t' j)"
  using entry_apart [OF assms] by (auto simp: entry_def ldq_stq_apart)

lemma ldq_zero: "(\<And>k. k < 8 \<Longrightarrow> p (a + of_nat k) = 0) \<Longrightarrow> ldq_le p a = 0"
  by (rule bit_word_eqI) (simp add: ldq_le_def bit_le_word load_bytes_def less_mult_imp_div_less)

lemma page_region:
  assumes "page t" "page f" "x \<in> region t 4096" "x \<in> region f 4096"
  shows "t = f"
proof -
  have "unat t \<le> unat x" "unat x < unat t + 4096" if "page t" "x \<in> region t 4096" for t
    using page_unat(2) [OF that(1)] that(2) unat_bound [of x]
    by (auto simp: region_def unat_sub_if' split: if_splits)
  note bounds = this [OF assms(1,3)] this [OF assms(2,4)]
  have "unat t div 4096 = unat f div 4096"
    using bounds page_unat(1) [OF assms(1)] page_unat(1) [OF assms(2)] by linarith
  then show ?thesis using page_unat(1) [OF assms(1)] page_unat(1) [OF assms(2)] by (simp add: word_unat_eq_iff)
qed

lemma entry_in_page:
  assumes "page t" "j < 512" "k < 8"
  shows "entry_of t j + of_nat k \<in> region t 4096"
proof -
  have j: "unat j < 512" using assms(2) by (simp add: word_less_nat_alt)
  have "entry_of t j + of_nat k - t = of_nat (8 * unat j + k)" by (simp add: entry_of_def)
  then have "unat (entry_of t j + of_nat k - t) = 8 * unat j + k"
    using j assms(3) by (simp only: unat_of_nat) simp
  then show ?thesis using j assms(3) by (simp add: region_def)
qed

lemma entry_zero_page:
  assumes "page t" "page f" "j < 512"
  shows "entry (zero_page f p) t j = (if t = f then 0 else entry p t j)"
proof (cases "t = f")
  case True
  have "zero_page f p (entry_of t j + of_nat k) = 0" if "k < 8" for k
    using entry_in_page [OF assms(1,3) that] True by (simp add: zero_page_def store_bytes_def region_def)
  then show ?thesis using True by (simp add: entry_def ldq_zero)
next
  case False
  have "zero_page f p (entry_of t j + of_nat k) = p (entry_of t j + of_nat k)" if "k < 8" for k
    using entry_in_page [OF assms(1,3) that] page_region [OF assms(1,2)] False
    by (auto simp: zero_page_def store_bytes_def region_def)
  then have "load_bytes (zero_page f p) (entry_of t j) 8 = load_bytes p (entry_of t j) 8"
    by (simp add: load_bytes_def)
  then show ?thesis using False by (simp add: entry_def ldq_le_def)
qed

section \<open>Bits of entries\<close>

definition usable :: "u64 \<Rightarrow> bool" where
  "usable t \<longleftrightarrow> page t \<and> t < push_bit 39 1"

lemma contains_bit: "contains f (push_bit n 1) \<longleftrightarrow> bit f n" if "n < 64" for f :: u64
proof -
  have "f AND push_bit n 1 = (if bit f n then push_bit n 1 else 0)"
    by (rule bit_word_eqI) (auto simp: bit_simps)
  moreover have "push_bit n 1 \<noteq> (0 :: u64)" using that by (simp add: push_bit_eq_0_iff)
  ultimately show ?thesis by (simp add: contains_def)
qed

lemma addr_mask_bit: "bit (0x000ffffffffff000 :: u64) n \<longleftrightarrow> 12 \<le> n \<and> n < 52"
proof -
  have "bit (push_bit 12 (mask 40) :: u64) n \<longleftrightarrow> 12 \<le> n \<and> n < 52" by (auto simp: bit_simps)
  then show ?thesis by (simp add: mask_eq_exp_minus_1)
qed

lemma documented_bits:
  assumes "ptf_documented F"
  shows "is_present F x \<longleftrightarrow> bit x 0" "is_block F x \<longleftrightarrow> bit x 7"
proof -
  have flag: "contains (x AND NOT 0x000ffffffffff000) (push_bit n 1) \<longleftrightarrow> bit x n" if "n < 12" for n
  proof -
    have "n < 64" using that by simp
    from contains_bit [OF this] show ?thesis using that by (simp only: bit_and_iff bit_not_iff addr_mask_bit) simp
  qed
  show "is_present F x \<longleftrightarrow> bit x 0" "is_block F x \<longleftrightarrow> bit x 7"
    using assms flag [of 0] flag [of 7] by (simp_all add: ptf_documented_def is_present_def is_block_def)
qed

lemma usable_bits:
  assumes "usable t" "bit t n"
  shows "12 \<le> n \<and> n < 39"
proof -
  have "t AND mask 12 = 0" using assms(1) by (simp add: usable_def mask_eq_exp_minus_1)
  then have "\<not> bit (t AND mask 12) n" by simp
  then have "12 \<le> n" using assms(2) bit_imp_le_length [OF assms(2)] by (auto simp: bit_and_iff bit_mask_iff)
  moreover have "unat t < 2 ^ 39" using assms(1) by (simp add: usable_def word_less_nat_alt)
  then have "n < 39" using assms(2) by (rule below_bits)
  ultimately show ?thesis by simp
qed

lemma pte_paddr_bit: "bit (pte_paddr x) n \<longleftrightarrow> bit x n \<and> 12 \<le> n \<and> n < 40"
proof -
  have m: "(push_bit 40 1 - 1 :: u64) = mask 40" by (simp add: mask_eq_exp_minus_1)
  show ?thesis
    unfolding pte_paddr_def PhysAddr_new_def m bit_and_iff addr_mask_bit bit_mask_iff by auto
qed

lemma bits_low: "bit (7 :: u64) n \<longleftrightarrow> n < 3"
proof -
  have "bit (mask 3 :: u64) n \<longleftrightarrow> n < 3" by (auto simp: bit_mask_iff)
  then show ?thesis by (simp add: mask_eq_exp_minus_1)
qed

lemma new_table_entry:
  assumes "ptf_documented F" "usable f"
  shows "is_present F (new_table F f)" "\<not> is_block F (new_table F f)" "pte_paddr (new_table F f) = f"
    "new_table F f \<noteq> 0"
proof -
  have "1 OR (2 OR (4 OR y)) = 7 OR y" for y :: u64 by (simp flip: or.assoc)
  then have x: "new_table F f = 7 OR (f AND 0x000ffffffffff000)"
    using assms(1) by (simp add: new_table_def ptf_documented_def)
  have bits: "bit (new_table F f) n \<longleftrightarrow> n < 3 \<or> bit f n" for n
    using usable_bits [OF assms(2)] unfolding x bit_or_iff bit_and_iff addr_mask_bit bits_low by fastforce
  show "is_present F (new_table F f)" using documented_bits(1) [OF assms(1)] bits [of 0] by simp
  then show "new_table F f \<noteq> 0" using documented_bits(1) [OF assms(1)] by auto
  show "\<not> is_block F (new_table F f)"
    using documented_bits(2) [OF assms(1)] bits [of 7] usable_bits [OF assms(2), of 7] by auto
  show "pte_paddr (new_table F f) = f"
    by (rule bit_word_eqI) (use usable_bits [OF assms(2)] in \<open>fastforce simp: pte_paddr_bit bits\<close>)
qed

lemma usable_kvaddr:
  assumes "usable t"
  shows "table_of_mut t = Some t"
proof -
  have "phys_to_virt t = t OR push_bit 39 (mask 25)"
  proof -
    have "t + push_bit 39 (mask 25) = t OR push_bit 39 (mask 25)"
      by (rule disjunctive_add) (auto simp: bit_simps dest: usable_bits [OF assms])
    then show ?thesis by (simp add: phys_to_virt_def mask_eq_exp_minus_1)
  qed
  then have "drop_bit 47 (phys_to_virt t) = mask 17"
    by (intro bit_word_eqI) (auto simp: bit_simps dest: usable_bits [OF assms])
  then show ?thesis by (simp add: table_of_mut_def into_kvaddr_def VirtAddr_new_def mask_eq_exp_minus_1)
qed

section \<open>Frames\<close>

definition free_frames :: "FreeListAllocator \<Rightarrow> u64 set" where
  "free_frames a = set (free_list a) \<union> {v. next_available a \<le> v \<and> v < range_end a}"

definition fl_inv :: "FreeListAllocator \<Rightarrow> bool" where
  "fl_inv a \<longleftrightarrow> range_start a \<le> next_available a \<and> next_available a \<le> range_end a \<and>
     range_end a \<le> push_bit 27 1 \<and> distinct (free_list a) \<and>
     (\<forall>v \<in> set (free_list a). range_start a \<le> v \<and> v < next_available a)"

lemma fl_alloc_none: "fst (fl_alloc a) = None \<longleftrightarrow> free_frames a = {}" if "fl_inv a"
  using that by (auto simp: fl_alloc_def free_frames_def fl_inv_def)

lemma fl_alloc_some:
  assumes "fl_inv a" "fl_alloc a = (Some v, a')"
  shows "v \<in> free_frames a" "fl_inv a'" "free_frames a' = free_frames a - {v}" "v < push_bit 27 1"
proof -
  consider (stack) vs where "free_list a = vs @ [v]" "a' = a\<lparr>free_list := vs\<rparr>"
    | (fresh) "free_list a = []" "v = next_available a" "next_available a < range_end a"
        "a' = a\<lparr>next_available := next_available a + 1\<rparr>"
    using assms(2) by (cases "free_list a" rule: rev_cases) (auto simp: fl_alloc_def not_le split: if_splits)
  then have "v \<in> free_frames a \<and> fl_inv a' \<and> free_frames a' = free_frames a - {v} \<and> v < push_bit 27 1"
  proof cases
    case stack
    then show ?thesis using assms(1) by (auto simp: fl_inv_def free_frames_def)
  next
    case fresh
    have "unat (next_available a) + 1 < 2 ^ 64"
      using fresh(3) unat_bound [of "range_end a"] by (simp add: word_less_nat_alt)
    then have "unat (next_available a + 1) = unat (next_available a) + 1" by (simp add: unat_word_ariths)
    then have up: "next_available a + 1 \<le> w \<longleftrightarrow> next_available a < w"
      and down: "w \<le> next_available a \<Longrightarrow> w \<le> next_available a + 1" for w
      by (auto simp: word_le_nat_alt word_less_nat_alt)
    show ?thesis
      using fresh assms(1) by (auto simp: fl_inv_def free_frames_def up down)
  qed
  then show "v \<in> free_frames a" "fl_inv a'" "free_frames a' = free_frames a - {v}" "v < push_bit 27 1" by auto
qed

lemma fl_dealloc_inv:
  assumes "fl_inv a" "fl_dealloc v a = Some a'"
  shows "fl_inv a'" "free_frames a' = insert v (free_frames a)" "v \<notin> free_frames a"
  using assms by (auto simp: fl_dealloc_def fl_inv_def free_frames_def split: if_splits)

lemma frame_address:
  assumes "v < push_bit 27 1"
  shows "usable (PhysAddr_new (v * 0x1000))" "PhysAddr_new (v * 0x1000) div 0x1000 = v"
proof -
  have v: "unat v < 2 ^ 27" using assms by (simp add: word_less_nat_alt)
  then have u: "unat (v * 0x1000) = unat v * 4096" by (simp add: unat_word_ariths)
  have m: "(push_bit 40 1 - 1 :: u64) = mask 40" by (simp add: mask_eq_exp_minus_1)
  have "take_bit 40 (v * 0x1000) = v * 0x1000"
    using u v by (simp add: word_unat_eq_iff unsigned_take_bit_eq take_bit_nat_eq_self)
  then have p: "PhysAddr_new (v * 0x1000) = v * 0x1000"
    unfolding PhysAddr_new_def m by (simp add: take_bit_eq_mask)
  have "v * 0x1000 = push_bit 12 v" by (simp add: push_bit_eq_mult)
  then have "v * 0x1000 AND mask 12 = 0" by (auto intro!: bit_word_eqI simp: bit_simps)
  then have "v * 0x1000 AND 0xfff = 0" by (simp add: mask_eq_exp_minus_1)
  moreover have "v * 0x1000 < push_bit 39 1" using u v by (simp add: word_less_nat_alt)
  ultimately show "usable (PhysAddr_new (v * 0x1000))" unfolding p usable_def by blast
  show "PhysAddr_new (v * 0x1000) div 0x1000 = v"
    unfolding p by (simp add: word_unat_eq_iff unat_div u)
qed

lemma alloc_zero_cases:
  assumes "fl_inv (frames k)"
  obtains (full) "free_frames (frames k) = {}" "\<exists>k'. alloc_zero k = Some (None, k')"
    | (frame) f a where "alloc_zero k = Some (Some f, k\<lparr>frames := a, ram := zero_page f (ram k)\<rparr>)"
        "usable f" "f div 0x1000 \<in> free_frames (frames k)" "fl_inv a"
        "free_frames a = free_frames (frames k) - {f div 0x1000}"
proof (cases "fl_alloc (frames k)")
  case (Pair r a)
  show thesis
  proof (cases r)
    case None
    then show thesis using Pair fl_alloc_none [OF assms] full by (simp add: alloc_zero_def frame_alloc_def)
  next
    case (Some v)
    note al = fl_alloc_some [OF assms, of v a]
    have a: "fl_alloc (frames k) = (Some v, a)" using Pair Some by simp
    let ?f = "PhysAddr_new (v * 0x1000)"
    note adr = frame_address [OF al(4) [OF a]]
    have "alloc_zero k = Some (Some ?f, k\<lparr>frames := a, ram := zero_page ?f (ram k)\<rparr>)"
      using a usable_kvaddr [OF adr(1)] by (auto simp: alloc_zero_def frame_alloc_def table_of_mut_def)
    then show thesis using frame [of ?f a] adr al [OF a] by simp
  qed
qed

section \<open>The tree of tables\<close>

definition step_table :: "PTF \<Rightarrow> mem \<Rightarrow> u64 \<Rightarrow> u64 \<Rightarrow> u64 option" where
  "step_table F p t i =
     (let x = entry p t i in if is_present F x \<and> \<not> is_block F x then Some (pte_paddr x) else None)"

definition table_at :: "PTF \<Rightarrow> mem \<Rightarrow> u64 \<Rightarrow> u64 list \<Rightarrow> u64 option" where
  "table_at F p r is = foldl (\<lambda>t i. Option.bind t (\<lambda>t. step_table F p t i)) (Some r) is"

lemma table_at_Nil [simp]: "table_at F p r [] = Some r"
  by (simp add: table_at_def)

lemma table_at_snoc: "table_at F p r (is @ [i]) = Option.bind (table_at F p r is) (\<lambda>t. step_table F p t i)"
  by (simp add: table_at_def)

definition idx_path :: "u64 list \<Rightarrow> bool" where
  "idx_path is \<longleftrightarrow> length is \<le> 3 \<and> (\<forall>i \<in> set is. i < 512)"

lemma idx_path_snoc: "idx_path (is @ [i]) \<longleftrightarrow> idx_path is \<and> length is < 3 \<and> i < 512"
  by (auto simp: idx_path_def)

definition tables_ok :: "PTF \<Rightarrow> mem \<Rightarrow> u64 \<Rightarrow> u64 set \<Rightarrow> bool" where
  "tables_ok F p r free \<longleftrightarrow>
     (\<forall>is t. idx_path is \<and> table_at F p r is = Some t \<longrightarrow> usable t \<and> t div 0x1000 \<notin> free) \<and>
     (\<forall>is t i. idx_path is \<and> length is < 3 \<and> table_at F p r is = Some t \<and> i < 512 \<longrightarrow>
        entry p t i = 0 \<or> is_present F (entry p t i) \<and> \<not> is_block F (entry p t i)) \<and>
     (\<forall>is js t. idx_path is \<and> idx_path js \<and> table_at F p r is = Some t \<and> table_at F p r js = Some t \<longrightarrow>
        is = js)"

definition pt_inv :: "PTF \<Rightarrow> pt_state \<Rightarrow> bool" where
  "pt_inv F s \<longleftrightarrow> (case s of (pt, k) \<Rightarrow>
     fl_inv (frames k) \<and> tables_ok F (ram k) (root_paddr pt) (free_frames (frames k)))"

lemma tables_okD:
  assumes "tables_ok F p r free" "idx_path is" "table_at F p r is = Some t"
  shows "usable t" "page t" "t div 0x1000 \<notin> free"
    and "length is < 3 \<Longrightarrow> i < 512 \<Longrightarrow> entry p t i = 0 \<or> is_present F (entry p t i) \<and> \<not> is_block F (entry p t i)"
    and "idx_path js \<Longrightarrow> table_at F p r js = Some t \<Longrightarrow> js = is"
  using assms unfolding tables_ok_def usable_def by blast+

lemma unused_absent: "ptf_documented F \<Longrightarrow> \<not> is_present F 0"
  by (simp add: documented_bits)

lemma tables_ok_step:
  assumes "ptf_documented F" "tables_ok F p r free" "idx_path (is @ [i])" "table_at F p r is = Some t"
  shows "next_table_mut F (entry p t i) = Some (table_at F p r (is @ [i]))"
proof (cases "is_present F (entry p t i)")
  case True
  have i: "idx_path is" "length is < 3" "i < 512" using assms(3) by (simp_all add: idx_path_snoc)
  have x: "\<not> is_block F (entry p t i)"
    using tables_okD(4) [OF assms(2) i(1) assms(4) i(2,3)] True unused_absent [OF assms(1)] by auto
  then have s: "table_at F p r (is @ [i]) = Some (pte_paddr (entry p t i))"
    using True assms(4) by (simp add: table_at_snoc step_table_def)
  then show ?thesis
    using True x usable_kvaddr [OF tables_okD(1) [OF assms(2,3) s]] by (simp add: next_table_mut_def)
next
  case False
  then show ?thesis using assms(4) by (simp add: next_table_mut_def table_at_snoc step_table_def Let_def)
qed

section \<open>Lookup\<close>

definition path_of :: "u64 \<Rightarrow> u64 list" where
  "path_of va = [p4_index va, p3_index va, p2_index va]"

definition lookup :: "PTF \<Rightarrow> mem \<Rightarrow> u64 \<Rightarrow> u64 \<Rightarrow> u64 option" where
  "lookup F p r va =
     (case table_at F p r (path_of va) of
        None \<Rightarrow> None
      | Some t \<Rightarrow> let x = entry p t (p1_index va) in if x = 0 then None else Some x)"

lemma index_bound: "p4_index va < 512" "p3_index va < 512" "p2_index va < 512" "p1_index va < 512"
proof -
  have "x AND (512 - 1) < 512" for x :: u64
  proof -
    have "x AND (512 - 1) \<le> 511" using word_and_le1 [of x 511] by simp
    then show ?thesis by (simp add: word_le_nat_alt word_less_nat_alt)
  qed
  then show "p4_index va < 512" "p3_index va < 512" "p2_index va < 512" "p1_index va < 512"
    by (simp_all only: p4_index_def p3_index_def p2_index_def p1_index_def)
qed

lemma idx_path_prefixes [simp]:
  "idx_path []" "idx_path [p4_index va]" "idx_path [p4_index va, p3_index va]" "idx_path (path_of va)"
  by (simp_all add: idx_path_def path_of_def index_bound)

lemma get_entry_mut_eq:
  assumes "ptf_documented F" "tables_ok F p (root_paddr pt) free"
  shows "get_entry_mut F pt va p =
    Some (map_option (\<lambda>t. entry_of t (p1_index va)) (table_at F p (root_paddr pt) (path_of va)))"
proof -
  let ?T = "table_at F p (root_paddr pt)"
  have follow: "next_table_mut F (ldq_le p (entry_of t i)) = Some (?T (is @ [i]))"
    if "idx_path (is @ [i])" "?T is = Some t" for "is" i t
    using tables_ok_step [OF assms that] by (simp add: entry_def)
  have stop: "?T (is @ js) = None" if "?T is = None" for "is" js
    using that by (induction js rule: rev_induct) (simp_all add: table_at_snoc flip: append_assoc)
  have root: "table_of_mut (root_paddr pt) = Some (root_paddr pt)"
    using tables_okD(1) [OF assms(2), of "[]"] by (simp add: usable_kvaddr)
  note f4 = follow [of "[]" "p4_index va"] and f3 = follow [of "[p4_index va]" "p3_index va"]
    and f2 = follow [of "[p4_index va, p3_index va]" "p2_index va"]
    and s4 = stop [of "[p4_index va]" "[p3_index va, p2_index va]"] and s3 = stop [of "[p4_index va, p3_index va]" "[p2_index va]"]
  show ?thesis
    using f4 f3 f2 s4 s3
    by (cases "?T [p4_index va]"; cases "?T [p4_index va, p3_index va]"; cases "?T (path_of va)")
      (auto simp: get_entry_mut_def root try_bind_def path_of_def idx_path_def index_bound)
qed

lemma pt_query_eq:
  assumes "ptf_documented F" "tables_ok F p (root_paddr pt) free"
  shows "pt_query F pt va p = Some (map_option
    (\<lambda>x. (PhysAddr_new (pte_paddr x + page_offset va 0x1000), pte_flags F x)) (lookup F p (root_paddr pt) va))"
  by (simp add: pt_query_def get_entry_mut_eq [OF assms] lookup_def try_bind_def entry_def is_unused_def Let_def
      split: option.split)

section \<open>A new table\<close>

text \<open>
  Memory \<open>p'\<close> after the unused entry \<open>i\<close> of the table \<open>t\<close> at path \<open>is\<close> was pointed to the free,
  zeroed frame \<open>f\<close>.
\<close>

definition adds_table ::
    "PTF \<Rightarrow> mem \<Rightarrow> u64 \<Rightarrow> u64 set \<Rightarrow> u64 list \<Rightarrow> u64 \<Rightarrow> u64 \<Rightarrow> u64 \<Rightarrow> mem \<Rightarrow> bool" where
  "adds_table F p r free is i t f p' \<longleftrightarrow> ptf_documented F \<and> tables_ok F p r free \<and>
     idx_path (is @ [i]) \<and> table_at F p r is = Some t \<and> entry p t i = 0 \<and> usable f \<and>
     f div 0x1000 \<in> free \<and> p' = stq_le (zero_page f p) (entry_of t i) (new_table F f)"

lemma adds_tableD:
  assumes "adds_table F p r free is i t f p'"
  shows "ptf_documented F" "tables_ok F p r free" "idx_path (is @ [i])" "table_at F p r is = Some t"
    "usable f" "idx_path is" "length is < 3" "i < 512" "page t" "page f"
    and "idx_path js \<Longrightarrow> table_at F p r js = Some t' \<Longrightarrow> t' \<noteq> f"
    and "table_at F p r (is @ [i]) = None"
proof -
  show F: "ptf_documented F" and ok: "tables_ok F p r free" and "idx_path (is @ [i])"
    and t: "table_at F p r is = Some t" and "usable f"
    using assms by (simp_all add: adds_table_def)
  then show idx: "idx_path is" "length is < 3" "i < 512" and "page f" by (simp_all add: idx_path_snoc usable_def)
  show "page t" by (rule tables_okD(2) [OF ok idx(1) t])
  show "t' \<noteq> f" if "idx_path js" "table_at F p r js = Some t'"
    using tables_okD(3) [OF ok that] assms by (auto simp: adds_table_def)
  show "table_at F p r (is @ [i]) = None"
    using assms unused_absent [OF F] by (simp add: adds_table_def table_at_snoc step_table_def)
qed

lemma adds_table_entry:
  assumes "adds_table F p r free is i t f p'" "page t'" "j < 512"
  shows "entry p' t' j = (if t' = t \<and> j = i then new_table F f else if t' = f then 0 else entry p t' j)"
  using assms(2,3) adds_tableD(8-10) [OF assms(1)] adds_tableD(11) [OF assms(1) adds_tableD(6,4) [OF assms(1)]]
    assms(1) by (auto simp: adds_table_def entry_stq entry_zero_page)

lemma adds_table_step:
  assumes "adds_table F p r free is i t f p'" "page t'" "j < 512"
  shows "step_table F p' t' j =
    (if t' = t \<and> j = i then Some f else if t' = f then None else step_table F p t' j)"
  using new_table_entry [OF adds_tableD(1,5) [OF assms(1)]] unused_absent [OF adds_tableD(1) [OF assms(1)]]
  by (auto simp: step_table_def adds_table_entry [OF assms] Let_def)

lemma adds_table_at:
  assumes a: "adds_table F p r free is i t f p'" and "idx_path js"
  shows "table_at F p' r js = (if js = is @ [i] then Some f else table_at F p r js)"
  using assms(2)
proof (induction js rule: rev_induct)
  case (snoc j js)
  note ok = adds_tableD(2) [OF a] and st = adds_table_step [OF a]
  have j: "idx_path js" "j < 512" using snoc.prems by (simp_all add: idx_path_snoc)
  have f: "page f" "t \<noteq> f" using adds_tableD(10) [OF a] adds_tableD(11) [OF a adds_tableD(6,4) [OF a]] by auto
  consider (new) "js = is @ [i]" | (none) "js \<noteq> is @ [i]" "table_at F p r js = None"
    | (old) t' where "js \<noteq> is @ [i]" "table_at F p r js = Some t'" by blast
  then show ?case
  proof cases
    case new
    then have "table_at F p' r js = Some f" "table_at F p r js = None" "js @ [j] \<noteq> is @ [i]"
      using snoc.IH [OF j(1)] adds_tableD(12) [OF a] by simp_all
    then show ?thesis using st [OF f(1) j(2)] f(2) by (simp add: table_at_snoc)
  next
    case none
    then show ?thesis using snoc.IH [OF j(1)] adds_tableD(4) [OF a] by (auto simp: table_at_snoc)
  next
    case old
    note t' = tables_okD(2,5) [OF ok j(1) old(2)] adds_tableD(11) [OF a j(1) old(2)]
    have "t' = t \<longleftrightarrow> js = is" using t'(2) [OF adds_tableD(6) [OF a]] adds_tableD(4) [OF a] old(2) by auto
    then show ?thesis
      using st [OF t'(1) j(2)] t'(3) snoc.IH [OF j(1)] old by (simp add: table_at_snoc)
  qed
qed simp

lemma adds_table_ok:
  assumes a: "adds_table F p r free is i t f p'"
  shows "tables_ok F p' r (free - {f div 0x1000})"
  unfolding tables_ok_def
proof (intro conjI allI impI)
  note ok = adds_tableD(2) [OF a] and T = adds_table_at [OF a] and new = adds_tableD(11) [OF a]
  fix js t' assume b: "idx_path js \<and> table_at F p' r js = Some t'"
  then show "usable t'" using T tables_okD(1) [OF ok] adds_tableD(5) [OF a] by (auto split: if_splits)
  show "t' div 0x1000 \<notin> free - {f div 0x1000}" using b T tables_okD(3) [OF ok] by (auto split: if_splits)
next
  note ok = adds_tableD(2) [OF a] and T = adds_table_at [OF a]
  fix js t' and j :: u64 assume b: "idx_path js \<and> length js < 3 \<and> table_at F p' r js = Some t' \<and> j < 512"
  show "entry p' t' j = 0 \<or> is_present F (entry p' t' j) \<and> \<not> is_block F (entry p' t' j)"
  proof (cases "js = is @ [i]")
    case True
    then have "t' = f" using b T [of js] by simp
    then show ?thesis
      using b adds_table_entry [OF a adds_tableD(10) [OF a], of j] new_table_entry(1,2) [OF adds_tableD(1,5) [OF a]]
      by (auto split: if_splits)
  next
    case False
    then have t': "table_at F p r js = Some t'" using b T [of js] by auto
    have "page t'" using tables_okD(2) [OF ok _ t'] b by blast
    then show ?thesis
      using b tables_okD(4) [OF ok _ t', of j] adds_table_entry [OF a, of t' j]
        new_table_entry(1,2) [OF adds_tableD(1,5) [OF a]] by (auto split: if_splits)
  qed
next
  note T = adds_table_at [OF a] and new = adds_tableD(11) [OF a]
  fix js ks t' assume b: "idx_path js \<and> idx_path ks \<and> table_at F p' r js = Some t' \<and> table_at F p' r ks = Some t'"
  have "l = is @ [i] \<longleftrightarrow> t' = f" if "idx_path l" "table_at F p' r l = Some t'" for l
    using that T [of l] new [of l t'] by (cases "l = is @ [i]") auto
  then have "js = is @ [i] \<longleftrightarrow> t' = f" "ks = is @ [i] \<longleftrightarrow> t' = f" using b by blast+
  moreover have "js = ks" if "js \<noteq> is @ [i]" "ks \<noteq> is @ [i]"
    using tables_okD(5) [OF adds_tableD(2) [OF a], of ks t' js] b T [of js] T [of ks] that by simp
  ultimately show "js = ks" by blast
qed

lemma adds_table_lookup:
  assumes a: "adds_table F p r free is i t f p'"
  shows "lookup F p' r va = lookup F p r va"
proof -
  note T = adds_table_at [OF a, of "path_of va"] and en = adds_table_entry [OF a _ index_bound(4) [of va]]
  have t: "t \<noteq> f" using adds_tableD(11) [OF a adds_tableD(6,4) [OF a]] by auto
  consider (new) "path_of va = is @ [i]" | (none) "path_of va \<noteq> is @ [i]" "table_at F p r (path_of va) = None"
    | (old) t' where "path_of va \<noteq> is @ [i]" "table_at F p r (path_of va) = Some t'" by blast
  then show ?thesis
  proof cases
    case new
    then show ?thesis using T en [OF adds_tableD(10) [OF a]] t adds_tableD(3,12) [OF a] by (simp add: lookup_def)
  next
    case none
    then show ?thesis using T by (simp add: lookup_def)
  next
    case old
    note t' = tables_okD(2,5) [OF adds_tableD(2) [OF a] _ old(2)] adds_tableD(11) [OF a _ old(2)]
    have "length (path_of va) = 3" by (simp add: path_of_def)
    then have "t' \<noteq> t" using t'(2) [OF _ adds_tableD(6) [OF a]] adds_tableD(4,7) [OF a] by auto
    then show ?thesis using old T en [OF t'(1)] t'(3) by (simp add: lookup_def)
  qed
qed

lemma entry_outside:
  assumes "page t" "page g" "t \<noteq> g" "i < 512" "x \<in> region g 4096"
  shows "stq_le p (entry_of t i) v x = p x"
proof (rule stq_outside)
  have False if "x \<in> region (entry_of t i) 8"
  proof -
    have "unat (x - entry_of t i) < 8" using that by (simp add: region_def)
    then have "entry_of t i + of_nat (unat (x - entry_of t i)) \<in> region t 4096"
      using entry_in_page [OF assms(1,4)] by blast
    then have "x \<in> region t 4096" by simp
    then show False using page_region [OF assms(1,2)] assms(3,5) by blast
  qed
  then show "x \<notin> region (entry_of t i) 8" by blast
qed

lemma zero_page_outside: "page f \<Longrightarrow> page g \<Longrightarrow> f \<noteq> g \<Longrightarrow> x \<in> region g 4096 \<Longrightarrow> zero_page f p x = p x"
  using page_region [of f g x] by (auto simp: zero_page_def store_bytes_def region_def)

lemma adds_table_outside:
  assumes "adds_table F p r free is i t f p'" "x \<in> region g 4096" "page g" "g \<noteq> t" "g \<noteq> f"
  shows "p' x = p x"
  using assms adds_tableD(8-10) [OF assms(1)] entry_outside [of t g i x] zero_page_outside [of f g x]
  by (auto simp: adds_table_def)

text \<open>Following or creating the tables on the way to a leaf.\<close>

definition pt_lookup :: "PTF \<Rightarrow> pt_state \<Rightarrow> u64 \<Rightarrow> u64 option" where
  "pt_lookup F s va = lookup F (ram (snd s)) (root_paddr (fst s)) va"

definition table_in :: "PTF \<Rightarrow> pt_state \<Rightarrow> u64 list \<Rightarrow> u64 option" where
  "table_in F s is = table_at F (ram (snd s)) (root_paddr (fst s)) is"

definition free_in :: "pt_state \<Rightarrow> u64 set" where
  "free_in s = free_frames (frames (snd s))"

text \<open>
  A data frame is neither free nor a table; extending the tree keeps the data frames, with
  their contents.
\<close>

definition data_frame :: "PTF \<Rightarrow> pt_state \<Rightarrow> u64 \<Rightarrow> bool" where
  "data_frame F s f \<longleftrightarrow> page f \<and> f div 0x1000 \<notin> free_in s \<and> (\<forall>is. idx_path is \<longrightarrow> table_in F s is \<noteq> Some f)"

definition keeps_data :: "PTF \<Rightarrow> pt_state \<Rightarrow> pt_state \<Rightarrow> bool" where
  "keeps_data F s s' \<longleftrightarrow> (\<forall>f. data_frame F s f \<longrightarrow> data_frame F s' f \<and>
     (\<forall>x \<in> region f 4096. ram (snd s') x = ram (snd s) x))"

definition extends :: "PTF \<Rightarrow> pt_state \<Rightarrow> pt_state \<Rightarrow> nat \<Rightarrow> bool" where
  "extends F s s' n \<longleftrightarrow> pt_inv F s' \<and> root_paddr (fst s') = root_paddr (fst s) \<and>
     pt_lookup F s' = pt_lookup F s \<and> card (free_in s) \<le> card (free_in s') + n \<and>
     free_in s' \<subseteq> free_in s \<and> keeps_data F s s'"

lemma extends_trans: "extends F s s' m \<Longrightarrow> extends F s' s'' n \<Longrightarrow> extends F s s'' (m + n)"
  by (auto simp: extends_def keeps_data_def)

lemma pt_invD:
  assumes "pt_inv F s"
  shows "fl_inv (frames (snd s))" "tables_ok F (ram (snd s)) (root_paddr (fst s)) (free_in s)"
  using assms by (auto simp: pt_inv_def free_in_def split: prod.splits)

lemma next_or_create:
  assumes F: "ptf_documented F" and inv: "pt_inv F s" and i: "idx_path (is @ [i])" and t: "table_in F s is = Some t"
  obtains (full) "next_table_mut_or_create F (entry_of t i) s = None" "free_in s = {}"
    | (table) t' s' where "next_table_mut_or_create F (entry_of t i) s = Some (Some t', s')"
        "extends F s s' 1" "table_in F s' (is @ [i]) = Some t'"
proof (cases "entry (ram (snd s)) t i = 0")
  case False
  note ok = pt_invD(2) [OF inv]
  have idx: "idx_path is" "length is < 3" "i < 512" using i by (simp_all add: idx_path_snoc)
  have x: "is_present F (entry (ram (snd s)) t i) \<and> \<not> is_block F (entry (ram (snd s)) t i)"
    using tables_okD(4) [OF ok idx(1) _ idx(2,3)] t False by (auto simp: table_in_def)
  then have "table_in F s (is @ [i]) = Some (pte_paddr (entry (ram (snd s)) t i))"
    using t by (simp add: table_in_def table_at_snoc step_table_def)
  moreover from this have "next_table_mut_or_create F (entry_of t i) s =
      Some (Some (pte_paddr (entry (ram (snd s)) t i)), s)"
    using tables_ok_step [OF F ok i] t False
    by (simp add: next_table_mut_or_create_def is_unused_def entry_def table_in_def)
  moreover have "extends F s s 1" using inv by (simp add: extends_def keeps_data_def)
  ultimately show thesis by (intro table)
next
  case True
  obtain pt k where s: "s = (pt, k)" by fastforce
  have "fl_inv (frames k)" using pt_invD(1) [OF inv] s by simp
  then show thesis
  proof (cases rule: alloc_zero_cases)
    case full
    then show thesis
      using True that(1) by (auto simp: next_table_mut_or_create_def s is_unused_def entry_def alloc_intrm_table_def free_in_def)
  next
    case (frame f a)
    let ?p' = "stq_le (zero_page f (ram k)) (entry_of t i) (new_table F f)"
    have add: "adds_table F (ram k) (root_paddr pt) (free_in s) is i t f ?p'"
      using F pt_invD(2) [OF inv] i t True frame(2,3) by (simp add: adds_table_def s free_in_def table_in_def)
    let ?s' = "(pt\<lparr>intrm_tables := intrm_tables pt @ [f]\<rparr>, k\<lparr>frames := a, ram := ?p'\<rparr>)"
    have nxt: "next_table_mut_or_create F (entry_of t i) s = Some (Some f, ?s')"
      using True frame(1) usable_kvaddr [OF frame(2)]
      by (simp add: next_table_mut_or_create_def s is_unused_def entry_def alloc_intrm_table_def)
    have c: "card (free_frames (frames k)) \<le> card (free_frames a) + 1"
      using card_Suc_Diff1 [OF finite frame(3)] unfolding frame(5) by linarith
    have kd: "keeps_data F s ?s'"
      unfolding keeps_data_def
    proof (intro allI impI)
      fix g assume g: "data_frame F s g"
      have "data_frame F ?s' g"
        using g frame(3,5) adds_table_at [OF add] by (auto simp: data_frame_def s free_in_def table_in_def)
      moreover have "?p' x = ram k x" if "x \<in> region g 4096" for x
        using that g frame(3) adds_table_outside [OF add, of x g] adds_tableD(4,6) [OF add]
        by (auto simp: data_frame_def s free_in_def table_in_def)
      ultimately show "data_frame F ?s' g \<and> (\<forall>x\<in>region g 4096. ram (snd ?s') x = ram (snd s) x)" by (simp add: s)
    qed
    have ext: "extends F s ?s' 1"
      using c kd adds_table_ok [OF add] adds_table_lookup [OF add] frame(4,5)
      by (auto simp: extends_def pt_inv_def s free_in_def pt_lookup_def)
    have tab: "table_in F ?s' (is @ [i]) = Some f"
      using adds_table_at [OF add i] by (simp add: table_in_def)
    show thesis by (rule that(2) [OF nxt ext tab])
  qed
qed

lemma get_entry_mut_or_create_cases:
  assumes F: "ptf_documented F" and inv: "pt_inv F s"
  obtains (full) "get_entry_mut_or_create F va s = None" "card (free_in s) < 3"
    | (entry) t s' where "get_entry_mut_or_create F va s = Some (Some (entry_of t (p1_index va)), s')"
        "extends F s s' 3" "table_in F s' (path_of va) = Some t"
proof -
  let ?r = "root_paddr (fst s)"
  have root: "table_of_mut ?r = Some ?r" "table_in F s [] = Some ?r"
    using tables_okD(1) [OF pt_invD(2) [OF inv], of "[]"] by (simp_all add: usable_kvaddr table_in_def)
  have idx: "idx_path ([] @ [p4_index va])" "idx_path (([] @ [p4_index va]) @ [p3_index va])"
    "idx_path ((([] @ [p4_index va]) @ [p3_index va]) @ [p2_index va])"
    by (simp_all add: idx_path_def index_bound)
  from F inv idx(1) root(2) show thesis
  proof (cases rule: next_or_create)
    case (table t3 s3)
    note 3 = table and inv3 = extends_def [THEN iffD1, OF table(2), THEN conjunct1]
    from F inv3 idx(2) 3(3) show thesis
    proof (cases rule: next_or_create)
      case (table t2 s2)
      note 2 = table and inv2 = extends_def [THEN iffD1, OF table(2), THEN conjunct1]
      from F inv2 idx(3) 2(3) show thesis
      proof (cases rule: next_or_create)
        case (table t1 s1)
        have "extends F s s1 3" using extends_trans [OF extends_trans [OF 3(2) 2(2)] table(2)] by (simp add: numeral_3_eq_3)
        then show thesis
          using entry [of t1 s1] 3(1) 2(1) table(1,3) root by (simp add: get_entry_mut_or_create_def try_state_def path_of_def)
      qed (use full root 3 2 in \<open>auto simp: get_entry_mut_or_create_def try_state_def extends_def\<close>)
    qed (use full root 3 in \<open>auto simp: get_entry_mut_or_create_def try_state_def extends_def\<close>)
  qed (use full root in \<open>auto simp: get_entry_mut_or_create_def try_state_def\<close>)
qed

section \<open>Writing a leaf entry\<close>

definition writes_leaf :: "PTF \<Rightarrow> mem \<Rightarrow> u64 \<Rightarrow> u64 set \<Rightarrow> u64 \<Rightarrow> u64 \<Rightarrow> u64 \<Rightarrow> mem \<Rightarrow> bool" where
  "writes_leaf F p r free va t v p' \<longleftrightarrow> tables_ok F p r free \<and> table_at F p r (path_of va) = Some t \<and>
     p' = stq_le p (entry_of t (p1_index va)) v"

lemma writes_leaf_entry:
  assumes "writes_leaf F p r free va t v p'" "page t'" "j < 512"
  shows "entry p' t' j = (if t' = t \<and> j = p1_index va then v else entry p t' j)"
proof -
  have "page t" using assms(1) tables_okD(2) [of F p r free "path_of va" t] by (simp add: writes_leaf_def)
  then show ?thesis using assms index_bound(4) [of va] by (auto simp: writes_leaf_def entry_stq)
qed

lemma writes_leaf_at:
  assumes w: "writes_leaf F p r free va t v p'" and "idx_path js"
  shows "table_at F p' r js = table_at F p r js"
  using assms(2)
proof (induction js rule: rev_induct)
  case (snoc j js)
  have ok: "tables_ok F p r free" "table_at F p r (path_of va) = Some t" using w by (simp_all add: writes_leaf_def)
  have j: "idx_path js" "j < 512" "length js < 3" using snoc.prems by (simp_all add: idx_path_snoc)
  show ?case
  proof (cases "table_at F p r js")
    case (Some t')
    have "length (path_of va) = 3" by (simp add: path_of_def)
    then have "t' \<noteq> t" using tables_okD(5) [OF ok(1) j(1) Some, of "path_of va"] ok(2) j(3) by auto
    then show ?thesis
      using snoc.IH [OF j(1)] Some writes_leaf_entry [OF w tables_okD(2) [OF ok(1) j(1) Some] j(2)]
      by (simp add: table_at_snoc step_table_def)
  qed (use snoc.IH [OF j(1)] in \<open>simp add: table_at_snoc\<close>)
qed simp

lemma writes_leaf_ok:
  assumes w: "writes_leaf F p r free va t v p'"
  shows "tables_ok F p' r free"
  unfolding tables_ok_def
proof (intro conjI allI impI)
  have ok: "tables_ok F p r free" and leaf: "table_at F p r (path_of va) = Some t" using w by (simp_all add: writes_leaf_def)
  note T = writes_leaf_at [OF w]
  show "usable t'" "t' div 0x1000 \<notin> free" if "idx_path js \<and> table_at F p' r js = Some t'" for js t'
    using that T [of js] tables_okD(1,3) [OF ok, of js t'] by simp_all
  show "js = ks" if "idx_path js \<and> idx_path ks \<and> table_at F p' r js = Some t' \<and> table_at F p' r ks = Some t'" for js ks t'
    using that T [of js] T [of ks] tables_okD(5) [OF ok, of ks t' js] by simp
  fix js t' and j :: u64
  assume b: "idx_path js \<and> length js < 3 \<and> table_at F p' r js = Some t' \<and> j < 512"
  then have t': "table_at F p r js = Some t'" using T [of js] by simp
  have "length (path_of va) = 3" by (simp add: path_of_def)
  then have "t' \<noteq> t" using tables_okD(5) [OF ok _ t', of "path_of va"] leaf b by auto
  then show "entry p' t' j = 0 \<or> is_present F (entry p' t' j) \<and> \<not> is_block F (entry p' t' j)"
    using b tables_okD(4) [OF ok _ t', of j] writes_leaf_entry [OF w tables_okD(2) [OF ok _ t'], of j] by simp
qed

lemma writes_leaf_lookup:
  assumes w: "writes_leaf F p r free va t v p'"
  shows "lookup F p' r va' =
    (if path_of va' = path_of va \<and> p1_index va' = p1_index va then if v = 0 then None else Some v
     else lookup F p r va')"
proof (cases "table_at F p r (path_of va')")
  case None
  then show ?thesis using w writes_leaf_at [OF w, of "path_of va'"] by (auto simp: lookup_def writes_leaf_def)
next
  case (Some t')
  have ok: "tables_ok F p r free" and leaf: "table_at F p r (path_of va) = Some t" using w by (simp_all add: writes_leaf_def)
  have "t' = t \<longleftrightarrow> path_of va' = path_of va"
    using tables_okD(5) [OF ok _ Some, of "path_of va"] leaf Some by auto
  then show ?thesis
    using Some writes_leaf_at [OF w, of "path_of va'"]
      writes_leaf_entry [OF w tables_okD(2) [OF ok _ Some] index_bound(4) [of va']] by (auto simp: lookup_def Let_def)
qed

section \<open>Pages and flags\<close>

definition same_page :: "u64 \<Rightarrow> u64 \<Rightarrow> bool" where
  "same_page va va' \<longleftrightarrow> align_down va 0x1000 = align_down va' 0x1000"

lemma index_bits:
  "bit (p4_index va) n \<longleftrightarrow> n < 9 \<and> bit va (39 + n)" "bit (p3_index va) n \<longleftrightarrow> n < 9 \<and> bit va (30 + n)"
  "bit (p2_index va) n \<longleftrightarrow> n < 9 \<and> bit va (21 + n)" "bit (p1_index va) n \<longleftrightarrow> n < 9 \<and> bit va (12 + n)"
proof -
  have m: "(512 - 1 :: u64) = mask 9" by (simp add: mask_eq_exp_minus_1)
  show "bit (p4_index va) n \<longleftrightarrow> n < 9 \<and> bit va (39 + n)" "bit (p3_index va) n \<longleftrightarrow> n < 9 \<and> bit va (30 + n)"
    "bit (p2_index va) n \<longleftrightarrow> n < 9 \<and> bit va (21 + n)" "bit (p1_index va) n \<longleftrightarrow> n < 9 \<and> bit va (12 + n)"
    unfolding p4_index_def p3_index_def p2_index_def p1_index_def m bit_and_iff bit_mask_iff bit_drop_bit_eq by auto
qed

lemma low12: "(0x1000 - 1 :: u64) = mask 12"
  by (simp add: mask_eq_exp_minus_1)

lemma align_down_bit: "bit (align_down va 0x1000) n \<longleftrightarrow> 12 \<le> n \<and> bit va n"
  unfolding align_down_def low12 bit_and_iff bit_not_iff bit_mask_iff
  using bit_imp_le_length [of va n] by auto

lemma canonical_high:
  assumes "VirtAddr_new va = Some va" "47 \<le> n" "n < 64"
  shows "bit va n \<longleftrightarrow> bit va 47"
proof -
  have "drop_bit 47 va = 0 \<or> drop_bit 47 va = mask 17"
    using assms(1) by (auto simp: VirtAddr_new_def Let_def mask_eq_exp_minus_1 split: if_splits)
  then have "bit (drop_bit 47 va) k \<longleftrightarrow> bit (drop_bit 47 va) 0" if "k < 17" for k
    using that by (auto simp: bit_mask_iff)
  from this [of "n - 47"] show ?thesis using assms(2,3) by (simp add: bit_drop_bit_eq)
qed

lemma same_page_path:
  assumes "VirtAddr_new va = Some va" "VirtAddr_new va' = Some va'"
  shows "path_of va' = path_of va \<and> p1_index va' = p1_index va \<longleftrightarrow> same_page va va'"
proof
  assume eq: "path_of va' = path_of va \<and> p1_index va' = p1_index va"
  then have ix: "p4_index va' = p4_index va" "p3_index va' = p3_index va" "p2_index va' = p2_index va"
    "p1_index va' = p1_index va" by (simp_all add: path_of_def)
  have b: "bit va' (39 + m) = bit va (39 + m)" "bit va' (30 + m) = bit va (30 + m)"
    "bit va' (21 + m) = bit va (21 + m)" "bit va' (12 + m) = bit va (12 + m)" if "m < 9" for m
    using that ix index_bits [of va m] index_bits [of va' m] by simp_all
  have *: "bit va' n = bit va n" if "12 \<le> n" "n < 48" for n
  proof -
    consider "39 \<le> n" | "30 \<le> n" "n < 39" | "21 \<le> n" "n < 30" | "n < 21" by linarith
    then show ?thesis
      using that b(1) [of "n - 39"] b(2) [of "n - 30"] b(3) [of "n - 21"] b(4) [of "n - 12"] by cases simp_all
  qed
  have "bit va' n = bit va n" if "12 \<le> n" "n < 64" for n
    using that * [of n] * [of 47] canonical_high [OF assms(1), of n] canonical_high [OF assms(2), of n]
    by (cases "n < 48") simp_all
  then show "same_page va va'"
    unfolding same_page_def by (intro bit_word_eqI) (auto simp: align_down_bit)
next
  assume "same_page va va'"
  then have "bit va' n = bit va n" if "12 \<le> n" for n
    using that align_down_bit unfolding same_page_def by metis
  then show "path_of va' = path_of va \<and> p1_index va' = p1_index va"
    unfolding path_of_def by (auto intro!: bit_word_eqI simp: index_bits)
qed

lemma flag_bit:
  assumes "n < 12 \<or> 52 \<le> n \<and> n < 64"
  shows "contains (x AND NOT 0x000ffffffffff000) (push_bit n 1) \<longleftrightarrow> bit x n"
proof -
  have "n < 64" using assms by auto
  from contains_bit [OF this] show ?thesis using assms by (simp only: bit_and_iff bit_not_iff addr_mask_bit) auto
qed

lemma flags_bit: "contains fl 2 \<longleftrightarrow> bit fl 1" "contains fl 4 \<longleftrightarrow> bit fl 2"
    "contains fl 8 \<longleftrightarrow> bit fl 3" "contains fl 16 \<longleftrightarrow> bit fl 4"
  using contains_bit [of 1 fl] contains_bit [of 2 fl] contains_bit [of 3 fl] contains_bit [of 4 fl] by simp_all

lemma single_bits: "bit (1 :: u64) n \<longleftrightarrow> n = 0" "bit (2 :: u64) n \<longleftrightarrow> n = 1" "bit (4 :: u64) n \<longleftrightarrow> n = 2"
    "bit (8 :: u64) n \<longleftrightarrow> n = 3" "bit (16 :: u64) n \<longleftrightarrow> n = 4" "bit (push_bit 63 1 :: u64) n \<longleftrightarrow> n = 63"
proof -
  have *: "bit (push_bit k 1 :: u64) n \<longleftrightarrow> n = k" if "k < 64" for k using that by (auto simp: bit_simps)
  show "bit (1 :: u64) n \<longleftrightarrow> n = 0" "bit (2 :: u64) n \<longleftrightarrow> n = 1" "bit (4 :: u64) n \<longleftrightarrow> n = 2"
    "bit (8 :: u64) n \<longleftrightarrow> n = 3" "bit (16 :: u64) n \<longleftrightarrow> n = 4" "bit (push_bit 63 1 :: u64) n \<longleftrightarrow> n = 63"
    using * [of 0] * [of 1] * [of 2] * [of 3] * [of 4] * [of 63] by simp_all
qed

lemma new_page_bit:
  assumes "ptf_documented F" "fl \<noteq> 0"
  shows "bit (new_page F a fl False) n \<longleftrightarrow>
    n = 0 \<or> n = 1 \<and> bit fl 1 \<or> n = 63 \<and> \<not> bit fl 2 \<or> n = 2 \<and> bit fl 3 \<or> (n = 3 \<or> n = 4) \<and> bit fl 4 \<or>
    bit a n \<and> 12 \<le> n \<and> n < 52"
proof -
  have F: "PRESENT F = 1" "WRITABLE F = 2" "USER_ACCESSIBLE F = 4" "WRITE_THROUGH F = 8" "NO_CACHE F = 16"
    "NO_EXECUTE F = push_bit 63 1" using assms(1) unfolding ptf_documented_def by simp_all
  have c: "bit (if b then x else (0 :: u64)) n \<longleftrightarrow> b \<and> bit x n" for b x by simp
  show ?thesis
    unfolding new_page_def PTF_from_def F if_not_P [OF assms(2)] flags_bit bit_or_iff c bit_and_iff addr_mask_bit
      single_bits by (auto simp: c single_bits)
qed

lemma new_page_entry:
  assumes F: "ptf_documented F" and fl: "fl \<noteq> 0" "fl AND 31 = fl" and pa: "pa < push_bit 40 1"
    and x: "x = new_page F (align_down pa 0x1000) fl False"
  shows "x \<noteq> 0" "pte_paddr x = align_down pa 0x1000" "pte_flags F x = fl OR 1"
proof -
  note b = new_page_bit [OF F fl(1), of "align_down pa 0x1000", folded x]
  have "unat pa < 2 ^ 40" using pa by (simp add: word_less_nat_alt)
  then have pb: "bit pa n \<Longrightarrow> n < 40" for n by (rule below_bits)
  show "x \<noteq> 0" using b [of 0] by auto
  show "pte_paddr x = align_down pa 0x1000"
    by (rule bit_word_eqI) (auto simp: pte_paddr_bit b align_down_bit dest: pb)
  have ne: "x AND NOT 0x000ffffffffff000 \<noteq> 0"
    using flag_bit [of 0 x] b [of 0] by (auto simp: contains_def)
  have "(31 :: u64) = mask 5" by (simp add: mask_eq_exp_minus_1)
  then have fb: "bit fl n \<Longrightarrow> n < 5" for n using fl(2) by (metis bit_and_iff bit_mask_iff)
  have "pte_flags F x = (1 OR (if bit fl 1 then 2 else 0) OR (if bit fl 2 then 4 else 0)
      OR (if bit fl 3 then 8 else 0) OR (if bit fl 4 then 16 else 0))"
    using F ne flag_bit [of 1 x] flag_bit [of 63 x] flag_bit [of 2 x] flag_bit [of 4 x]
      b [of 1] b [of 63] b [of 2] b [of 4]
    by (simp add: pte_flags_def MemFlags_from_def ptf_documented_def align_down_bit)
  also have "\<dots> = fl OR 1"
  proof (rule bit_word_eqI)
    fix n assume "n < LENGTH(64)"
    have c: "bit (if b then y else (0 :: u64)) n \<longleftrightarrow> b \<and> bit y n" for b y by simp
    have "bit fl n \<longleftrightarrow> n = 0 \<and> bit fl 0 \<or> n = 1 \<and> bit fl 1 \<or> n = 2 \<and> bit fl 2 \<or> n = 3 \<and> bit fl 3 \<or> n = 4 \<and> bit fl 4"
      using fb [of n] by (auto simp: numeral_eq_Suc less_Suc_eq)
    then show "bit ((1 :: u64) OR (if bit fl 1 then 2 else 0) OR (if bit fl 2 then 4 else 0)
      OR (if bit fl 3 then 8 else 0) OR (if bit fl 4 then 16 else 0)) n = bit (fl OR 1) n"
      unfolding bit_or_iff c single_bits by blast
  qed
  finally show "pte_flags F x = fl OR 1" .
qed

end
