(* ===== verification/NimbOS_Page_Map.thy ===== *)
theory NimbOS_Page_Map
  imports NimbOS_Paging
begin

text \<open>
  The operations of a NimbOS page table as those of a map from pages to frames with flags, and
  what follows for a whole area that is mapped page by page.
\<close>

section \<open>Maps that can fail\<close>

text \<open>Several updates in a row, up to the first that fails.\<close>

primrec run_updates :: "('k \<Rightarrow> 'v \<Rightarrow> 's \<Rightarrow> 's option) \<Rightarrow> ('k \<times> 'v) list \<Rightarrow> 's \<Rightarrow> 's option" where
  "run_updates upd [] s = Some s"
| "run_updates upd (b # bs) s = Option.bind (upd (fst b) (snd b) s) (run_updates upd bs)"

text \<open>
  A store of bindings with partial operations. Keys come in classes (\<open>same\<close>), the pages of the
  addresses; a value is stored in the form \<open>norm\<close> gives it, and \<open>room\<close> bounds the number of
  updates that can still be done.
\<close>

locale page_store =
  fixes update :: "'k \<Rightarrow> 'v \<Rightarrow> 's \<Rightarrow> 's option" and delete :: "'k \<Rightarrow> 's \<Rightarrow> 's option"
    and find :: "'s \<Rightarrow> 'k \<Rightarrow> 'w option" and inv :: "'s \<Rightarrow> bool" and room :: "'s \<Rightarrow> nat"
    and key :: "'k \<Rightarrow> bool" and val :: "'v \<Rightarrow> bool" and same :: "'k \<Rightarrow> 'k \<Rightarrow> bool" and norm :: "'v \<Rightarrow> 'w"
  assumes same_refl: "same k k" and same_sym: "same k l \<Longrightarrow> same l k"
    and same_trans: "same k l \<Longrightarrow> same l n \<Longrightarrow> same k n"
    and find_cong: "key k \<Longrightarrow> key l \<Longrightarrow> same k l \<Longrightarrow> find s l = find s k"
    and update: "inv s \<Longrightarrow> key k \<Longrightarrow> val v \<Longrightarrow> update k v s = Some s' \<Longrightarrow>
      find s k = None \<and> inv s' \<and> room s \<le> room s' + 3 \<and>
      (\<forall>l. key l \<longrightarrow> find s' l = (if same k l then Some (norm v) else find s l))"
    and updatable: "inv s \<Longrightarrow> key k \<Longrightarrow> val v \<Longrightarrow> find s k = None \<Longrightarrow> 3 \<le> room s \<Longrightarrow> update k v s \<noteq> None"
    and delete: "inv s \<Longrightarrow> key k \<Longrightarrow> delete k s = Some s' \<Longrightarrow>
      find s k \<noteq> None \<and> inv s' \<and> (\<forall>l. key l \<longrightarrow> find s' l = (if same k l then None else find s l))"
    and deletable: "inv s \<Longrightarrow> key k \<Longrightarrow> find s k \<noteq> None \<Longrightarrow> delete k s \<noteq> None"
begin

lemma update_delete:
  assumes "inv s" "key k" "val v" "update k v s = Some s1"
  shows "\<exists>s2. delete k s1 = Some s2 \<and> inv s2 \<and> (\<forall>l. key l \<longrightarrow> find s2 l = find s l)"
proof -
  have s1: "inv s1" "find s1 k \<noteq> None" using update [OF assms] assms(2) same_refl by auto
  then obtain s2 where s2: "delete k s1 = Some s2" using deletable assms(2) by blast
  have "find s l = None" if "key l" "same k l" for l
    using find_cong [OF assms(2) that, of s] update [OF assms] by simp
  then show ?thesis using update [OF assms] delete [OF s1(1) assms(2) s2] s2 by auto
qed

lemma run_updates_find:
  assumes "inv s" "\<forall>b \<in> set bs. key (fst b) \<and> val (snd b)" "run_updates update bs s = Some s'"
  shows "inv s' \<and> (\<forall>b \<in> set bs. find s (fst b) = None) \<and>
    (\<forall>l. key l \<longrightarrow> find s' l =
      (case List.find (\<lambda>b. same (fst b) l) bs of None \<Rightarrow> find s l | Some b \<Rightarrow> Some (norm (snd b))))"
  using assms
proof (induction bs arbitrary: s)
  case (Cons b bs)
  obtain s1 where s1: "update (fst b) (snd b) s = Some s1" "run_updates update bs s1 = Some s'"
    using Cons.prems(3) by (auto simp: bind_eq_Some_conv)
  have b: "key (fst b)" "val (snd b)" using Cons.prems(2) by simp_all
  note u = update [OF Cons.prems(1) b s1(1)]
  have IH: "inv s'" "\<forall>c \<in> set bs. find s1 (fst c) = None"
    "\<And>l. key l \<Longrightarrow> find s' l =
      (case List.find (\<lambda>b. same (fst b) l) bs of None \<Rightarrow> find s1 l | Some b \<Rightarrow> Some (norm (snd b)))"
    using Cons.IH [OF _ _ s1(2)] u Cons.prems(2) by auto
  have s1c: "find s1 (fst c) = (if same (fst b) (fst c) then Some (norm (snd b)) else find s (fst c))"
    if "c \<in> set bs" for c
    using that u Cons.prems(2) by simp
  have other: "\<not> same (fst b) (fst c)" if "c \<in> set bs" for c
    using IH(2) s1c that by (auto split: if_splits)
  have "List.find (\<lambda>c. same (fst c) l) bs = None" if "same (fst b) l" for l
    using that other same_sym same_trans unfolding find_None_iff by blast
  then have "find s' l = (case List.find (\<lambda>b. same (fst b) l) (b # bs) of
      None \<Rightarrow> find s l | Some b \<Rightarrow> Some (norm (snd b)))" if "key l" for l
    using that IH(3) u by (auto split: option.split)
  moreover have "find s (fst c) = None" if "c \<in> set bs" for c
    using that IH(2) s1c [OF that] other [OF that] by simp
  ultimately show ?case using IH(1) u by simp
qed simp

lemma run_updates_returns:
  assumes "inv s" "\<forall>b \<in> set bs. key (fst b) \<and> val (snd b) \<and> find s (fst b) = None" "3 * length bs \<le> room s"
    and "\<forall>i < length bs. \<forall>j < length bs. same (fst (bs ! i)) (fst (bs ! j)) \<longrightarrow> i = j"
  shows "run_updates update bs s \<noteq> None"
  using assms
proof (induction bs arbitrary: s)
  case (Cons b bs)
  have b: "key (fst b)" "val (snd b)" "find s (fst b) = None" "3 \<le> room s" using Cons.prems(2,3) by auto
  then obtain s1 where s1: "update (fst b) (snd b) s = Some s1" using updatable Cons.prems(1) by blast
  note u = update [OF Cons.prems(1) b(1,2) s1]
  have "\<not> same (fst b) (fst c)" if c: "c \<in> set bs" for c
  proof
    assume "same (fst b) (fst c)"
    moreover obtain j where "j < length bs" "c = bs ! j" using c by (auto simp: in_set_conv_nth)
    ultimately show False using Cons.prems(4) [rule_format, of 0 "Suc j"] by simp
  qed
  then have "\<forall>c \<in> set bs. key (fst c) \<and> val (snd c) \<and> find s1 (fst c) = None" using u Cons.prems(2) by auto
  moreover have "\<forall>i < length bs. \<forall>j < length bs. same (fst (bs ! i)) (fst (bs ! j)) \<longrightarrow> i = j"
  proof (intro allI impI)
    fix i j assume "i < length bs" "j < length bs" "same (fst (bs ! i)) (fst (bs ! j))"
    then show "i = j" using Cons.prems(4) [rule_format, of "Suc i" "Suc j"] by simp
  qed
  moreover have "inv s1" "3 * length bs \<le> room s1" using u Cons.prems(3) by auto
  ultimately have "run_updates update bs s1 \<noteq> None" by (intro Cons.IH)
  then show ?case using s1 by simp
qed simp

end

section \<open>Page tables are such a map\<close>

definition pt_find :: "PTF \<Rightarrow> pt_state \<Rightarrow> u64 \<Rightarrow> (u64 \<times> u64) option" where
  "pt_find F s va = map_option (\<lambda>x. (pte_paddr x, pte_flags F x)) (pt_lookup F s va)"

definition is_virt :: "u64 \<Rightarrow> bool" where "is_virt va \<longleftrightarrow> VirtAddr_new va = Some va"

definition binding_ok :: "u64 \<times> u64 \<Rightarrow> bool" where
  "binding_ok b \<longleftrightarrow> fst b < push_bit 40 1 \<and> snd b \<noteq> 0 \<and> snd b AND 31 = snd b"

definition stored :: "u64 \<times> u64 \<Rightarrow> u64 \<times> u64" where
  "stored b = (align_down (fst b) 0x1000, snd b OR 1)"

lemma pt_inv_leaf:
  assumes "pt_inv F (pt, k)" "table_in F (pt, k) (path_of va) = Some t"
    and "p' = stq_le (ram k) (entry_of t (p1_index va)) v"
  shows "pt_inv F (pt, k\<lparr>ram := p'\<rparr>)" "is_virt va \<Longrightarrow> is_virt va' \<Longrightarrow> pt_lookup F (pt, k\<lparr>ram := p'\<rparr>) va' =
      (if same_page va va' then if v = 0 then None else Some v else pt_lookup F (pt, k) va')"
proof -
  have w: "writes_leaf F (ram k) (root_paddr pt) (free_in (pt, k)) va t v p'"
    using assms pt_invD(2) [OF assms(1)] by (simp add: writes_leaf_def table_in_def)
  then show "pt_inv F (pt, k\<lparr>ram := p'\<rparr>)"
    using writes_leaf_ok [OF w] assms(1) by (simp add: pt_inv_def free_in_def)
  show "pt_lookup F (pt, k\<lparr>ram := p'\<rparr>) va' =
      (if same_page va va' then if v = 0 then None else Some v else pt_lookup F (pt, k) va')"
    if "is_virt va" "is_virt va'"
    using writes_leaf_lookup [OF w, of va'] same_page_path [of va va'] that
    by (simp add: pt_lookup_def is_virt_def)
qed

lemma pt_lookup_entry:
  assumes "table_in F s (path_of va) = Some t"
  shows "ldq_le (ram (snd s)) (entry_of t (p1_index va)) = 0 \<longleftrightarrow> pt_lookup F s va = None"
  using assms by (simp add: pt_lookup_def lookup_def table_in_def entry_def Let_def)

lemma pt_map_Some:
  assumes F: "ptf_documented F" and inv: "pt_inv F s" and va: "is_virt va" and b: "binding_ok (pa, fl)"
    and m: "pt_map F va pa fl s = Some s'"
  shows "pt_lookup F s va = None" "pt_inv F s'" "card (free_in s) \<le> card (free_in s') + 3"
    and "is_virt va' \<Longrightarrow> pt_find F s' va' = (if same_page va va' then Some (stored (pa, fl)) else pt_find F s va')"
proof -
  let ?x = "new_page F (align_down pa 0x1000) fl False"
  from F inv obtain t k pt where e: "get_entry_mut_or_create F va s = Some (Some (entry_of t (p1_index va)), pt, k)"
    "extends F s (pt, k) 3" "table_in F (pt, k) (path_of va) = Some t"
    using m by (cases rule: get_entry_mut_or_create_cases [of F s va]) (auto simp: pt_map_def)
  then have s': "s' = (pt, k\<lparr>ram := stq_le (ram k) (entry_of t (p1_index va)) ?x\<rparr>)"
    and unused: "ldq_le (ram k) (entry_of t (p1_index va)) = 0"
    using m by (auto simp: pt_map_def is_unused_def split: if_splits)
  have ext: "pt_inv F (pt, k)" "pt_lookup F (pt, k) = pt_lookup F s" "card (free_in s) \<le> card (free_in (pt, k)) + 3"
    using e(2) by (simp_all add: extends_def)
  show "pt_lookup F s va = None" using pt_lookup_entry [OF e(3)] unused ext(2) by simp
  show "pt_inv F s'" unfolding s' by (rule pt_inv_leaf(1) [OF ext(1) e(3) refl])
  show "card (free_in s) \<le> card (free_in s') + 3" using ext(3) by (simp add: s' free_in_def)
  show "pt_find F s' va' = (if same_page va va' then Some (stored (pa, fl)) else pt_find F s va')" if "is_virt va'"
    using pt_inv_leaf(2) [OF ext(1) e(3) refl va that, of ?x] new_page_entry [OF F, of fl pa ?x] b ext(2)
    by (simp add: pt_find_def s' stored_def binding_ok_def)
qed

lemma pt_map_returns:
  assumes F: "ptf_documented F" and inv: "pt_inv F s" and "pt_lookup F s va = None" "3 \<le> card (free_in s)"
  shows "pt_map F va pa fl s \<noteq> None"
  using F inv
proof (cases rule: get_entry_mut_or_create_cases [of F s va])
  case (entry t s')
  then have "pt_lookup F s' va = None" using assms(3) by (simp add: extends_def)
  then show ?thesis
    using entry pt_lookup_entry [OF entry(3)] by (auto simp: pt_map_def is_unused_def split: prod.split)
qed (use assms(4) in simp)

lemma pt_unmap_Some:
  assumes F: "ptf_documented F" and inv: "pt_inv F s" and va: "is_virt va" and u: "pt_unmap F va s = Some s'"
  shows "pt_lookup F s va \<noteq> None" "pt_inv F s'"
    and "is_virt va' \<Longrightarrow> pt_find F s' va' = (if same_page va va' then None else pt_find F s va')"
proof -
  obtain pt k where s: "s = (pt, k)" by fastforce
  obtain t where t: "table_in F s (path_of va) = Some t"
    and s': "s' = (pt, k\<lparr>ram := stq_le (ram k) (entry_of t (p1_index va)) 0\<rparr>)"
    and used: "ldq_le (ram k) (entry_of t (p1_index va)) \<noteq> 0"
    using u get_entry_mut_eq [OF F pt_invD(2) [OF inv], of va]
    by (auto simp: pt_unmap_def s table_in_def is_unused_def split: option.splits if_splits)
  show "pt_lookup F s va \<noteq> None" using pt_lookup_entry [OF t] used s by simp
  show "pt_inv F s'" unfolding s' using pt_inv_leaf(1) inv t s by blast
  show "pt_find F s' va' = (if same_page va va' then None else pt_find F s va')" if "is_virt va'"
    using pt_inv_leaf(2) [OF _ _ refl va that, of F pt k t 0] inv t by (simp add: pt_find_def s s')
qed

lemma pt_unmap_returns:
  assumes F: "ptf_documented F" and inv: "pt_inv F s" and "pt_lookup F s va \<noteq> None"
  shows "pt_unmap F va s \<noteq> None"
proof -
  obtain pt k where s: "s = (pt, k)" by fastforce
  obtain t where t: "table_in F s (path_of va) = Some t"
    using assms(3) by (auto simp: pt_lookup_def lookup_def table_in_def split: option.splits)
  then show ?thesis
    using get_entry_mut_eq [OF F pt_invD(2) [OF inv], of va] pt_lookup_entry [OF t] assms(3)
    by (simp add: pt_unmap_def s table_in_def is_unused_def)
qed

lemma pt_find_cong: "is_virt va \<Longrightarrow> is_virt l \<Longrightarrow> same_page va l \<Longrightarrow> pt_find F s l = pt_find F s va"
  using same_page_path [of va l] by (simp add: is_virt_def pt_find_def pt_lookup_def lookup_def cong: option.case_cong)

interpretation pages: page_store "\<lambda>va b. pt_map F va (fst b) (snd b)" "pt_unmap F" "pt_find F"
    "\<lambda>s. ptf_documented F \<and> pt_inv F s" "\<lambda>s. card (free_in s)" is_virt binding_ok same_page stored for F
proof unfold_locales
  show "pt_find F s va = None \<and> (ptf_documented F \<and> pt_inv F s') \<and> card (free_in s) \<le> card (free_in s') + 3 \<and>
      (\<forall>l. is_virt l \<longrightarrow> pt_find F s' l = (if same_page va l then Some (stored b) else pt_find F s l))"
    if "ptf_documented F \<and> pt_inv F s" "is_virt va" "binding_ok b" "pt_map F va (fst b) (snd b) s = Some s'" for s va b s'
    using that pt_map_Some [of F s va "fst b" "snd b" s'] by (simp add: pt_find_def)
  show "pt_map F va (fst b) (snd b) s \<noteq> None"
    if "ptf_documented F \<and> pt_inv F s" "pt_find F s va = None" "3 \<le> card (free_in s)" for s va b
    using that pt_map_returns [of F s va] by (simp add: pt_find_def)
  show "pt_find F s va \<noteq> None \<and> (ptf_documented F \<and> pt_inv F s') \<and>
      (\<forall>l. is_virt l \<longrightarrow> pt_find F s' l = (if same_page va l then None else pt_find F s l))"
    if "ptf_documented F \<and> pt_inv F s" "is_virt va" "pt_unmap F va s = Some s'" for s va s'
    using that pt_unmap_Some [of F s va s'] by (simp add: pt_find_def)
  show "pt_unmap F va s \<noteq> None" if "ptf_documented F \<and> pt_inv F s" "pt_find F s va \<noteq> None" for s va
    using that pt_unmap_returns [of F s va] by (simp add: pt_find_def)
  show "pt_find F s l = pt_find F s va" if "is_virt va" "is_virt l" "same_page va l" for s va l
    using that by (rule pt_find_cong)
qed (simp_all add: same_page_def)

section \<open>Queries\<close>

abbreviation query_in :: "PTF \<Rightarrow> pt_state \<Rightarrow> u64 \<Rightarrow> (u64 \<times> u64) option option" where
  "query_in F s va \<equiv> pt_query F (fst s) va (ram (snd s))"

lemma query_find:
  assumes "ptf_documented F" "pt_inv F s"
  shows "query_in F s va =
    Some (map_option (\<lambda>(pa, fl). (PhysAddr_new (pa + page_offset va 0x1000), fl)) (pt_find F s va))"
  using pt_query_eq [OF assms(1) pt_invD(2) [OF assms(2)], of va]
  by (simp add: pt_find_def pt_lookup_def option.map_comp comp_def)

lemma page_offset_bit: "bit (page_offset va 0x1000) n \<longleftrightarrow> n < 12 \<and> bit va n"
  unfolding page_offset_def low12 bit_and_iff bit_mask_iff using bit_imp_le_length [of va n] by auto

lemma align_add_offset: "align_down a 0x1000 + page_offset b 0x1000 = align_down a 0x1000 OR page_offset b 0x1000"
  by (rule disjunctive_add) (auto simp: align_down_bit page_offset_bit)

lemma PhysAddr_new_id: "x < push_bit 40 1 \<Longrightarrow> PhysAddr_new x = x"
proof -
  assume "x < push_bit 40 1"
  then have "unat x < 2 ^ 40" by (simp add: word_less_nat_alt)
  then have t: "take_bit 40 x = x" by (simp add: word_unat_eq_iff unsigned_take_bit_eq take_bit_nat_eq_self)
  have m: "(push_bit 40 1 - 1 :: u64) = mask 40" by (simp add: mask_eq_exp_minus_1)
  show ?thesis using t unfolding PhysAddr_new_def m by (simp add: take_bit_eq_mask)
qed

lemma stored_address:
  assumes "pa < push_bit 40 1"
  shows "PhysAddr_new (align_down pa 0x1000 + page_offset va 0x1000) = align_down pa 0x1000 + page_offset va 0x1000"
proof (rule PhysAddr_new_id)
  have "unat pa < 2 ^ 40" using assms by (simp add: word_less_nat_alt)
  note pb = below_bits [OF this]
  have "unat (align_down pa 0x1000 OR page_offset va 0x1000) < 2 ^ 40"
    by (rule bits_below) (auto simp: bit_or_iff align_down_bit page_offset_bit dest: pb)
  then show "align_down pa 0x1000 + page_offset va 0x1000 < push_bit 40 1"
    unfolding align_add_offset by (simp add: word_less_nat_alt)
qed

lemma query_stored:
  assumes "ptf_documented F" "pt_inv F s" "pt_find F s va = Some (stored (pa, fl))" "pa < push_bit 40 1"
  shows "query_in F s va = Some (Some (align_down pa 0x1000 + page_offset va 0x1000, fl OR 1))"
  using stored_address [OF assms(4), of va] by (simp add: query_find [OF assms(1,2)] assms(3) stored_def)

section \<open>A new table\<close>

lemma pt_new_inv:
  assumes F: "ptf_documented F" and fl: "fl_inv (frames k)" and n: "pt_new k = Some s"
  shows "pt_inv F s" "pt_find F s va = None" "card (free_frames (frames k)) = card (free_in s) + 1"
proof -
  obtain f a where a: "alloc_zero k = Some (Some f, k\<lparr>frames := a, ram := zero_page f (ram k)\<rparr>)" "usable f"
    "f div 0x1000 \<in> free_frames (frames k)" "fl_inv a" "free_frames a = free_frames (frames k) - {f div 0x1000}"
    using n by (cases rule: alloc_zero_cases [OF fl]) (auto simp: pt_new_def)
  let ?p = "zero_page f (ram k)"
  have s: "s = (\<lparr>root_paddr = f, intrm_tables = [f]\<rparr>, k\<lparr>frames := a, ram := ?p\<rparr>)" using n a(1) by (simp add: pt_new_def)
  have "page f" using a(2) by (simp add: usable_def)
  then have e: "entry ?p f j = 0" if "j < 512" for j using that by (simp add: entry_zero_page)
  have T: "is = [] \<and> t = f" if "idx_path is" "table_at F ?p f is = Some t" for "is" t
    using that
  proof (induction "is" arbitrary: t rule: rev_induct)
    case (snoc i "is")
    then obtain t' where "table_at F ?p f is = Some t'" "step_table F ?p t' i = Some t" "idx_path is" "i < 512"
      by (auto simp: table_at_snoc idx_path_snoc bind_eq_Some_conv)
    then show ?case using snoc.IH [of t'] e unused_absent [OF F] by (simp add: step_table_def)
  qed simp
  have "tables_ok F ?p f (free_frames a)"
    unfolding tables_ok_def using T e a(2,5) by (auto dest!: T)
  then show "pt_inv F s" using a(4) by (simp add: pt_inv_def s)
  have "path_of va \<noteq> []" by (simp add: path_of_def)
  then have "table_at F ?p f (path_of va) = None"
    using T [of "path_of va"] by (cases "table_at F ?p f (path_of va)") auto
  then show "pt_find F s va = None" by (simp add: pt_find_def pt_lookup_def lookup_def s)
  show "card (free_frames (frames k)) = card (free_in s) + 1"
    using card_Suc_Diff1 [OF finite a(3)] a(5) by (simp add: s free_in_def)
qed

text \<open>An allocator of the frames \<^verbatim>\<open>0x100\<close> to \<^verbatim>\<open>0x110\<close>, and the flags of the processor.\<close>

definition x86_ptf :: PTF where
  "x86_ptf = \<lparr>PRESENT = 1, WRITABLE = 2, USER_ACCESSIBLE = 4, WRITE_THROUGH = 8,
     NO_CACHE = 16, HUGE_PAGE = 128, NO_EXECUTE = push_bit 63 1, ALL_FLAGS = NOT 0x000ffffffffff000\<rparr>"

definition example_kmem :: kmem where
  "example_kmem = \<lparr>ram = (\<lambda>_. 0x55), frames = fl_init 0x100 0x110 fl_empty\<rparr>"

lemma x86_documented: "ptf_documented x86_ptf"
  by (simp add: ptf_documented_def x86_ptf_def)

lemma example_frames: "fl_inv (frames example_kmem)" "card (free_frames (frames example_kmem)) = 16"
proof -
  show "fl_inv (frames example_kmem)" by (simp add: example_kmem_def fl_inv_def fl_init_def fl_empty_def)
  have "free_frames (frames example_kmem) = {v. unat v \<in> {0x100..<0x110}}"
    by (auto simp: example_kmem_def free_frames_def fl_init_def fl_empty_def word_le_nat_alt word_less_nat_alt)
  also have "\<dots> = of_nat ` {0x100..<0x110}"
  proof (intro equalityI subsetI)
    fix v :: u64 assume "v \<in> {v. unat v \<in> {0x100..<0x110}}"
    then show "v \<in> of_nat ` {0x100..<0x110}" by (intro image_eqI [of _ _ "unat v"]) simp_all
  qed (auto simp: unat_of_nat)
  finally have "free_frames (frames example_kmem) = of_nat ` {0x100..<0x110}" .
  moreover have "inj_on (of_nat :: nat \<Rightarrow> u64) {0x100..<0x110}"
    by (rule inj_onI) (auto simp: word_unat_eq_iff unat_of_nat)
  ultimately show "card (free_frames (frames example_kmem)) = 16" by (simp add: card_image)
qed

lemma example_table:
  obtains s where "pt_new example_kmem = Some s" "pt_inv x86_ptf s" "card (free_in s) = 15"
    "\<forall>va. pt_find x86_ptf s va = None"
proof -
  have "pt_new example_kmem \<noteq> None"
    using example_frames(2) by (cases rule: alloc_zero_cases [OF example_frames(1)]) (auto simp: pt_new_def)
  then obtain s where "pt_new example_kmem = Some s" by blast
  then show thesis using that pt_new_inv [OF x86_documented example_frames(1)] example_frames(2) by auto
qed

section \<open>Properties\<close>

lemma query_same:
  assumes "ptf_documented F" "pt_inv F s" "pt_inv F s'" "pt_find F s' va = pt_find F s va"
  shows "query_in F s' va = query_in F s va"
  using assms by (simp add: query_find)

lemma query_None: "ptf_documented F \<Longrightarrow> pt_inv F s \<Longrightarrow> query_in F s va = Some None \<longleftrightarrow> pt_find F s va = None"
  by (simp add: query_find)

text \<open>
  C9: Mapping a page. In a well-formed page table \<^verbatim>\<open>map\<close> of an unmapped page returns when three
  frames are free for tables on the way. When it returns, the page was unmapped, the table is
  well-formed, every address of the page is translated to the frame with the same offset and
  the flags asked for (a mapped page is always readable), and no other address is translated
  differently.
\<close>

theorem page_table_map:
  assumes F: "ptf_documented F" and inv: "pt_inv F s" and va: "is_virt va"
    and b: "pa < push_bit 40 1" "fl \<noteq> 0" "fl AND 31 = fl"
  shows "(query_in F s va = Some None \<and> 3 \<le> card (free_in s) \<longrightarrow> pt_map F va pa fl s \<noteq> None) \<and>
    (\<forall>s'. pt_map F va pa fl s = Some s' \<longrightarrow> query_in F s va = Some None \<and> pt_inv F s' \<and>
       (\<forall>va'. is_virt va' \<longrightarrow> query_in F s' va' =
          (if same_page va va' then Some (Some (align_down pa 0x1000 + page_offset va' 0x1000, fl OR 1))
           else query_in F s va')))"
proof (intro conjI allI impI)
  have I: "ptf_documented F \<and> pt_inv F s" and B: "binding_ok (pa, fl)" using F inv b by (simp_all add: binding_ok_def)
  show "pt_map F va pa fl s \<noteq> None" if "query_in F s va = Some None \<and> 3 \<le> card (free_in s)"
    using pages.updatable [OF I va B] that query_None [OF F inv] by simp
  fix s' assume m: "pt_map F va pa fl s = Some s'"
  note u = pages.update [OF I va B, of s', simplified, OF m]
  show "query_in F s va = Some None" "pt_inv F s'" using u query_None [OF F inv] by simp_all
  fix va' assume va': "is_virt va'"
  show "query_in F s' va' = (if same_page va va' then Some (Some (align_down pa 0x1000 + page_offset va' 0x1000, fl OR 1))
      else query_in F s va')"
  proof (cases "same_page va va'")
    case True
    then show ?thesis using u va' query_stored [OF F _ _ b(1), of s' va' fl] by simp
  next
    case False
    then show ?thesis using u va' query_same [OF F inv, of s' va'] by simp
  qed
qed

text \<open>
  C11: Unmapping a page. In a well-formed page table \<^verbatim>\<open>unmap\<close> returns exactly for mapped pages,
  removes the translation of every address of the page and of no other, and a map followed by
  an unmap of the same page gives the translations there were before.
\<close>

theorem page_table_unmap:
  assumes F: "ptf_documented F" and inv: "pt_inv F s" and va: "is_virt va"
  shows "(pt_unmap F va s \<noteq> None \<longleftrightarrow> query_in F s va \<noteq> Some None) \<and>
    (\<forall>s'. pt_unmap F va s = Some s' \<longrightarrow> pt_inv F s' \<and>
       (\<forall>va'. is_virt va' \<longrightarrow> query_in F s' va' = (if same_page va va' then Some None else query_in F s va'))) \<and>
    (\<forall>pa fl s1. pa < push_bit 40 1 \<and> fl \<noteq> 0 \<and> fl AND 31 = fl \<and> pt_map F va pa fl s = Some s1 \<longrightarrow>
       (\<exists>s2. pt_unmap F va s1 = Some s2 \<and> (\<forall>va'. is_virt va' \<longrightarrow> query_in F s2 va' = query_in F s va')))"
proof (intro conjI allI impI)
  have I: "ptf_documented F \<and> pt_inv F s" using F inv by simp
  note d = pages.delete [OF I va]
  show "pt_unmap F va s \<noteq> None \<longleftrightarrow> query_in F s va \<noteq> Some None"
    using pages.deletable [OF I va] d query_None [OF F inv] by auto
  show "pt_inv F s'" if "pt_unmap F va s = Some s'" for s' using d [OF that] by simp
  show "query_in F s' va' = (if same_page va va' then Some None else query_in F s va')"
    if "pt_unmap F va s = Some s'" "is_virt va'" for s' va'
    using d [OF that(1)] that(2) query_None [OF F, of s'] query_same [OF F inv, of s' va'] by simp
  fix pa fl s1 assume m: "pa < push_bit 40 1 \<and> fl \<noteq> 0 \<and> fl AND 31 = fl \<and> pt_map F va pa fl s = Some s1"
  then have B: "binding_ok (pa, fl)" and m1: "pt_map F va (fst (pa, fl)) (snd (pa, fl)) s = Some s1"
    by (simp_all add: binding_ok_def)
  obtain s2 where "pt_unmap F va s1 = Some s2" "pt_inv F s2" "\<forall>l. is_virt l \<longrightarrow> pt_find F s2 l = pt_find F s l"
    using pages.update_delete [OF I va B m1] by blast
  then show "\<exists>s2. pt_unmap F va s1 = Some s2 \<and> (\<forall>va'. is_virt va' \<longrightarrow> query_in F s2 va' = query_in F s va')"
    using query_same [OF F inv] by blast
qed

section \<open>Witnesses\<close>

lemma example_virt: "is_virt 0x401000" "is_virt 0x401234" "is_virt 0x402000"
  by (simp_all add: is_virt_def VirtAddr_new_def)

lemma example_pages: "same_page 0x401000 0x401234" "\<not> same_page 0x401000 0x402000"
  by (simp_all add: same_page_def align_down_def)

theorem page_table_map_witness:
  "\<exists>s s'. pt_new example_kmem = Some s \<and> pt_map x86_ptf 0x401000 0x9000 11 s = Some s' \<and>
     query_in x86_ptf s' 0x401234 = Some (Some (0x9234, 11)) \<and> query_in x86_ptf s' 0x402000 = Some None"
proof -
  obtain s where s: "pt_new example_kmem = Some s" "pt_inv x86_ptf s" "card (free_in s) = 15"
    "\<forall>va. pt_find x86_ptf s va = None" by (rule example_table)
  note m = page_table_map [OF x86_documented s(2) example_virt(1), of "0x9000" 11]
  have free: "query_in x86_ptf s va = Some None" for va using query_None [OF x86_documented s(2)] s(4) by simp
  then obtain s' where s': "pt_map x86_ptf 0x401000 0x9000 11 s = Some s'" using m s(3) by auto
  have "query_in x86_ptf s' 0x401234 = Some (Some (0x9234, 11))" "query_in x86_ptf s' 0x402000 = Some None"
    using m s' example_pages example_virt free by (simp_all add: align_down_def page_offset_def)
  then show ?thesis using s(1) s' by blast
qed

theorem page_table_unmap_witness:
  "\<exists>s s1 s2. pt_new example_kmem = Some s \<and> pt_map x86_ptf 0x401000 0x9000 11 s = Some s1 \<and>
     pt_unmap x86_ptf 0x401000 s1 = Some s2 \<and> query_in x86_ptf s2 0x401234 = Some None"
proof -
  obtain s where s: "pt_new example_kmem = Some s" "pt_inv x86_ptf s" "card (free_in s) = 15"
    "\<forall>va. pt_find x86_ptf s va = None" by (rule example_table)
  have free: "query_in x86_ptf s va = Some None" for va using query_None [OF x86_documented s(2)] s(4) by simp
  obtain s1 where s1: "pt_map x86_ptf 0x401000 0x9000 11 s = Some s1"
    using pt_map_returns [OF x86_documented s(2)] s(3,4) by (fastforce simp: pt_find_def)
  note u = page_table_unmap [OF x86_documented s(2) example_virt(1), THEN conjunct2, THEN conjunct2, rule_format,
      of "0x9000" 11 s1]
  obtain s2 where "pt_unmap x86_ptf 0x401000 s1 = Some s2"
    "\<forall>va. is_virt va \<longrightarrow> query_in x86_ptf s2 va = query_in x86_ptf s va"
    using u s1 by auto
  moreover from this have "query_in x86_ptf s2 0x401234 = Some None" using free example_virt(2) by simp
  ultimately show ?thesis using s(1) s1 by blast
qed

end
