(* ===== verification/NimbOS_Areas.thy ===== *)
theory NimbOS_Areas
  imports NimbOS_Page_Map
begin

text \<open>
  Areas of an address space (\<^verbatim>\<open>mm/memory_set.rs\<close>): what mapping all pages of an area gives, for
  areas at a fixed offset from physical memory, as the kernel's own, and for areas with frames
  of their own, as those of user programs.
\<close>

section \<open>Areas at a fixed offset\<close>

definition offset_pages :: "u64 \<Rightarrow> u64 \<Rightarrow> u64 \<Rightarrow> nat \<Rightarrow> (u64 \<times> u64 \<times> u64) list" where
  "offset_pages va off fl n =
     map (\<lambda>i. (va + 0x1000 * of_nat i, PhysAddr_new (va + 0x1000 * of_nat i - off), fl)) [0..<n]"

lemma offset_pages_Suc:
  "offset_pages va off fl (Suc n) = (va, PhysAddr_new (va - off), fl) # offset_pages (va + 0x1000) off fl n"
  by (simp add: offset_pages_def upt_conv_Cons map_Suc_upt [symmetric] comp_def algebra_simps del: upt_Suc)

lemma page_iff: "page t \<longleftrightarrow> unat t mod 4096 = 0"
proof -
  have "page t \<longleftrightarrow> take_bit 12 t = 0" by (simp add: take_bit_eq_mask mask_eq_exp_minus_1)
  also have "\<dots> \<longleftrightarrow> take_bit 12 (unat t) = 0" by (simp add: word_unat_eq_iff unsigned_take_bit_eq)
  finally show ?thesis by (simp add: take_bit_eq_mod)
qed

lemma page_add: "page va \<Longrightarrow> page (va + 0x1000)"
proof -
  assume "page va"
  moreover have "unat (va + 0x1000) mod 4096 = (unat va + 4096) mod 4096"
    by (simp add: unat_word_ariths mod_mod_cancel)
  ultimately show ?thesis unfolding page_iff by simp
qed

lemma map_area_offset_run:
  assumes "mapper area = Offset off" "page va" "unat va + 4096 * n = unat en"
    and "\<forall>i < n. is_virt (va + 0x1000 * of_nat i)"
  shows "map_area_from F va en area s = map_option (Pair area)
    (run_updates (\<lambda>k b. pt_map F k (fst b) (snd b)) (offset_pages va off (area_flags area) n) s)"
  using assms(2-)
proof (induction n arbitrary: va s)
  case 0
  then have "va = en" by (simp add: word_unat_eq_iff)
  then show ?case by (simp add: map_area_from.simps [of F en] offset_pages_def)
next
  case (Suc n)
  have lt: "va < en" using Suc.prems(2) by (simp add: word_less_nat_alt)
  have "unat va + 4096 < 2 ^ 64 \<or> n = 0 \<and> unat va + 4096 = unat en"
    using Suc.prems(2) unat_bound [of en] by auto
  then have step: "unat (va + 0x1000) = unat va + 4096"
    using unat_bound [of en] Suc.prems(2) by (simp add: unat_word_ariths)
  have v: "VirtAddr_new va = Some va" using Suc.prems(3) by (auto simp: is_virt_def)
  have "is_virt (va + 0x1000 + 0x1000 * of_nat i)" if "i < n" for i
    using Suc.prems(3) [rule_format, of "Suc i"] that by (simp add: algebra_simps)
  then have IH: "map_area_from F (va + 0x1000) en area s = map_option (Pair area)
      (run_updates (\<lambda>k b. pt_map F k (fst b) (snd b)) (offset_pages (va + 0x1000) off (area_flags area) n) s)" for s
    using Suc.IH [of "va + 0x1000" s] page_add [OF Suc.prems(1)] step Suc.prems(2) by simp
  have "is_aligned va 0x1000" using Suc.prems(1) by (simp add: is_aligned_def page_offset_def)
  then show ?case
    using lt v assms(1) IH
    by (cases "pt_map F va (PhysAddr_new (va - off)) (area_flags area) s")
      (simp_all add: map_area_from.simps [of F va] area_map_def offset_pages_Suc)
qed

lemma align_offset_split: "align_down va 0x1000 + page_offset va 0x1000 = va"
  unfolding align_add_offset
  by (rule bit_word_eqI) (auto simp: bit_or_iff align_down_bit page_offset_bit)

lemma align_down_page: "page va \<Longrightarrow> align_down va 0x1000 = va"
  using align_offset_split [of va] by (simp add: page_offset_def)

lemma same_page_div: "same_page a b \<longleftrightarrow> unat a div 4096 = unat b div 4096"
proof -
  have "align_down a 0x1000 = push_bit 12 (drop_bit 12 a)" for a
    by (rule bit_word_eqI) (auto simp: align_down_bit bit_simps)
  moreover have "drop_bit 12 (align_down a 0x1000) = drop_bit 12 a" for a
    by (rule bit_word_eqI) (auto simp: align_down_bit bit_simps)
  ultimately have "same_page a b \<longleftrightarrow> drop_bit 12 a = drop_bit 12 b"
    unfolding same_page_def by metis
  also have "\<dots> \<longleftrightarrow> unat a div 4096 = unat b div 4096"
    by (simp add: word_unat_eq_iff drop_bit_eq_div unat_div)
  finally show ?thesis .
qed

text \<open>The pages of an area that does not reach the end of the address space.\<close>

lemma area_page:
  assumes "page start" "unat start + 4096 * n < 2 ^ 64" "i < n"
  shows "unat (start + 0x1000 * of_nat i) = unat start + 4096 * i" "page (start + 0x1000 * of_nat i)"
proof -
  have "unat (0x1000 * of_nat i :: u64) = 4096 * i" using assms(2,3) by (simp add: unat_word_ariths unat_of_nat)
  then show u: "unat (start + 0x1000 * of_nat i) = unat start + 4096 * i"
    using assms(2,3) by (simp add: unat_word_ariths)
  show "page (start + 0x1000 * of_nat i)"
    using assms(1) unfolding page_iff u by simp
qed

lemma area_same_page:
  assumes "page start" "unat start + 4096 * n < 2 ^ 64" "i < n"
  shows "same_page (start + 0x1000 * of_nat i) va \<longleftrightarrow> unat start \<le> unat va \<and> i = (unat va - unat start) div 4096"
proof -
  obtain q where q: "unat start = 4096 * q" using page_unat(1) [OF assms(1)] by blast
  have "same_page (start + 0x1000 * of_nat i) va \<longleftrightarrow> unat va div 4096 = q + i"
    unfolding same_page_div area_page(1) [OF assms] q by auto
  also have "\<dots> \<longleftrightarrow> 4096 * q \<le> unat va \<and> i = (unat va - 4096 * q) div 4096"
  proof
    assume a: "unat va div 4096 = q + i"
    then have "4096 * (q + i) \<le> unat va" by (metis div_times_less_eq_dividend mult.commute)
    then show "4096 * q \<le> unat va \<and> i = (unat va - 4096 * q) div 4096"
      using a div_mult_self1 [of 4096 "unat va - 4096 * q" q] by (auto simp: algebra_simps)
  next
    assume a: "4096 * q \<le> unat va \<and> i = (unat va - 4096 * q) div 4096"
    then obtain d where d: "unat va = 4096 * q + d" using le_Suc_ex by blast
    then show "unat va div 4096 = q + i" using a by simp
  qed
  finally show ?thesis using q by simp
qed

lemma find_offset_page:
  assumes "page start" "unat start + 4096 * n < 2 ^ 64"
  shows "List.find (\<lambda>b. same_page (fst b) va) (offset_pages start off fl n) =
    (if unat start \<le> unat va \<and> unat va < unat start + 4096 * n
     then let i = (unat va - unat start) div 4096
          in Some (start + 0x1000 * of_nat i, PhysAddr_new (start + 0x1000 * of_nat i - off), fl)
     else None)"
proof (cases "unat start \<le> unat va \<and> unat va < unat start + 4096 * n")
  case True
  define i where "i = (unat va - unat start) div 4096"
  have i: "i < n" using True by (auto simp: i_def less_mult_imp_div_less)
  have "offset_pages start off fl n ! j = (start + 0x1000 * of_nat j, PhysAddr_new (start + 0x1000 * of_nat j - off), fl)"
    "length (offset_pages start off fl n) = n" if "j < n" for j
    using that by (simp_all add: offset_pages_def)
  then show ?thesis
    using True i area_same_page [OF assms, of _ va]
    by (auto simp: find_Some_iff i_def [symmetric] Let_def intro!: exI [of _ i])
next
  case False
  have "\<not> same_page (start + 0x1000 * of_nat i) va" if "i < n" for i
  proof
    assume "same_page (start + 0x1000 * of_nat i) va"
    then have a: "unat start \<le> unat va" "i = (unat va - unat start) div 4096"
      using area_same_page [OF assms that] by simp_all
    then show False using False that by (auto simp: div_less_iff_less_mult)
  qed
  then have "List.find (\<lambda>b. same_page (fst b) va) (offset_pages start off fl n) = None"
    by (auto simp: find_None_iff offset_pages_def)
  then show ?thesis using False by auto
qed

lemma offset_pages_ok:
  assumes "page start" "unat start + 4096 * n < 2 ^ 64" "\<forall>va. start \<le> va \<and> va < en \<longrightarrow> is_virt va"
    and "unat en = unat start + 4096 * n" "unat pa + 4096 * n \<le> 2 ^ 40" "fl \<noteq> 0" "fl AND 31 = fl"
    and "b \<in> set (offset_pages start (start - pa) fl n)"
  shows "is_virt (fst b)" "binding_ok (snd b)"
proof -
  obtain i where i: "i < n" "b = (start + 0x1000 * of_nat i, PhysAddr_new (start + 0x1000 * of_nat i - (start - pa)), fl)"
    using assms(8) by (auto simp: offset_pages_def)
  show "is_virt (fst b)"
    using assms(3,4) i area_page(1) [OF assms(1,2) i(1)] by (auto simp: word_le_nat_alt word_less_nat_alt)
  have "PhysAddr_new x < push_bit 40 1" for x
  proof -
    have "unat (PhysAddr_new x) < 2 ^ 40"
    proof (rule bits_below)
      have m: "(push_bit 40 1 - 1 :: u64) = mask 40" by (simp add: mask_eq_exp_minus_1)
      show "bit (PhysAddr_new x) k \<Longrightarrow> k < 40" for k
        unfolding PhysAddr_new_def m bit_and_iff bit_mask_iff by simp
    qed
    then show ?thesis by (simp add: word_less_nat_alt)
  qed
  then show "binding_ok (snd b)" using assms(6,7) i(2) by (simp add: binding_ok_def)
qed

lemma offset_page_address:
  assumes "page start" "page pa" "unat start + 4096 * n < 2 ^ 64" "unat pa + 4096 * n \<le> 2 ^ 40"
    and "unat start \<le> unat va" "unat va < unat start + 4096 * n" "i = (unat va - unat start) div 4096"
  shows "align_down (PhysAddr_new (start + 0x1000 * of_nat i - (start - pa))) 0x1000 + page_offset va 0x1000 =
    pa + (va - start)"
    "PhysAddr_new (start + 0x1000 * of_nat i - (start - pa)) < push_bit 40 1"
proof -
  have i: "i < n" using assms(5,6) by (auto simp: assms(7) less_mult_imp_div_less)
  let ?x = "pa + 0x1000 * of_nat i"
  have eq: "start + 0x1000 * of_nat i - (start - pa) = ?x" by simp
  have ux: "unat ?x = unat pa + 4096 * i" "page ?x" using area_page [OF assms(2) _ i] assms(4) by simp_all
  then have lt: "?x < push_bit 40 1" using assms(4) i by (simp add: word_less_nat_alt)
  then show "PhysAddr_new (start + 0x1000 * of_nat i - (start - pa)) < push_bit 40 1"
    using PhysAddr_new_id [OF lt] unfolding eq by simp
  have "same_page (start + 0x1000 * of_nat i) va" using area_same_page [OF assms(1,3) i] assms(5,7) by simp
  then have "align_down va 0x1000 = start + 0x1000 * of_nat i"
    using align_down_page [OF area_page(2) [OF assms(1,3) i]] by (simp add: same_page_def)
  then have va: "va = start + 0x1000 * of_nat i + page_offset va 0x1000" using align_offset_split [of va] by simp
  have "?x + page_offset va 0x1000 = pa + (va - start)" by (subst (2) va) simp
  then show "align_down (PhysAddr_new (start + 0x1000 * of_nat i - (start - pa))) 0x1000 + page_offset va 0x1000 =
    pa + (va - start)"
    using PhysAddr_new_id [OF lt] align_down_page [OF ux(2)] unfolding eq by simp
qed

text \<open>
  C12: An area at a fixed offset. Inserting an area of \<open>n\<close> unmapped pages at \<open>start\<close> over the
  physical memory at \<open>pa\<close> returns when there are three free frames for each page; afterwards
  the address \<open>start + d\<close> of the area is translated to \<open>pa + d\<close> with the flags of the area, and
  all other addresses as before.
\<close>

theorem map_area_offset:
  assumes F: "ptf_documented F" and inv: "pt_inv F s" and a: "new_offset start pa sz fl = Some area"
    and fl: "fl \<noteq> 0" "fl AND 31 = fl" and sz: "unat sz = 4096 * n"
    and range: "unat start + unat sz < 2 ^ 64" "unat pa + unat sz \<le> 2 ^ 40"
      "\<forall>va. start \<le> va \<and> va < start + sz \<longrightarrow> is_virt va"
    and free: "\<forall>va. start \<le> va \<and> va < start + sz \<longrightarrow> query_in F s va = Some None" "3 * n \<le> card (free_in s)"
  shows "\<exists>s'. map_area F area s = Some (area, s') \<and> pt_inv F s' \<and>
    (\<forall>va. is_virt va \<longrightarrow> query_in F s' va =
       (if start \<le> va \<and> va < start + sz then Some (Some (pa + (va - start), fl OR 1)) else query_in F s va))"
proof -
  have area: "area = \<lparr>area_start = start, area_size = sz, area_flags = fl, mapper = Offset (start - pa)\<rparr>"
    and pg: "page start" "page pa"
    using a by (auto simp: new_offset_def is_aligned_def page_offset_def split: if_splits)
  have en: "unat (start + sz) = unat start + 4096 * n" using range(1) sz by (simp add: unat_word_ariths)
  have lim: "unat start + 4096 * n < 2 ^ 64" "unat pa + 4096 * n \<le> 2 ^ 40" using range(1,2) sz by simp_all
  have inside: "start \<le> va \<and> va < start + sz \<longleftrightarrow> unat start \<le> unat va \<and> unat va < unat start + 4096 * n" for va
    using en by (simp add: word_le_nat_alt word_less_nat_alt)
  let ?bs = "offset_pages start (start - pa) fl n" and ?upd = "\<lambda>k b. pt_map F k (fst b) (snd b)"
  have run: "map_area F area s = map_option (Pair area) (run_updates ?upd ?bs s)"
    unfolding map_area_def using map_area_offset_run [of area "start - pa" start n "start + sz" F s] pg en range(3)
      area_page(1) [OF pg(1) lim(1)] by (simp add: area inside)
  have I: "ptf_documented F \<and> pt_inv F s" using F inv by simp
  note ok = offset_pages_ok [OF pg(1) lim(1) range(3) en lim(2) fl]
  have "pt_find F s (fst b) = None" if "b \<in> set ?bs" for b
    using that free(1) query_None [OF F inv] area_page(1) [OF pg(1) lim(1)] by (auto simp: offset_pages_def inside)
  moreover have "i = j" if "i < n" "j < n" "same_page (fst (?bs ! i)) (fst (?bs ! j))" for i j
    using that area_same_page [OF pg(1) lim(1)] area_page(1) [OF pg(1) lim(1)] by (simp add: offset_pages_def)
  ultimately obtain s' where s': "run_updates ?upd ?bs s = Some s'"
    using pages.run_updates_returns [OF I, of ?bs] ok free(2) by (auto simp: offset_pages_def)
  have up: "pt_inv F s'" "\<And>va. is_virt va \<Longrightarrow> pt_find F s' va =
      (case List.find (\<lambda>b. same_page (fst b) va) ?bs of None \<Rightarrow> pt_find F s va | Some b \<Rightarrow> Some (stored (snd b)))"
    using pages.run_updates_find [OF I _ s'] ok by auto
  have "query_in F s' va = (if start \<le> va \<and> va < start + sz then Some (Some (pa + (va - start), fl OR 1)) else query_in F s va)"
    if va: "is_virt va" for va
  proof (cases "start \<le> va \<and> va < start + sz")
    case True
    note adr = offset_page_address [OF pg lim _ _ refl, of va]
    have "pt_find F s' va = Some (stored (PhysAddr_new (start + 0x1000 * of_nat ((unat va - unat start) div 4096) - (start - pa)), fl))"
      using up(2) [OF va] True find_offset_page [OF pg(1) lim(1), of va "start - pa" fl] by (simp add: inside Let_def)
    from query_stored [OF F up(1) this] show ?thesis using adr True by (simp add: inside)
  next
    case False
    then have "List.find (\<lambda>b. same_page (fst b) va) ?bs = None"
      using find_offset_page [OF pg(1) lim(1), of va] by (auto simp: inside)
    then show ?thesis using up(2) [OF va] query_same [OF F inv up(1), of va] False by auto
  qed
  then show ?thesis using run s' up(1) by simp
qed

section \<open>Areas with frames of their own\<close>

lemma tables_ok_cong:
  assumes ok: "tables_ok F p r free" and sub: "free' \<subseteq> free"
    and same: "\<And>is t i. idx_path is \<Longrightarrow> table_at F p r is = Some t \<Longrightarrow> i < 512 \<Longrightarrow> entry p' t i = entry p t i"
  shows "tables_ok F p' r free'" "lookup F p' r va = lookup F p r va"
    "idx_path js \<Longrightarrow> table_at F p' r js = table_at F p r js"
proof -
  have T: "table_at F p' r js = table_at F p r js" if "idx_path js" for js
    using that
  proof (induction js rule: rev_induct)
    case (snoc j js)
    then show ?case
      using same [of js _ j] by (cases "table_at F p r js") (simp_all add: table_at_snoc idx_path_snoc step_table_def)
  qed simp
  then show "idx_path js \<Longrightarrow> table_at F p' r js = table_at F p r js" .
  show "lookup F p' r va = lookup F p r va"
    using T [of "path_of va"] same [of "path_of va" _ "p1_index va"] index_bound(4) [of va]
    by (cases "table_at F p r (path_of va)") (simp_all add: lookup_def)
  show "tables_ok F p' r free'"
    unfolding tables_ok_def
  proof (intro conjI allI impI)
    fix js t assume "idx_path js \<and> table_at F p' r js = Some t"
    then show "usable t" "t div 0x1000 \<notin> free'" using T [of js] tables_okD(1,3) [OF ok, of js t] sub by auto
  next
    fix js t and i :: u64 assume "idx_path js \<and> length js < 3 \<and> table_at F p' r js = Some t \<and> i < 512"
    then show "entry p' t i = 0 \<or> is_present F (entry p' t i) \<and> \<not> is_block F (entry p' t i)"
      using T [of js] same [of js t i] tables_okD(4) [OF ok, of js t i] by simp
  next
    fix js ks t assume "idx_path js \<and> idx_path ks \<and> table_at F p' r js = Some t \<and> table_at F p' r ks = Some t"
    then show "js = ks" using T [of js] T [of ks] tables_okD(5) [OF ok, of ks t js] by simp
  qed
qed

text \<open>Taking a frame for data.\<close>

lemma alloc_data:
  assumes inv: "pt_inv F (pt, k)" and al: "alloc_zero k = Some (Some f, k1)"
  shows "extends F (pt, k) (pt, k1) 1" "data_frame F (pt, k1) f" "f div 0x1000 \<in> free_in (pt, k)" "usable f"
    "\<And>x. x \<in> region f 4096 \<Longrightarrow> ram k1 x = 0"
proof -
  have "fl_inv (frames k)" using pt_invD(1) [OF inv] by simp
  then obtain a where a: "k1 = k\<lparr>frames := a, ram := zero_page f (ram k)\<rparr>" "usable f" "f div 0x1000 \<in> free_frames (frames k)"
    "fl_inv a" "free_frames a = free_frames (frames k) - {f div 0x1000}"
    using al by (cases rule: alloc_zero_cases) auto
  note ok = pt_invD(2) [OF inv]
  have pf: "page f" using a(2) by (simp add: usable_def)
  have ne: "t \<noteq> f" if "idx_path is" "table_at F (ram k) (root_paddr pt) is = Some t" for "is" t
    using tables_okD(3) [OF ok, of "is" t] that a(3) by (auto simp: free_in_def)
  have same: "entry (ram k1) t i = entry (ram k) t i"
    if "idx_path is" "table_at F (ram k) (root_paddr pt) is = Some t" "i < 512" for "is" t i
    using tables_okD(2) [OF ok, of "is" t] that ne [OF that(1,2)] pf by (simp add: a(1) entry_zero_page)
  have sub: "free_frames a \<subseteq> free_in (pt, k)" using a(5) by (auto simp: free_in_def)
  note cong = tables_ok_cong [OF ok sub, of "ram k1"]
  have tin: "table_in F (pt, k1) is = table_in F (pt, k) is" if "idx_path is" for "is"
    using cong(3) [OF _ that] same by (simp add: table_in_def)
  show "f div 0x1000 \<in> free_in (pt, k)" "usable f" using a(2,3) by (simp_all add: free_in_def)
  show "ram k1 x = 0" if "x \<in> region f 4096" for x
    using that by (simp add: a(1) zero_page_def store_bytes_def region_def)
  show "data_frame F (pt, k1) f"
    using pf a(5) tin ne by (auto simp: data_frame_def free_in_def a(1) table_in_def)
  have "keeps_data F (pt, k) (pt, k1)"
    unfolding keeps_data_def
  proof (intro allI impI conjI ballI)
    fix g assume g: "data_frame F (pt, k) g"
    then have "g \<noteq> f" using a(3) by (auto simp: data_frame_def free_in_def)
    show "data_frame F (pt, k1) g" using g tin a(5) by (auto simp: data_frame_def free_in_def a(1))
    show "ram (snd (pt, k1)) x = ram (snd (pt, k)) x" if "x \<in> region g 4096" for x
      using zero_page_outside [OF pf _ _ that] g \<open>g \<noteq> f\<close> by (auto simp: a(1) data_frame_def)
  qed
  moreover have "card (free_in (pt, k)) \<le> card (free_in (pt, k1)) + 1"
    using card_Suc_Diff1 [OF finite a(3)] by (simp add: free_in_def a(1,5))
  ultimately show "extends F (pt, k) (pt, k1) 1"
    using cong(1,2) same a(4) sub by (auto simp: extends_def pt_inv_def pt_lookup_def free_in_def a(1))
qed

lemma pt_map_data:
  assumes F: "ptf_documented F" and inv: "pt_inv F s" and m: "pt_map F va pa fl s = Some s'"
  shows "keeps_data F s s'" "free_in s' \<subseteq> free_in s"
proof -
  let ?x = "new_page F (align_down pa 0x1000) fl False"
  from F inv obtain t k pt where e: "get_entry_mut_or_create F va s = Some (Some (entry_of t (p1_index va)), pt, k)"
    "extends F s (pt, k) 3" "table_in F (pt, k) (path_of va) = Some t"
    using m by (cases rule: get_entry_mut_or_create_cases [of F s va]) (auto simp: pt_map_def)
  then have s': "s' = (pt, k\<lparr>ram := stq_le (ram k) (entry_of t (p1_index va)) ?x\<rparr>)"
    using m by (auto simp: pt_map_def split: if_splits)
  have ext: "pt_inv F (pt, k)" "free_in (pt, k) \<subseteq> free_in s" "keeps_data F s (pt, k)" using e(2) by (simp_all add: extends_def)
  show "free_in s' \<subseteq> free_in s" using ext(2) by (simp add: s' free_in_def)
  have w: "writes_leaf F (ram k) (root_paddr pt) (free_in (pt, k)) va t ?x (ram (snd s'))"
    using e(3) pt_invD(2) [OF ext(1)] by (simp add: writes_leaf_def table_in_def s')
  have t: "page t" using tables_okD(2) [OF pt_invD(2) [OF ext(1)], of "path_of va" t] e(3) by (simp add: table_in_def)
  have "data_frame F s' g \<and> (\<forall>x \<in> region g 4096. ram (snd s') x = ram k x)" if g: "data_frame F (pt, k) g" for g
  proof -
    have "g \<noteq> t" "page g" using g e(3) idx_path_prefixes(4) [of va] unfolding data_frame_def by metis+
    then have "\<forall>x \<in> region g 4096. ram (snd s') x = ram k x"
      using entry_outside [OF t _ _ index_bound(4) [of va]] by (auto simp: s')
    moreover have "data_frame F s' g"
      using g writes_leaf_at [OF w] by (auto simp: data_frame_def table_in_def s' free_in_def)
    ultimately show ?thesis by blast
  qed
  then show "keeps_data F s s'" using ext(3) by (auto simp: keeps_data_def)
qed

text \<open>
  From \<open>s\<close> to \<open>s'\<close> the \<open>n\<close> pages from \<open>va\<close> on were given the frames \<open>fs\<close>: distinct frames that
  were free, are zero and no tables, translated with the flags \<open>fl\<close>; other data is untouched.
\<close>

definition area_page_at :: "u64 \<Rightarrow> nat \<Rightarrow> u64" where "area_page_at va i = va + 0x1000 * of_nat i"

definition in_area :: "u64 \<Rightarrow> nat \<Rightarrow> u64 \<Rightarrow> bool" where
  "in_area va n l \<longleftrightarrow> unat va \<le> unat l \<and> unat l < unat va + 4096 * n"

definition fresh_frame :: "PTF \<Rightarrow> pt_state \<Rightarrow> pt_state \<Rightarrow> u64 \<Rightarrow> bool" where
  "fresh_frame F s s' f \<longleftrightarrow> usable f \<and> f div 0x1000 \<in> free_in s \<and> data_frame F s' f \<and>
     (\<forall>x \<in> region f 4096. ram (snd s') x = 0)"

definition area_given :: "PTF \<Rightarrow> u64 \<Rightarrow> nat \<Rightarrow> u64 \<Rightarrow> (u64 \<rightharpoonup> u64) \<Rightarrow> pt_state \<Rightarrow> pt_state \<Rightarrow> bool" where
  "area_given F va n fl fs s s' \<longleftrightarrow> pt_inv F s' \<and> keeps_data F s s' \<and> free_in s' \<subseteq> free_in s \<and>
     (\<forall>i < n. \<exists>f. fs (area_page_at va i) = Some f \<and> fresh_frame F s s' f) \<and>
     (\<forall>i < n. \<forall>j < n. fs (area_page_at va i) = fs (area_page_at va j) \<longrightarrow> i = j) \<and>
     (\<forall>l. is_virt l \<longrightarrow> pt_find F s' l =
        (if in_area va n l then map_option (\<lambda>f. (f, fl OR 1)) (fs (align_down l 0x1000)) else pt_find F s l))"

lemma usable_stored: "usable f \<Longrightarrow> stored (f, fl) = (f, fl OR 1)" "usable f \<Longrightarrow> f < push_bit 40 1"
  using align_down_page [of f] by (auto simp: stored_def usable_def word_less_nat_alt)

lemma in_area_Suc:
  assumes "page va" "unat va + 4096 * Suc n < 2 ^ 64"
  shows "in_area va (Suc n) l \<longleftrightarrow> same_page va l \<or> in_area (va + 0x1000) n l"
    "in_area (va + 0x1000) n l \<Longrightarrow> \<not> same_page va l"
    "same_page va l \<Longrightarrow> align_down l 0x1000 = va"
proof -
  have u: "unat (va + 0x1000) = unat va + 4096" using assms(2) by (simp add: unat_word_ariths)
  have s: "same_page va l \<longleftrightarrow> unat va \<le> unat l \<and> unat l < unat va + 4096"
    using area_same_page [OF assms(1), of 1 0 l] assms(2) by (auto simp: div_eq_0_iff)
  show "in_area va (Suc n) l \<longleftrightarrow> same_page va l \<or> in_area (va + 0x1000) n l"
    "in_area (va + 0x1000) n l \<Longrightarrow> \<not> same_page va l" using s u by (auto simp: in_area_def)
  show "same_page va l \<Longrightarrow> align_down l 0x1000 = va" using align_down_page [OF assms(1)] by (simp add: same_page_def)
qed

lemma framed_page:
  assumes F: "ptf_documented F" and inv: "pt_inv F s" and va: "is_virt va" "page va" and fl: "fl \<noteq> 0" "fl AND 31 = fl"
    and ar: "mapper area = Framed fs" "fs va = None" "area_flags area = fl"
    and free: "pt_find F s va = None" "4 \<le> card (free_in s)" and en: "va < en"
  obtains f s' where "map_area_from F va en area s = map_area_from F (va + 0x1000) en (area\<lparr>mapper := Framed (fs(va \<mapsto> f))\<rparr>) s'"
    "fresh_frame F s s' f" "pt_inv F s'" "keeps_data F s s'" "free_in s' \<subseteq> free_in s" "card (free_in s) \<le> card (free_in s') + 4"
    "\<forall>l. is_virt l \<longrightarrow> pt_find F s' l = (if same_page va l then Some (f, fl OR 1) else pt_find F s l)"
proof -
  obtain pt k where s: "s = (pt, k)" by fastforce
  have "fl_inv (frames k)" using pt_invD(1) [OF inv] s by simp
  then obtain f k1 where al: "alloc_zero k = Some (Some f, k1)"
    using free(2) by (cases rule: alloc_zero_cases) (auto simp: s free_in_def)
  note d = alloc_data [OF inv [unfolded s] al]
  have e: "pt_inv F (pt, k1)" "pt_lookup F (pt, k1) = pt_lookup F s" "card (free_in s) \<le> card (free_in (pt, k1)) + 1"
    "free_in (pt, k1) \<subseteq> free_in s" "keeps_data F s (pt, k1)"
    using d(1) by (auto simp: extends_def s)
  have I: "ptf_documented F \<and> pt_inv F (pt, k1)" and B: "binding_ok (f, fl)"
    using F e(1) fl usable_stored(2) [OF d(4)] by (simp_all add: binding_ok_def)
  have "pt_find F (pt, k1) va = None" "3 \<le> card (free_in (pt, k1))" using free e(2,3) by (simp_all add: pt_find_def)
  then obtain s' where m: "pt_map F va (fst (f, fl)) (snd (f, fl)) (pt, k1) = Some s'"
    using pages.updatable [OF I va(1) B] by auto
  note u = pages.update [OF I va(1) B m]
  have pm: "keeps_data F (pt, k1) s'" "free_in s' \<subseteq> free_in (pt, k1)" using pt_map_data [OF F e(1)] m by simp_all
  have "is_aligned va 0x1000" using va(2) by (simp add: is_aligned_def page_offset_def)
  then have "map_area_from F va en area s = map_area_from F (va + 0x1000) en (area\<lparr>mapper := Framed (fs(va \<mapsto> f))\<rparr>) s'"
    using en va(1) ar al m by (simp add: map_area_from.simps [of F va] is_virt_def area_map_def s)
  moreover have "fresh_frame F s s' f"
    using d(2-5) pm(1) by (auto simp: fresh_frame_def keeps_data_def s)
  moreover have "keeps_data F s s'" using e(5) pm(1) by (auto simp: keeps_data_def)
  moreover have "\<forall>l. is_virt l \<longrightarrow> pt_find F s' l = (if same_page va l then Some (f, fl OR 1) else pt_find F s l)"
    using u usable_stored(1) [OF d(4)] e(2) by (auto simp: pt_find_def)
  ultimately show thesis using that [of f s'] u pm(2) e(3,4) by auto
qed

lemma area_given_step:
  assumes va: "page va" "unat va + 4096 * Suc n < 2 ^ 64"
    and f: "fresh_frame F s s1 f" "keeps_data F s s1" "free_in s1 \<subseteq> free_in s"
      "\<forall>l. is_virt l \<longrightarrow> pt_find F s1 l = (if same_page va l then Some (f, fl OR 1) else pt_find F s l)"
    and g: "area_given F (va + 0x1000) n fl fs s1 s'" and fs: "fs va = Some f"
  shows "area_given F va (Suc n) fl fs s s'"
proof -
  have pg: "area_page_at va (Suc i) = area_page_at (va + 0x1000) i" "area_page_at va 0 = va" for i
    by (simp_all add: area_page_at_def algebra_simps)
  have s': "pt_inv F s'" "keeps_data F s1 s'" "free_in s' \<subseteq> free_in s1"
    and fr: "\<And>i. i < n \<Longrightarrow> \<exists>f. fs (area_page_at (va + 0x1000) i) = Some f \<and> fresh_frame F s1 s' f"
    and inj: "\<And>i j. i < n \<Longrightarrow> j < n \<Longrightarrow> fs (area_page_at (va + 0x1000) i) = fs (area_page_at (va + 0x1000) j) \<Longrightarrow> i = j"
    and find: "\<And>l. is_virt l \<Longrightarrow> pt_find F s' l = (if in_area (va + 0x1000) n l
        then map_option (\<lambda>f. (f, fl OR 1)) (fs (align_down l 0x1000)) else pt_find F s1 l)"
    using g by (auto simp: area_given_def)
  have f': "fresh_frame F s s' f" using f(1) s'(2) by (auto simp: fresh_frame_def keeps_data_def)
  have new: "fs (area_page_at (va + 0x1000) i) \<noteq> Some f" if "i < n" for i
    using fr [OF that] f(1) by (auto simp: fresh_frame_def data_frame_def)
  have frames: "\<exists>f. fs (area_page_at va i) = Some f \<and> fresh_frame F s s' f" if "i < Suc n" for i
  proof (cases i)
    case 0
    then show ?thesis using fs f' pg by simp
  next
    case (Suc j)
    then show ?thesis using fr [of j] that f(3) by (fastforce simp: pg fresh_frame_def)
  qed
  have "i = j" if "i < Suc n" "j < Suc n" "fs (area_page_at va i) = fs (area_page_at va j)" for i j
    using that new inj fs pg by (cases i; cases j) (auto simp: pg)
  moreover have "pt_find F s' l = (if in_area va (Suc n) l then map_option (\<lambda>f. (f, fl OR 1)) (fs (align_down l 0x1000))
      else pt_find F s l)" if "is_virt l" for l
    using find [OF that] f(4) that in_area_Suc [OF va, of l] fs by auto
  ultimately show ?thesis
    unfolding area_given_def using s' frames f(2,3) by (auto simp: keeps_data_def)
qed

lemma framed_pages:
  assumes "ptf_documented F" "pt_inv F s" "page va" "unat va + 4096 * n = unat en" "fl \<noteq> 0" "fl AND 31 = fl"
    and "\<forall>i < n. is_virt (area_page_at va i) \<and> pt_find F s (area_page_at va i) = None \<and> fs (area_page_at va i) = None"
    and "mapper area = Framed fs" "area_flags area = fl" "4 * n \<le> card (free_in s)"
  shows "\<exists>fs' s'. map_area_from F va en area s = Some (area\<lparr>mapper := Framed fs'\<rparr>, s') \<and>
    area_given F va n fl fs' s s' \<and> (\<forall>l. l \<notin> area_page_at va ` {..< n} \<longrightarrow> fs' l = fs l)"
  using assms(2-)
proof (induction n arbitrary: va s fs area)
  case 0
  then have "va = en" by (simp add: word_unat_eq_iff)
  then have "map_area_from F va en area s = Some (area\<lparr>mapper := Framed fs\<rparr>, s)"
    using 0 by (simp add: map_area_from.simps [of F en])
  moreover have "area_given F va 0 fl fs s s" using 0 by (auto simp: area_given_def keeps_data_def in_area_def)
  ultimately show ?case by blast
next
  case (Suc n)
  note p = Suc.prems
  have lim: "unat va + 4096 * Suc n < 2 ^ 64" using p(3) unat_bound [of en] by simp
  have u: "unat (va + 0x1000) = unat va + 4096" using lim by (simp add: unat_word_ariths)
  have en: "va < en" using p(3) by (simp add: word_less_nat_alt)
  have next_page: "area_page_at va (Suc i) = area_page_at (va + 0x1000) i" for i by (simp add: area_page_at_def algebra_simps)
  have va0: "area_page_at va 0 = va" by (simp add: area_page_at_def)
  note A = in_area_Suc [OF p(2) lim]
  have v: "is_virt va" "pt_find F s va = None" "fs va = None" using p(6) [rule_format, of 0] va0 by simp_all
  obtain f s1 where f: "map_area_from F va en area s = map_area_from F (va + 0x1000) en (area\<lparr>mapper := Framed (fs(va \<mapsto> f))\<rparr>) s1"
    "fresh_frame F s s1 f" "pt_inv F s1" "keeps_data F s s1" "free_in s1 \<subseteq> free_in s" "card (free_in s) \<le> card (free_in s1) + 4"
    "\<forall>l. is_virt l \<longrightarrow> pt_find F s1 l = (if same_page va l then Some (f, fl OR 1) else pt_find F s l)"
    using framed_page [OF assms(1) p(1) v(1) p(2,4,5,7) v(3) p(8) v(2) _ en] p(9) by auto
  have inn: "in_area (va + 0x1000) n (area_page_at va (Suc i))" if "i < n" for i
    using that area_page(1) [OF p(2) lim, of "Suc i"] u by (simp add: in_area_def area_page_at_def)
  have self: "same_page va va" by (simp add: same_page_def)
  have last: "unat (va + 0x1000) + 4096 * n = unat en" and enough: "4 * n \<le> card (free_in s1)"
    using p(3,9) f(6) unfolding u by simp_all
  have pre: "\<forall>i < n. is_virt (area_page_at (va + 0x1000) i) \<and> pt_find F s1 (area_page_at (va + 0x1000) i) = None \<and>
      (fs(va \<mapsto> f)) (area_page_at (va + 0x1000) i) = None"
  proof (intro allI impI)
    fix i assume i: "i < n"
    have "\<not> same_page va (area_page_at va (Suc i))" using A(2) inn [OF i] by blast
    then show "is_virt (area_page_at (va + 0x1000) i) \<and> pt_find F s1 (area_page_at (va + 0x1000) i) = None \<and>
        (fs(va \<mapsto> f)) (area_page_at (va + 0x1000) i) = None"
      using p(6) [rule_format, of "Suc i"] i f(7) self by (auto simp: next_page)
  qed
  obtain fs' s' where r: "map_area_from F (va + 0x1000) en (area\<lparr>mapper := Framed (fs(va \<mapsto> f))\<rparr>) s1 =
      Some (area\<lparr>mapper := Framed fs'\<rparr>, s')" "area_given F (va + 0x1000) n fl fs' s1 s'"
    "\<forall>l. l \<notin> area_page_at (va + 0x1000) ` {..< n} \<longrightarrow> fs' l = (fs(va \<mapsto> f)) l"
    using Suc.IH [OF f(3) page_add [OF p(2)] last p(4,5) pre, of "area\<lparr>mapper := Framed (fs(va \<mapsto> f))\<rparr>"] p(8) enough
    by (simp del: fun_upd_apply) blast
  have other: "va \<notin> area_page_at (va + 0x1000) ` {..< n}" using inn A(2) [of va] self next_page by (metis imageE lessThan_iff)
  then have "fs' va = Some f" using r(3) by simp
  then have "area_given F va (Suc n) fl fs' s s'" using area_given_step [OF p(2) lim f(2,4,5,7) r(2)] by blast
  moreover have "\<forall>l. l \<notin> area_page_at va ` {..< Suc n} \<longrightarrow> fs' l = fs l"
    using r(3) by (simp add: lessThan_Suc_eq_insert_0 image_image next_page va0)
  ultimately show ?case using f(1) r(1) by auto
qed

lemma in_area_page:
  assumes "page va" "unat va + 4096 * n < 2 ^ 64" "in_area va n l"
  shows "\<exists>i < n. align_down l 0x1000 = area_page_at va i"
proof -
  define i where "i = (unat l - unat va) div 4096"
  have i: "i < n" "unat va \<le> unat l" using assms(3) unfolding i_def by (auto simp: in_area_def less_mult_imp_div_less)
  then have "same_page (area_page_at va i) l"
    using area_same_page [OF assms(1,2) i(1), of l] by (simp add: area_page_at_def i_def)
  then have "align_down l 0x1000 = area_page_at va i"
    using align_down_page area_page(2) [OF assms(1,2) i(1)] by (simp add: same_page_def area_page_at_def)
  then show ?thesis using i(1) by blast
qed

text \<open>
  C10: An area with frames of its own. Inserting an area of \<open>n\<close> unmapped pages at \<open>start\<close> without
  given memory returns when there are four free frames for each page. The area then owns one
  frame for each of its pages and no other; the frames are distinct, were free, are zero and no
  part of the page table, and the addresses of the area are translated into them with its
  flags. Other addresses are translated as before, and other data in use is unchanged.
\<close>

theorem map_area_framed:
  assumes F: "ptf_documented F" and inv: "pt_inv F s" and a: "new_framed start sz fl = Some area"
    and fl: "fl \<noteq> 0" "fl AND 31 = fl" and sz: "unat sz = 4096 * n"
    and range: "unat start + unat sz < 2 ^ 64" "\<forall>va. start \<le> va \<and> va < start + sz \<longrightarrow> is_virt va"
    and free: "\<forall>va. start \<le> va \<and> va < start + sz \<longrightarrow> query_in F s va = Some None" "4 * n \<le> card (free_in s)"
  shows "\<exists>fs s'. map_area F area s = Some (area\<lparr>mapper := Framed fs\<rparr>, s') \<and> pt_inv F s' \<and>
    dom fs = (\<lambda>i. start + 0x1000 * of_nat i) ` {..< n} \<and> inj_on fs (dom fs) \<and>
    (\<forall>f \<in> ran fs. fresh_frame F s s' f) \<and> keeps_data F s s' \<and>
    (\<forall>va. is_virt va \<longrightarrow> query_in F s' va =
       (if start \<le> va \<and> va < start + sz
        then Some (Some (the (fs (align_down va 0x1000)) + page_offset va 0x1000, fl OR 1)) else query_in F s va))"
proof -
  have area: "area = \<lparr>area_start = start, area_size = sz, area_flags = fl, mapper = Framed Map.empty\<rparr>" and pg: "page start"
    using a by (auto simp: new_framed_def is_aligned_def page_offset_def split: if_splits)
  have en: "unat start + 4096 * n = unat (start + sz)" using range(1) sz by (simp add: unat_word_ariths)
  have lim: "unat start + 4096 * n < 2 ^ 64" using range(1) sz by simp
  have inside: "start \<le> va \<and> va < start + sz \<longleftrightarrow> in_area start n va" for va
    using en by (simp add: word_le_nat_alt word_less_nat_alt in_area_def)
  have at: "in_area start n (area_page_at start i)" if "i < n" for i
    using area_page(1) [OF pg lim that] that by (simp add: in_area_def area_page_at_def)
  have pre: "\<forall>i < n. is_virt (area_page_at start i) \<and> pt_find F s (area_page_at start i) = None \<and> Map.empty (area_page_at start i) = None"
    using range(2) free(1) at query_None [OF F inv] by (simp add: inside)
  obtain fs s' where r: "map_area F area s = Some (area\<lparr>mapper := Framed fs\<rparr>, s')"
    "area_given F start n fl fs s s'" "\<forall>l. l \<notin> area_page_at start ` {..< n} \<longrightarrow> fs l = None"
    using framed_pages [OF F inv pg en fl pre, of area] free(2) by (auto simp: area map_area_def)
  have g: "pt_inv F s'" "keeps_data F s s'" and fr: "\<And>i. i < n \<Longrightarrow> \<exists>f. fs (area_page_at start i) = Some f \<and> fresh_frame F s s' f"
    and inj: "\<And>i j. i < n \<Longrightarrow> j < n \<Longrightarrow> fs (area_page_at start i) = fs (area_page_at start j) \<Longrightarrow> i = j"
    and find: "\<And>l. is_virt l \<Longrightarrow> pt_find F s' l = (if in_area start n l
        then map_option (\<lambda>f. (f, fl OR 1)) (fs (align_down l 0x1000)) else pt_find F s l)"
    using r(2) by (auto simp: area_given_def)
  have down: "\<exists>i < n. align_down va 0x1000 = area_page_at start i" if "in_area start n va" for va
    using in_area_page [OF pg lim that] by blast
  have dom: "dom fs = area_page_at start ` {..< n}"
    using r(3) fr by (fastforce simp: dom_def)
  have "inj_on fs (dom fs)" unfolding dom using inj by (auto simp: inj_on_def)
  moreover have "fresh_frame F s s' f" if f: "f \<in> ran fs" for f
  proof -
    obtain va where va: "fs va = Some f" using f by (auto simp: ran_def)
    then obtain i where "i < n" "va = area_page_at start i" using dom by blast
    then show ?thesis using fr va by fastforce
  qed
  moreover have "query_in F s' va = (if start \<le> va \<and> va < start + sz
      then Some (Some (the (fs (align_down va 0x1000)) + page_offset va 0x1000, fl OR 1)) else query_in F s va)"
    if va: "is_virt va" for va
  proof (cases "in_area start n va")
    case True
    obtain f where f: "fs (align_down va 0x1000) = Some f" "fresh_frame F s s' f" using down [OF True] fr by metis
    then have u: "usable f" by (simp add: fresh_frame_def)
    have "align_down f 0x1000 = f" using u align_down_page by (simp add: usable_def)
    moreover have "pt_find F s' va = Some (stored (f, fl))" using find [OF va] True f(1) usable_stored(1) [OF u] by simp
    ultimately show ?thesis using query_stored [OF F g(1) _ usable_stored(2) [OF u]] True f(1) by (simp add: inside)
  next
    case False
    then show ?thesis using query_same [OF F inv g(1)] find [OF va] by (simp add: inside)
  qed
  ultimately show ?thesis using r(1) g dom by (auto simp: area_page_at_def)
qed

section \<open>Witnesses\<close>

lemma example_range: "is_virt va \<and> query_in x86_ptf s va = Some None"
  if "pt_inv x86_ptf s" "\<forall>va. pt_find x86_ptf s va = None" "0x401000 \<le> va \<and> va < 0x403000"
proof -
  have "unat va < 2 ^ 47" using that(3) by (simp add: word_le_nat_alt word_less_nat_alt)
  then have "unat (drop_bit 47 va) = 0" unfolding unsigned_drop_bit_eq unfolding drop_bit_eq_div by (simp add: take_bit_eq_mod)
  then have "drop_bit 47 va = 0" by (simp add: word_unat_eq_iff)
  then show ?thesis using that(2) query_None [OF x86_documented that(1)] by (simp add: is_virt_def VirtAddr_new_def)
qed

theorem map_area_offset_witness:
  "\<exists>s area s'. pt_new example_kmem = Some s \<and> new_offset 0x401000 0x9000 0x2000 11 = Some area \<and>
     map_area x86_ptf area s = Some (area, s') \<and> query_in x86_ptf s' 0x402234 = Some (Some (0xa234, 11))"
proof -
  obtain s where s: "pt_new example_kmem = Some s" "pt_inv x86_ptf s" "card (free_in s) = 15"
    "\<forall>va. pt_find x86_ptf s va = None" by (rule example_table)
  obtain area where a: "new_offset 0x401000 0x9000 0x2000 11 = Some area"
    by (simp add: new_offset_def is_aligned_def page_offset_def)
  have v: "is_virt 0x402234" by (simp add: is_virt_def VirtAddr_new_def)
  show ?thesis
    using map_area_offset [OF x86_documented s(2) a, of 2] s a v example_range [OF s(2,4)] by auto
qed

theorem map_area_framed_witness:
  "\<exists>s area fs s' f. pt_new example_kmem = Some s \<and> new_framed 0x401000 0x2000 11 = Some area \<and>
     map_area x86_ptf area s = Some (area\<lparr>mapper := Framed fs\<rparr>, s') \<and> fs 0x402000 = Some f \<and>
     query_in x86_ptf s' 0x402234 = Some (Some (f + 0x234, 11)) \<and> ram (snd s') f = 0"
proof -
  obtain s where s: "pt_new example_kmem = Some s" "pt_inv x86_ptf s" "card (free_in s) = 15"
    "\<forall>va. pt_find x86_ptf s va = None" by (rule example_table)
  obtain area where a: "new_framed 0x401000 0x2000 11 = Some area"
    by (simp add: new_framed_def is_aligned_def page_offset_def)
  have v: "is_virt 0x402234" by (simp add: is_virt_def VirtAddr_new_def)
  obtain fs s' where m: "map_area x86_ptf area s = Some (area\<lparr>mapper := Framed fs\<rparr>, s')"
    "dom fs = (\<lambda>i. 0x401000 + 0x1000 * of_nat i) ` {..< 2}" "\<forall>f \<in> ran fs. fresh_frame x86_ptf s s' f"
    "query_in x86_ptf s' 0x402234 = Some (Some (the (fs (align_down 0x402234 0x1000)) + page_offset 0x402234 0x1000, 11 OR 1))"
    using map_area_framed [OF x86_documented s(2) a, of 2] s v example_range [OF s(2,4)] by auto
  have "0x402000 \<in> dom fs" using m(2) by (simp add: numeral_2_eq_2 lessThan_Suc)
  then obtain f where f: "fs 0x402000 = Some f" by auto
  then have "fresh_frame x86_ptf s s' f" using m(3) by (auto simp: ran_def)
  then have "ram (snd s') f = 0" by (auto simp: fresh_frame_def region_def)
  moreover have "query_in x86_ptf s' 0x402234 = Some (Some (f + 0x234, 11))"
    using m(4) f by (simp add: align_down_def page_offset_def)
  ultimately show ?thesis using s(1) a m(1) f by blast
qed

end
