(* ===== verification/SCF_Queue.thy ===== *)
theory SCF_Queue
  imports Prelude
begin

text \<open>
  System-call forwarding between NimbOS and Linux: the queue of descriptors in shared memory,
  with the kernel's side of it (\<^verbatim>\<open>nimbos/kernel/src/scf/queue.rs\<close>) and the side of the Linux
  process that carries the calls out (\<^verbatim>\<open>nimbos-driver/apps/libs/scf.c\<close>). Every operation on
  the queue runs under the lock of its metadata and is one function here. A panic of the
  kernel and an access of the C code outside an array are \<^const>\<open>None\<close>. The kernel is built in
  release mode, so its counters wrap.
\<close>

section \<open>Shared memory\<close>

record scf_descriptor =
  desc_valid :: bool
  desc_opcode :: u8
  desc_args :: u64
  desc_ret_val :: u64

record queue_metadata =
  magic :: u32
  capacity :: u16
  req_index :: u16
  rsp_index :: u16

text \<open>The kernel's and the process's own variables, and the memory both map.\<close>

record SyscallQueueBuffer =
  free_count :: u16
  capacity_mask :: u16
  req_index_shadow :: u16
  rsp_index_last :: u16
  tokens :: "u64 list"

record syscall_queue_buffer =
  c_capacity_mask :: u16
  req_index_last :: u16
  rsp_index_shadow :: u16

record scf =
  kq :: SyscallQueueBuffer
  cq :: syscall_queue_buffer
  meta :: queue_metadata
  desc :: "scf_descriptor list"
  req_ring :: "u16 list"
  rsp_ring :: "u16 list"

abbreviation (input) SYSCALL_QUEUE_BUFFER_MAGIC :: u32 where
  "SYSCALL_QUEUE_BUFFER_MAGIC \<equiv> 0x4643537f"

datatype ScfOpcode = Nop | Read | Write | Open | Close | Unknown

primrec opcode_u8 :: "ScfOpcode \<Rightarrow> u8" where
  "opcode_u8 Nop = 0"
| "opcode_u8 Read = 1"
| "opcode_u8 Write = 2"
| "opcode_u8 Open = 3"
| "opcode_u8 Close = 4"
| "opcode_u8 Unknown = 0xff"

text \<open>Indexing that panics, or leaves defined behaviour, out of range.\<close>

definition index_get :: "'a list \<Rightarrow> nat \<Rightarrow> 'a option" where
  "index_get xs k = (if k < length xs then Some (xs ! k) else None)"

definition index_set :: "'a list \<Rightarrow> nat \<Rightarrow> 'a \<Rightarrow> 'a list option" where
  "index_set xs k v = (if k < length xs then Some (xs[k := v]) else None)"

section \<open>The kernel's side\<close>

definition is_full :: "scf \<Rightarrow> bool" where
  "is_full s \<longleftrightarrow> free_count (kq s) = 0"

definition has_response :: "scf \<Rightarrow> bool" where
  "has_response s \<longleftrightarrow> rsp_index_last (kq s) \<noteq> rsp_index (meta s)"

primrec find_free_desc :: "nat \<Rightarrow> scf_descriptor list \<Rightarrow> u16 option" where
  "find_free_desc i [] = None"
| "find_free_desc i (e # es) = (if \<not> desc_valid e then Some (of_nat i) else find_free_desc (Suc i) es)"

definition find_free_desc_locked :: "scf \<Rightarrow> u16 option" where
  "find_free_desc_locked s = find_free_desc 0 (desc s)"

definition free_desc_locked :: "u16 \<Rightarrow> scf \<Rightarrow> scf option" where
  "free_desc_locked i s =
     (if \<not> i \<le> capacity_mask (kq s) then None
      else Option.bind (index_set (tokens (kq s)) (unat i) 0) (\<lambda>ts.
           Option.bind (index_get (desc s) (unat i)) (\<lambda>d.
           Some (s\<lparr>kq := (kq s)\<lparr>tokens := ts, free_count := free_count (kq s) + 1\<rparr>,
                   desc := (desc s)[unat i := d\<lparr>desc_valid := False\<rparr>]\<rparr>))))"

record ScfResponse =
  rsp_opcode :: u8
  rsp_token :: u64
  rsp_ret_val :: u64

definition pop_response_locked :: "scf \<Rightarrow> (ScfResponse option \<times> scf) option" where
  "pop_response_locked s =
     (if has_response s then
        Option.bind (index_get (rsp_ring s) (unat (rsp_index_last (kq s) AND capacity_mask (kq s)))) (\<lambda>i.
        let s1 = s\<lparr>kq := (kq s)\<lparr>rsp_index_last := rsp_index_last (kq s) + 1\<rparr>\<rparr> in
        if capacity_mask (kq s) < i then Some (None, s1)
        else
          Option.bind (index_get (desc s1) (unat i)) (\<lambda>entry.
          if \<not> desc_valid entry then Some (None, s1)
          else
            Option.bind (index_get (tokens (kq s1)) (unat i)) (\<lambda>tok.
            Option.bind (free_desc_locked i s1) (\<lambda>s2.
            Some (Some \<lparr>rsp_opcode = desc_opcode entry, rsp_token = tok,
                        rsp_ret_val = desc_ret_val entry\<rparr>, s2)))))
      else Some (None, s))"

definition send_locked :: "ScfOpcode \<Rightarrow> u64 \<Rightarrow> u64 \<Rightarrow> scf \<Rightarrow> (bool \<times> scf) option" where
  "send_locked op args tok s =
     (if is_full s then Some (False, s)
      else
        Option.bind (find_free_desc_locked s) (\<lambda>i.
        Option.bind (index_set (tokens (kq s)) (unat i) tok) (\<lambda>ts.
        Option.bind (index_set (desc s) (unat i)
            \<lparr>desc_valid = True, desc_opcode = opcode_u8 op, desc_args = args, desc_ret_val = 0\<rparr>) (\<lambda>ds.
        Option.bind (index_set (req_ring s)
            (unat (req_index_shadow (kq s) AND capacity_mask (kq s))) i) (\<lambda>ring.
        let sh = req_index_shadow (kq s) + 1 in
        Some (True, s\<lparr>kq := (kq s)\<lparr>tokens := ts, free_count := free_count (kq s) - 1,
                                    req_index_shadow := sh\<rparr>,
                      desc := ds, req_ring := ring, meta := (meta s)\<lparr>req_index := sh\<rparr>\<rparr>))))))"

text \<open>
  \<^verbatim>\<open>handle_irq\<close> takes responses until there is none and signals their tokens, which are the
  addresses of the waiting tasks' condition variables; a zero token is no condition variable.
  \<open>conds\<close> holds the variables, \<open>Some v\<close> once signalled with \<open>v\<close>.
\<close>

type_synonym conds = "u64 \<Rightarrow> u64 option"

lemma pop_response_moves:
  assumes "pop_response_locked s = Some (Some r, s')"
  shows "unat (rsp_index (meta s') - rsp_index_last (kq s')) < unat (rsp_index (meta s) - rsp_index_last (kq s))"
proof -
  have "rsp_index (meta s') = rsp_index (meta s)" "rsp_index_last (kq s') = rsp_index_last (kq s) + 1"
    and ne: "rsp_index_last (kq s) \<noteq> rsp_index (meta s)"
    using assms by (auto simp: pop_response_locked_def free_desc_locked_def has_response_def Let_def
        bind_eq_Some_conv split: if_split_asm)
  then have "rsp_index (meta s') - rsp_index_last (kq s') = rsp_index (meta s) - rsp_index_last (kq s) - 1"
    and "rsp_index (meta s) - rsp_index_last (kq s) \<noteq> 0" by simp_all
  then show ?thesis by (metis measure_unat)
qed

function handle_irq :: "scf \<Rightarrow> conds \<Rightarrow> (scf \<times> conds) option" where
  "handle_irq s conds =
     (case pop_response_locked s of
        None \<Rightarrow> None
      | Some (None, s1) \<Rightarrow> Some (s1, conds)
      | Some (Some r, s1) \<Rightarrow>
          handle_irq s1 (if 0 < rsp_token r then conds(rsp_token r \<mapsto> rsp_ret_val r) else conds))"
  by pat_completeness auto

termination
  by (relation "measure (\<lambda>(s, _). unat (rsp_index (meta s) - rsp_index_last (kq s)))")
     (auto dest: pop_response_moves)

declare handle_irq.simps [simp del]

section \<open>The side of the Linux process\<close>

datatype errno = EINVAL | EBUSY | ENOMEM | EEXIST

definition has_request :: "scf \<Rightarrow> bool" where
  "has_request s \<longleftrightarrow> req_index_last (cq s) \<noteq> req_index (meta s)"

definition pop_syscall_request :: "scf \<Rightarrow> ((errno + u16 \<times> scf_descriptor) \<times> scf) option" where
  "pop_syscall_request s =
     (if has_request s then
        Option.bind (index_get (req_ring s) (unat (req_index_last (cq s) AND c_capacity_mask (cq s)))) (\<lambda>idx.
        if c_capacity_mask (cq s) < idx then Some (Inl EINVAL, s)
        else
          Option.bind (index_get (desc s) (unat idx)) (\<lambda>d.
          Some (Inr (idx, d), s\<lparr>cq := (cq s)\<lparr>req_index_last := req_index_last (cq s) + 1\<rparr>\<rparr>)))
      else Some (Inl EBUSY, s))"

definition push_syscall_response :: "u16 \<Rightarrow> u64 \<Rightarrow> scf \<Rightarrow> (errno option \<times> scf) option" where
  "push_syscall_response i v s =
     (if c_capacity_mask (cq s) < i then Some (Some EINVAL, s)
      else
        Option.bind (index_get (desc s) (unat i)) (\<lambda>d.
        Option.bind (index_set (rsp_ring s)
            (unat (rsp_index_shadow (cq s) AND c_capacity_mask (cq s))) i) (\<lambda>ring.
        let sh = rsp_index_shadow (cq s) + 1 in
        Some (None, s\<lparr>cq := (cq s)\<lparr>rsp_index_shadow := sh\<rparr>,
                      desc := (desc s)[unat i := d\<lparr>desc_ret_val := v\<rparr>], rsp_ring := ring,
                      meta := (meta s)\<lparr>rsp_index := sh\<rparr>\<rparr>))))"

section \<open>Setting the queue up\<close>

text \<open>
  \<^verbatim>\<open>SyscallQueueBuffer::new\<close>: a metadata block of 12 bytes, descriptors of 24 bytes aligned
  to 8, and two rings of 2-byte entries. \<^verbatim>\<open>usize\<close> arithmetic is modulo \<open>2 ^ 64\<close>.
\<close>

definition align_up :: "u64 \<Rightarrow> u64 \<Rightarrow> u64" where
  "align_up addr alignment = (addr + alignment - 1) AND NOT (alignment - 1)"

definition powers_of_two :: "nat list" where
  "powers_of_two = map (\<lambda>k. 2 ^ k) [0..<64]"

definition is_power_of_two :: "nat \<Rightarrow> bool" where
  "is_power_of_two c \<longleftrightarrow> c \<in> set powers_of_two"

definition next_power_of_two :: "nat \<Rightarrow> nat" where
  "next_power_of_two c = hd (dropWhile (\<lambda>p. p < c) powers_of_two)"

definition queue_capacity :: "nat \<Rightarrow> nat" where
  "queue_capacity buf_size =
     (let meta_size = unat (align_up 12 8);
          c = (buf_size + 2 ^ 64 - meta_size) mod 2 ^ 64 div (24 + 2 * 2)
      in if is_power_of_two c then c else next_power_of_two (c div 2))"

record queue_layout =
  meta_base :: nat
  desc_base :: nat
  req_base :: nat
  rsp_base :: nat

definition rust_layout :: "nat \<Rightarrow> nat \<Rightarrow> queue_layout" where
  "rust_layout base c =
     (let db = base + unat (align_up 12 8); rq = db + c * 24
      in \<lparr>meta_base = base, desc_base = db, req_base = rq, rsp_base = rq + c * 2\<rparr>)"

text \<open>
  The contents of the memory beforehand are arguments; the process's variables are not
  touched.
\<close>

definition queue_new ::
    "nat \<Rightarrow> nat \<Rightarrow> (nat \<Rightarrow> scf_descriptor) \<Rightarrow> (nat \<Rightarrow> u16) \<Rightarrow> (nat \<Rightarrow> u16) \<Rightarrow> syscall_queue_buffer
      \<Rightarrow> scf option" where
  "queue_new base buf_size ds reqs rsps c =
     (let cap = queue_capacity buf_size
      in if cap = 0 \<or> 65535 \<le> cap \<or> base mod 4096 \<noteq> 0 then None
         else Some
           \<lparr>kq = \<lparr>free_count = of_nat cap, capacity_mask = of_nat cap - 1, req_index_shadow = 0,
                  rsp_index_last = 0, tokens = replicate cap 0\<rparr>,
            cq = c,
            meta = \<lparr>magic = SYSCALL_QUEUE_BUFFER_MAGIC, capacity = of_nat cap, req_index = 0,
                    rsp_index = 0\<rparr>,
            desc = map (\<lambda>k. (ds k)\<lparr>desc_valid := False\<rparr>) [0..<cap],
            req_ring = map reqs [0..<cap], rsp_ring = map rsps [0..<cap]\<rparr>)"

text \<open>
  The process maps the data buffer and the queue; the results of the two \<^verbatim>\<open>mmap\<close> calls are
  arguments, \<^const>\<open>None\<close> for \<^verbatim>\<open>MAP_FAILED\<close>. It checks the magic number and the capacity and
  computes its pointers.
\<close>

definition ALIGN_UP :: "u64 \<Rightarrow> u64 \<Rightarrow> u64" where
  "ALIGN_UP addr align = (addr + align - 1) AND NOT (align - 1)"

definition setup_layout :: "nat \<Rightarrow> u16 \<Rightarrow> queue_layout" where
  "setup_layout base c =
     (let db = base + unat (ALIGN_UP 12 8); rq = db + unat c * 24
      in \<lparr>meta_base = base, desc_base = db, req_base = rq, rsp_base = rq + unat c * 2\<rparr>)"

definition nimbos_setup_syscall_buffers ::
    "nat option \<Rightarrow> nat option \<Rightarrow> scf \<Rightarrow> (errno + queue_layout) \<times> scf" where
  "nimbos_setup_syscall_buffers data_base queue_base s =
     (case (data_base, queue_base) of
        (Some _, Some b) \<Rightarrow>
          let c = capacity (meta s) in
          if magic (meta s) \<noteq> SYSCALL_QUEUE_BUFFER_MAGIC then (Inl EINVAL, s)
          else if c = 0 \<or> c AND (c - 1) \<noteq> 0 then (Inl EINVAL, s)
          else (Inr (setup_layout b c),
                s\<lparr>cq := \<lparr>c_capacity_mask = c - 1, req_index_last = 0,
                         rsp_index_shadow = rsp_index (meta s)\<rparr>\<rparr>)
      | _ \<Rightarrow> (Inl ENOMEM, s))"

section \<open>The two sides together\<close>

text \<open>
  The process answers a request when the system call it stands for has been carried out,
  reads in threads of their own: \<open>workers\<close> are the descriptors taken from the queue and not
  yet answered. \<^verbatim>\<open>poll_requests\<close> acts on three opcodes and answers no other.
\<close>

record scf_system =
  queue :: scf
  workers :: "u16 set"

definition poll_handles :: "u8 \<Rightarrow> bool" where
  "poll_handles op \<longleftrightarrow> op = 1 \<or> op = 2 \<or> op = 5"

datatype scf_event =
    Send ScfOpcode u64 u64 bool
  | Forward u16 scf_descriptor
  | NoRequest errno
  | Answer u16 u64
  | Complete "ScfResponse option"

inductive scf_step :: "scf_system \<Rightarrow> scf_event \<Rightarrow> scf_system \<Rightarrow> bool" where
  send: "send_locked op args tok (queue s) = Some (r, q) \<Longrightarrow>
    scf_step s (Send op args tok r) (s\<lparr>queue := q\<rparr>)"
| forward: "pop_syscall_request (queue s) = Some (Inr (i, d), q) \<Longrightarrow>
    scf_step s (Forward i d)
      (s\<lparr>queue := q, workers := (if poll_handles (desc_opcode d) then insert i (workers s) else workers s)\<rparr>)"
| idle: "pop_syscall_request (queue s) = Some (Inl e, q) \<Longrightarrow> scf_step s (NoRequest e) (s\<lparr>queue := q\<rparr>)"
| answer: "i \<in> workers s \<Longrightarrow> push_syscall_response i v (queue s) = Some (r, q) \<Longrightarrow>
    scf_step s (Answer i v) (s\<lparr>queue := q, workers := workers s - {i}\<rparr>)"
| complete: "pop_response_locked (queue s) = Some (r, q) \<Longrightarrow> scf_step s (Complete r) (s\<lparr>queue := q\<rparr>)"

inductive_cases scf_stepE: "scf_step s ev s'"

text \<open>A run from the state the kernel and then the process set up, with its events.\<close>

definition scf_initial :: "nat \<Rightarrow> scf_system \<Rightarrow> bool" where
  "scf_initial buf_size s \<longleftrightarrow> (\<exists>base ds reqs rsps c q db qb lay.
     44 \<le> buf_size \<and> buf_size < 2 ^ 63 \<and> queue_new base buf_size ds reqs rsps c = Some q \<and>
     nimbos_setup_syscall_buffers (Some db) (Some qb) q = (Inr lay, queue s) \<and> workers s = {})"

inductive scf_run :: "nat \<Rightarrow> scf_system \<Rightarrow> scf_event list \<Rightarrow> scf_system \<Rightarrow> bool" for n where
  start: "scf_initial n s \<Longrightarrow> scf_run n s [] s"
| step: "scf_run n s0 evs s \<Longrightarrow> scf_step s ev s' \<Longrightarrow> scf_run n s0 (evs @ [ev]) s'"

end
