(* ===== verification/SCF_Refine.thy ===== *)
theory SCF_Refine
  imports SCF_Queue
begin

text \<open>
  What the forwarding queue promises: its rings with free-running 16-bit indices are bounded
  first-in first-out queues, the two sides together refine a specification without rings,
  counters and flags, no operation of the kernel panics and no access of the process leaves
  its arrays, and the answers reach the tasks that wait for them.
\<close>

section \<open>Rings\<close>

text \<open>
  The entries between the reading and the writing index of a ring of \<open>2 ^ k\<close> entries.
\<close>

definition ring_window :: "nat \<Rightarrow> u16 list \<Rightarrow> u16 \<Rightarrow> u16 \<Rightarrow> u16 list" where
  "ring_window k ring rd wr =
     map (\<lambda>j. ring ! ((unat rd + j) mod 2 ^ k)) [0..<unat (wr - rd)]"

lemma length_ring_window [simp]: "length (ring_window k ring rd wr) = unat (wr - rd)"
  by (simp add: ring_window_def)

lemma power_dvd_16: "k \<le> 15 \<Longrightarrow> (2 :: nat) ^ k dvd 2 ^ 16"
  by (rule le_imp_power_dvd) simp

lemma masked_index:
  fixes a :: u16
  assumes "k \<le> 15" "m = 2 ^ k - 1"
  shows "unat (a AND m) = unat a mod 2 ^ k"
proof -
  have "a AND m = take_bit k a"
    using assms(2) by (simp add: take_bit_eq_mask mask_eq_exp_minus_1)
  then show ?thesis by (simp only: unsigned_take_bit_eq) (simp add: take_bit_eq_mod)
qed

lemma advance_index:
  fixes a :: u16
  assumes "k \<le> 15"
  shows "unat (a + 1) mod 2 ^ k = (unat a + 1) mod 2 ^ k"
proof -
  have "(unat a + 1) mod 2 ^ 16 mod 2 ^ k = (unat a + 1) mod 2 ^ k"
    by (rule mod_mod_cancel [OF power_dvd_16 [OF assms]])
  then show ?thesis by (simp add: unat_word_ariths)
qed

lemma window_diff:
  fixes rd wr :: u16
  shows "unat wr mod 2 ^ 16 = (unat rd + unat (wr - rd)) mod 2 ^ 16"
proof -
  have "unat (rd + (wr - rd)) = (unat rd + unat (wr - rd)) mod 2 ^ 16"
    by (subst unat_word_ariths(1)) simp
  then show ?thesis by simp
qed

lemma mod_add_left_inj:
  fixes r j n c :: nat
  assumes "j < n" "n < c"
  shows "(r + j) mod c \<noteq> (r + n) mod c"
proof
  assume "(r + j) mod c = (r + n) mod c"
  then have "c dvd (r + n) - (r + j)" using assms(1) by (metis mod_eq_dvd_iff_nat add_le_cancel_left less_imp_le)
  then have "c dvd n - j" by simp
  then show False using assms by (simp add: nat_dvd_not_less)
qed

lemma ring_window_push:
  assumes k: "k \<le> 15" "length ring = 2 ^ k" and room: "unat (wr - rd) < 2 ^ k"
  shows "ring_window k (ring[unat wr mod 2 ^ k := x]) rd (wr + 1) = ring_window k ring rd wr @ [x]"
proof -
  let ?n = "unat (wr - rd)" and ?r = "unat rd"
  have "unat wr mod 2 ^ k = (?r + ?n) mod 2 ^ k"
    using arg_cong [OF window_diff [of wr rd], of "\<lambda>x. x mod 2 ^ k"] 
    by (simp only: mod_mod_cancel [OF power_dvd_16 [OF k(1)]])
  moreover have "unat (wr + 1 - rd) = Suc ?n"
  proof -
    have "?n < 2 ^ 15" using room k by (meson less_le_trans one_le_numeral power_increasing)
    then have "unat (wr - rd + 1) = Suc ?n" by (simp add: unat_word_ariths)
    then show ?thesis by (simp add: algebra_simps)
  qed
  moreover have "(?r + ?n) mod 2 ^ k \<noteq> (?r + j) mod 2 ^ k" if "j < ?n" for j
    using mod_add_left_inj [OF that room] by metis
  ultimately show ?thesis
    using k by (simp add: ring_window_def nth_list_update)
qed

lemma ring_window_pop:
  assumes "k \<le> 15" "rd \<noteq> wr"
  shows "ring_window k ring rd wr = ring ! (unat rd mod 2 ^ k) # ring_window k ring (rd + 1) wr"
proof -
  have nz: "wr - rd \<noteq> 0" using assms by simp
  have "unat (wr - rd - 1) = unat (wr - rd) - 1" by (rule unat_minus_one [OF nz])
  moreover have "wr - rd - 1 = wr - (rd + 1)" by simp
  moreover have "0 < unat (wr - rd)" using nz by (simp add: unat_gt_0)
  ultimately have n: "unat (wr - rd) = Suc (unat (wr - (rd + 1)))" by simp
  have "(unat rd + Suc j) mod 2 ^ k = (unat (rd + 1) + j) mod 2 ^ k" for j
    using mod_add_cong [OF advance_index [OF assms(1), of rd] refl, of j] by simp
  then show ?thesis
    unfolding ring_window_def n upt_conv_Cons [OF zero_less_Suc] map_Suc_upt [symmetric]
    by (simp add: o_def del: upt_Suc)
qed

lemma ring_window_empty [simp]: "ring_window k ring rd rd = []"
  by (simp add: ring_window_def)

section \<open>The specification\<close>

text \<open>
  Requests are known by a descriptor number below the capacity and wait in a queue, are with
  the process, or have an answer waiting in a second queue. A request the process does not
  act on is in none of the three any more but keeps its descriptor.
\<close>

record scf_spec =
  spec_capacity :: nat
  request :: "u16 \<Rightarrow> (u8 \<times> u64 \<times> u64) option"
  queued :: "u16 list"
  taken :: "u16 set"
  answered :: "(u16 \<times> u64) list"

definition spec_full :: "scf_spec \<Rightarrow> bool" where
  "spec_full a \<longleftrightarrow> (\<forall>i. unat i < spec_capacity a \<longrightarrow> request a i \<noteq> None)"

inductive scf_spec_step :: "scf_spec \<Rightarrow> scf_event \<Rightarrow> scf_spec \<Rightarrow> bool" where
  spec_send: "unat i < spec_capacity a \<Longrightarrow> request a i = None \<Longrightarrow>
    scf_spec_step a (Send op args tok True)
      (a\<lparr>request := (request a)(i \<mapsto> (opcode_u8 op, args, tok)), queued := queued a @ [i]\<rparr>)"
| spec_refuse: "spec_full a \<Longrightarrow> scf_spec_step a (Send op args tok False) a"
| spec_forward: "queued a = i # is \<Longrightarrow> request a i = Some (desc_opcode d, desc_args d, tok) \<Longrightarrow>
    scf_spec_step a (Forward i d)
      (a\<lparr>queued := is, taken := (if poll_handles (desc_opcode d) then insert i (taken a) else taken a)\<rparr>)"
| spec_idle: "queued a = [] \<Longrightarrow> scf_spec_step a (NoRequest EBUSY) a"
| spec_answer: "i \<in> taken a \<Longrightarrow>
    scf_spec_step a (Answer i v) (a\<lparr>taken := taken a - {i}, answered := answered a @ [(i, v)]\<rparr>)"
| spec_complete: "answered a = (i, v) # as \<Longrightarrow> request a i = Some (op, args, tok) \<Longrightarrow>
    scf_spec_step a (Complete (Some \<lparr>rsp_opcode = op, rsp_token = tok, rsp_ret_val = v\<rparr>))
      (a\<lparr>request := (request a)(i := None), answered := as\<rparr>)"
| spec_none: "answered a = [] \<Longrightarrow> scf_spec_step a (Complete None) a"

section \<open>Abstraction and invariant\<close>

definition req_slots :: "nat \<Rightarrow> scf \<Rightarrow> u16 list" where
  "req_slots k q = ring_window k (req_ring q) (req_index_last (cq q)) (req_index (meta q))"

definition rsp_slots :: "nat \<Rightarrow> scf \<Rightarrow> u16 list" where
  "rsp_slots k q = ring_window k (rsp_ring q) (rsp_index_last (kq q)) (rsp_index (meta q))"

definition desc_at :: "scf \<Rightarrow> u16 \<Rightarrow> scf_descriptor" where
  "desc_at q i = desc q ! unat i"

definition scf_request :: "nat \<Rightarrow> scf \<Rightarrow> u16 \<Rightarrow> (u8 \<times> u64 \<times> u64) option" where
  "scf_request k q i =
     (if unat i < 2 ^ k \<and> desc_valid (desc_at q i)
      then Some (desc_opcode (desc_at q i), desc_args (desc_at q i), tokens (kq q) ! unat i)
      else None)"

definition scf_abs :: "nat \<Rightarrow> scf_system \<Rightarrow> scf_spec" where
  "scf_abs k s =
     \<lparr>spec_capacity = 2 ^ k, request = scf_request k (queue s), queued = req_slots k (queue s),
      taken = workers s,
      answered = map (\<lambda>i. (i, desc_ret_val (desc_at (queue s) i))) (rsp_slots k (queue s))\<rparr>"

definition free_slots :: "scf \<Rightarrow> nat set" where
  "free_slots q = {j. j < length (desc q) \<and> \<not> desc_valid (desc q ! j)}"

definition scf_wf :: "nat \<Rightarrow> scf \<Rightarrow> bool" where
  "scf_wf k q \<longleftrightarrow> k \<le> 15 \<and> capacity_mask (kq q) = 2 ^ k - 1 \<and> c_capacity_mask (cq q) = 2 ^ k - 1 \<and>
     length (tokens (kq q)) = 2 ^ k \<and> length (desc q) = 2 ^ k \<and> length (req_ring q) = 2 ^ k \<and>
     length (rsp_ring q) = 2 ^ k \<and> req_index (meta q) = req_index_shadow (kq q) \<and>
     rsp_index (meta q) = rsp_index_shadow (cq q) \<and> unat (free_count (kq q)) = card (free_slots q)"

definition scf_inv :: "nat \<Rightarrow> scf_system \<Rightarrow> bool" where
  "scf_inv k s \<longleftrightarrow> scf_wf k (queue s) \<and> distinct (req_slots k (queue s) @ rsp_slots k (queue s)) \<and>
     workers s \<inter> (set (req_slots k (queue s)) \<union> set (rsp_slots k (queue s))) = {} \<and>
     (\<forall>i \<in> set (req_slots k (queue s)) \<union> set (rsp_slots k (queue s)) \<union> workers s.
        unat i < 2 ^ k \<and> desc_valid (desc_at (queue s) i))"

lemma slots_length:
  fixes xs :: "u16 list"
  assumes "distinct xs" "i \<notin> set xs" "\<forall>x \<in> insert i (set xs). unat x < c"
  shows "length xs < c"
proof -
  have "card (unat ` insert i (set xs)) \<le> card {..<c}"
    using assms(3) by (intro card_mono) auto
  moreover have "card (unat ` insert i (set xs)) = card (insert i (set xs))"
    by (rule card_image) (meson inj_onI word_unat_eq_iff)
  ultimately have "card (insert i (set xs)) \<le> c" by simp
  then show ?thesis using assms(1,2) by (simp add: distinct_card)
qed

lemma mask_le_iff:
  fixes i :: u16
  assumes "k \<le> 15"
  shows "i \<le> 2 ^ k - 1 \<longleftrightarrow> unat i < 2 ^ k"
proof -
  have "(2 :: nat) ^ k \<le> 2 ^ 15" using assms by (intro power_increasing) auto
  then have "unat (of_nat (2 ^ k - 1) :: u16) = 2 ^ k - 1" by (subst unat_of_nat) simp
  then have "unat (2 ^ k - 1 :: u16) = 2 ^ k - 1" by (simp add: of_nat_diff)
  moreover have "unat i \<le> 2 ^ k - 1 \<longleftrightarrow> unat i < 2 ^ k" 
    by (metis One_nat_def Suc_pred less_Suc_eq_le zero_less_numeral zero_less_power)
  ultimately show ?thesis by (simp add: word_le_nat_alt)
qed

lemma find_free_desc_some:
  assumes "j < length ds" "\<not> desc_valid (ds ! j)"
  shows "\<exists>i < length ds. find_free_desc n ds = Some (of_nat (n + i)) \<and> \<not> desc_valid (ds ! i)"
  using assms
proof (induction ds arbitrary: n j)
  case (Cons d ds)
  show ?case
  proof (cases "desc_valid d")
    case True
    then obtain j' where "j = Suc j'" using Cons.prems by (cases j) auto
    then obtain i where "i < length ds" "find_free_desc (Suc n) ds = Some (of_nat (Suc n + i))"
      "\<not> desc_valid (ds ! i)" using Cons.IH [of j' "Suc n"] Cons.prems by auto
    then show ?thesis using True by (intro exI [of _ "Suc i"]) simp
  qed (auto intro: exI [of _ 0])
qed simp

section \<open>The operations under the invariant\<close>

lemma wf_index:
  assumes "scf_wf k q"
  shows "unat (x AND capacity_mask (kq q)) = unat x mod 2 ^ k"
    "unat (x AND c_capacity_mask (cq q)) = unat x mod 2 ^ k"
    "i \<le> capacity_mask (kq q) \<longleftrightarrow> unat i < 2 ^ k" "i \<le> c_capacity_mask (cq q) \<longleftrightarrow> unat i < 2 ^ k"
  using assms by (simp_all add: scf_wf_def masked_index mask_le_iff)

lemma wf_in_range:
  assumes "scf_wf k q" "unat i < 2 ^ k"
  shows "\<not> capacity_mask (kq q) < i" "\<not> c_capacity_mask (cq q) < i"
  using wf_index(3,4) [OF assms(1), of i] assms(2) by (simp_all add: not_less)

lemma finite_free_slots [simp]: "finite (free_slots q)"
  by (simp add: free_slots_def)

lemma free_count_zero: "scf_wf k q \<Longrightarrow> free_count (kq q) = 0 \<longleftrightarrow> free_slots q = {}"
  by (metis scf_wf_def card_0_eq finite_free_slots unat_eq_zero unat_0)

text \<open>The state after a request went into the free descriptor \<open>i\<close>.\<close>

definition sent_state :: "u16 \<Rightarrow> ScfOpcode \<Rightarrow> u64 \<Rightarrow> u64 \<Rightarrow> scf \<Rightarrow> scf" where
  "sent_state i op args tok q =
     q\<lparr>kq := (kq q)\<lparr>tokens := (tokens (kq q))[unat i := tok], free_count := free_count (kq q) - 1,
                     req_index_shadow := req_index_shadow (kq q) + 1\<rparr>,
       desc := (desc q)[unat i :=
         \<lparr>desc_valid = True, desc_opcode = opcode_u8 op, desc_args = args, desc_ret_val = 0\<rparr>],
       req_ring := (req_ring q)[unat (req_index_shadow (kq q) AND capacity_mask (kq q)) := i],
       meta := (meta q)\<lparr>req_index := req_index_shadow (kq q) + 1\<rparr>\<rparr>"

lemma send_full:
  assumes "scf_wf k q" "free_slots q = {}"
  shows "send_locked op args tok q = Some (False, q)"
  using assms by (simp add: send_locked_def is_full_def free_count_zero)

lemma send_free:
  assumes wf: "scf_wf k q" and free: "free_slots q \<noteq> {}"
  obtains i where "unat i < 2 ^ k" "\<not> desc_valid (desc_at q i)"
    "send_locked op args tok q = Some (True, sent_state i op args tok q)"
proof -
  from free obtain j where "j < length (desc q)" "\<not> desc_valid (desc q ! j)"
    by (auto simp: free_slots_def)
  then obtain n where n: "n < length (desc q)" "find_free_desc 0 (desc q) = Some (of_nat n)"
    "\<not> desc_valid (desc q ! n)" using find_free_desc_some [of j "desc q" 0] by auto
  have len: "length (desc q) = 2 ^ k" "length (tokens (kq q)) = 2 ^ k" "length (req_ring q) = 2 ^ k" "k \<le> 15"
    using wf by (simp_all add: scf_wf_def)
  have "(2 :: nat) ^ k \<le> 2 ^ 15" using len(4) by (intro power_increasing) auto
  then have "unat (of_nat n :: u16) = n" using n(1) len(1) by (subst unat_of_nat) simp
  moreover have "free_count (kq q) \<noteq> 0" using free_count_zero [OF wf] free by simp
  ultimately show thesis
    using n len by (intro that [of "of_nat n"])
      (simp_all add: desc_at_def send_locked_def is_full_def find_free_desc_locked_def index_set_def
        sent_state_def wf_index [OF wf] Let_def)
qed

lemma sent_state_slots:
  assumes wf: "scf_wf k q" and room: "length (req_slots k q) < 2 ^ k"
  shows "req_slots k (sent_state i op args tok q) = req_slots k q @ [i]"
    "rsp_slots k (sent_state i op args tok q) = rsp_slots k q"
proof -
  have "req_index (meta q) = req_index_shadow (kq q)" "k \<le> 15" "length (req_ring q) = 2 ^ k"
    using wf by (simp_all add: scf_wf_def)
  then show "req_slots k (sent_state i op args tok q) = req_slots k q @ [i]"
    using ring_window_push [of k "req_ring q" "req_index_shadow (kq q)" "req_index_last (cq q)" i] room
    by (simp add: req_slots_def sent_state_def wf_index [OF wf])
qed (simp add: rsp_slots_def sent_state_def)

lemma sent_state_wf:
  assumes wf: "scf_wf k q" and i: "unat i < 2 ^ k" "\<not> desc_valid (desc_at q i)"
  shows "scf_wf k (sent_state i op args tok q)"
proof -
  have len: "length (desc q) = 2 ^ k" "unat (free_count (kq q)) = card (free_slots q)"
    using wf by (simp_all add: scf_wf_def)
  have mem: "unat i \<in> free_slots q" using i len by (simp add: free_slots_def desc_at_def)
  have "free_slots (sent_state i op args tok q) = free_slots q - {unat i}"
    using i len by (auto simp: free_slots_def sent_state_def nth_list_update)
  moreover have "unat (free_count (kq q) - 1) = card (free_slots q) - 1"
  proof -
    have "0 < card (free_slots q)" using mem by (auto simp: card_gt_0_iff)
    then have "free_count (kq q) \<noteq> 0" using len(2) by auto
    then show ?thesis using len(2) by (simp add: unat_minus_one)
  qed
  ultimately show ?thesis using wf mem by (simp add: scf_wf_def sent_state_def)
qed

lemma desc_at_sent:
  assumes "scf_wf k q" "unat i < 2 ^ k"
  shows "desc_at (sent_state i op args tok q) j =
    (if j = i then \<lparr>desc_valid = True, desc_opcode = opcode_u8 op, desc_args = args, desc_ret_val = 0\<rparr>
     else desc_at q j)"
  using assms by (simp add: desc_at_def sent_state_def scf_wf_def nth_list_update word_unat_eq_iff)

definition popped_state :: "scf \<Rightarrow> scf" where
  "popped_state q = q\<lparr>cq := (cq q)\<lparr>req_index_last := req_index_last (cq q) + 1\<rparr>\<rparr>"

lemma ring_window_Nil: "ring_window k ring rd wr = [] \<longleftrightarrow> rd = wr"
proof
  assume "ring_window k ring rd wr = []"
  then have "length (ring_window k ring rd wr) = 0" by simp
  then have "wr - rd = 0" by (simp only: length_ring_window unat_eq_zero)
  then show "rd = wr" by simp
qed simp

lemma slots_Nil:
  "req_slots k q = [] \<longleftrightarrow> \<not> has_request q" "rsp_slots k q = [] \<longleftrightarrow> \<not> has_response q"
  by (simp_all add: req_slots_def rsp_slots_def ring_window_Nil has_request_def has_response_def)

lemma pop_request_none: "req_slots k q = [] \<Longrightarrow> pop_syscall_request q = Some (Inl EBUSY, q)"
  by (simp add: slots_Nil pop_syscall_request_def)

lemma pop_request_some:
  assumes wf: "scf_wf k q" and slots: "req_slots k q = i # is" "unat i < 2 ^ k"
  shows "pop_syscall_request q = Some (Inr (i, desc_at q i), popped_state q)"
    "req_slots k (popped_state q) = is"
proof -
  have k: "k \<le> 15" "length (req_ring q) = 2 ^ k" "length (desc q) = 2 ^ k"
    using wf by (simp_all add: scf_wf_def)
  have ne: "req_index_last (cq q) \<noteq> req_index (meta q)" using slots(1) by (auto simp: req_slots_def)
  then have "ring_window k (req_ring q) (req_index_last (cq q)) (req_index (meta q)) =
      req_ring q ! (unat (req_index_last (cq q)) mod 2 ^ k) #
      ring_window k (req_ring q) (req_index_last (cq q) + 1) (req_index (meta q))"
    by (rule ring_window_pop [OF k(1)])
  then have "req_ring q ! (unat (req_index_last (cq q)) mod 2 ^ k) = i"
    "ring_window k (req_ring q) (req_index_last (cq q) + 1) (req_index (meta q)) = is"
    using slots(1) by (simp_all add: req_slots_def)
  then show "pop_syscall_request q = Some (Inr (i, desc_at q i), popped_state q)"
    "req_slots k (popped_state q) = is"
    using ne k slots(2) wf_in_range(2) [OF wf, of i]
    by (simp_all add: pop_syscall_request_def has_request_def index_get_def wf_index [OF wf]
        desc_at_def popped_state_def req_slots_def)
qed

lemma popped_state_rest:
  "rsp_slots k (popped_state q) = rsp_slots k q" "desc_at (popped_state q) = desc_at q"
  "scf_request k (popped_state q) = scf_request k q" "scf_wf k (popped_state q) = scf_wf k q"
  by (simp_all add: fun_eq_iff popped_state_def rsp_slots_def desc_at_def scf_request_def scf_wf_def free_slots_def)

definition answered_state :: "u16 \<Rightarrow> u64 \<Rightarrow> scf \<Rightarrow> scf" where
  "answered_state i v q =
     q\<lparr>cq := (cq q)\<lparr>rsp_index_shadow := rsp_index_shadow (cq q) + 1\<rparr>,
       desc := (desc q)[unat i := (desc q ! unat i)\<lparr>desc_ret_val := v\<rparr>],
       rsp_ring := (rsp_ring q)[unat (rsp_index_shadow (cq q) AND c_capacity_mask (cq q)) := i],
       meta := (meta q)\<lparr>rsp_index := rsp_index_shadow (cq q) + 1\<rparr>\<rparr>"

lemma push_response:
  assumes wf: "scf_wf k q" and i: "unat i < 2 ^ k"
  shows "push_syscall_response i v q = Some (None, answered_state i v q)"
proof -
  have "length (desc q) = 2 ^ k" "length (rsp_ring q) = 2 ^ k" using wf by (simp_all add: scf_wf_def)
  then show ?thesis
    using i wf_in_range(2) [OF wf i]
    by (simp add: push_syscall_response_def index_get_def index_set_def answered_state_def Let_def
        wf_index [OF wf])
qed

lemma desc_at_answered:
  assumes "scf_wf k q" "unat i < 2 ^ k"
  shows "desc_at (answered_state i v q) j =
    (if j = i then (desc_at q i)\<lparr>desc_ret_val := v\<rparr> else desc_at q j)"
  using assms by (simp add: desc_at_def answered_state_def scf_wf_def nth_list_update word_unat_eq_iff)

lemma answered_state_slots:
  assumes wf: "scf_wf k q" and room: "length (rsp_slots k q) < 2 ^ k"
  shows "rsp_slots k (answered_state i v q) = rsp_slots k q @ [i]"
    "req_slots k (answered_state i v q) = req_slots k q"
proof -
  have "rsp_index (meta q) = rsp_index_shadow (cq q)" "k \<le> 15" "length (rsp_ring q) = 2 ^ k"
    using wf by (simp_all add: scf_wf_def)
  then show "rsp_slots k (answered_state i v q) = rsp_slots k q @ [i]"
    using ring_window_push [of k "rsp_ring q" "rsp_index_shadow (cq q)" "rsp_index_last (kq q)" i] room
    by (simp add: rsp_slots_def answered_state_def wf_index [OF wf])
qed (simp add: req_slots_def answered_state_def)

lemma answered_state_wf:
  assumes wf: "scf_wf k q" and i: "unat i < 2 ^ k"
  shows "scf_wf k (answered_state i v q)"
proof -
  have "length (desc q) = 2 ^ k" using wf by (simp add: scf_wf_def)
  then have "free_slots (answered_state i v q) = free_slots q"
    using i by (auto simp: free_slots_def answered_state_def nth_list_update)
  then show ?thesis using wf by (simp add: scf_wf_def answered_state_def)
qed

lemma answered_state_request:
  "scf_wf k q \<Longrightarrow> unat i < 2 ^ k \<Longrightarrow> scf_request k (answered_state i v q) = scf_request k q"
  by (simp add: fun_eq_iff scf_request_def desc_at_answered) (simp add: answered_state_def)

definition completed_state :: "u16 \<Rightarrow> scf \<Rightarrow> scf" where
  "completed_state i q =
     q\<lparr>kq := (kq q)\<lparr>rsp_index_last := rsp_index_last (kq q) + 1, tokens := (tokens (kq q))[unat i := 0],
                     free_count := free_count (kq q) + 1\<rparr>,
       desc := (desc q)[unat i := (desc q ! unat i)\<lparr>desc_valid := False\<rparr>]\<rparr>"

lemma pop_response_none: "rsp_slots k q = [] \<Longrightarrow> pop_response_locked q = Some (None, q)"
  by (simp add: slots_Nil pop_response_locked_def)

lemma pop_response_some:
  assumes wf: "scf_wf k q" and slots: "rsp_slots k q = i # is" "unat i < 2 ^ k" "desc_valid (desc_at q i)"
  shows "pop_response_locked q = Some (Some \<lparr>rsp_opcode = desc_opcode (desc_at q i),
      rsp_token = tokens (kq q) ! unat i, rsp_ret_val = desc_ret_val (desc_at q i)\<rparr>, completed_state i q)"
    "rsp_slots k (completed_state i q) = is"
proof -
  have k: "k \<le> 15" "length (rsp_ring q) = 2 ^ k" "length (desc q) = 2 ^ k" "length (tokens (kq q)) = 2 ^ k"
    using wf by (simp_all add: scf_wf_def)
  have ne: "rsp_index_last (kq q) \<noteq> rsp_index (meta q)" using slots(1) by (auto simp: rsp_slots_def)
  then have "ring_window k (rsp_ring q) (rsp_index_last (kq q)) (rsp_index (meta q)) =
      rsp_ring q ! (unat (rsp_index_last (kq q)) mod 2 ^ k) #
      ring_window k (rsp_ring q) (rsp_index_last (kq q) + 1) (rsp_index (meta q))"
    by (rule ring_window_pop [OF k(1)])
  then have "rsp_ring q ! (unat (rsp_index_last (kq q)) mod 2 ^ k) = i"
    "ring_window k (rsp_ring q) (rsp_index_last (kq q) + 1) (rsp_index (meta q)) = is"
    using slots(1) by (simp_all add: rsp_slots_def)
  then show "pop_response_locked q = Some (Some \<lparr>rsp_opcode = desc_opcode (desc_at q i),
      rsp_token = tokens (kq q) ! unat i, rsp_ret_val = desc_ret_val (desc_at q i)\<rparr>, completed_state i q)"
    "rsp_slots k (completed_state i q) = is"
    using ne k slots(2,3) wf_in_range(1) [OF wf slots(2)]
    by (simp_all add: pop_response_locked_def has_response_def index_get_def index_set_def wf_index [OF wf]
        desc_at_def completed_state_def rsp_slots_def free_desc_locked_def Let_def not_less)
qed

lemma desc_at_completed:
  assumes "scf_wf k q" "unat i < 2 ^ k"
  shows "desc_at (completed_state i q) j =
    (if j = i then (desc_at q i)\<lparr>desc_valid := False\<rparr> else desc_at q j)"
  using assms by (simp add: desc_at_def completed_state_def scf_wf_def nth_list_update word_unat_eq_iff)

lemma completed_state_wf:
  assumes wf: "scf_wf k q" and i: "unat i < 2 ^ k" "desc_valid (desc_at q i)"
  shows "scf_wf k (completed_state i q)"
proof -
  have len: "length (desc q) = 2 ^ k" "unat (free_count (kq q)) = card (free_slots q)" "k \<le> 15"
    using wf by (simp_all add: scf_wf_def)
  have new: "unat i \<notin> free_slots q" using i by (simp add: free_slots_def desc_at_def)
  have eq: "free_slots (completed_state i q) = insert (unat i) (free_slots q)"
    using i len by (auto simp: free_slots_def completed_state_def nth_list_update)
  have "card (free_slots q) \<le> card {..<length (desc q)}" by (rule card_mono) (auto simp: free_slots_def)
  also have "\<dots> \<le> 2 ^ 15" unfolding len(1) card_lessThan using len(3) by (intro power_increasing) auto
  finally have "unat (free_count (kq q) + 1) = Suc (card (free_slots q))"
    using len(2) by (simp add: unat_word_ariths)
  then have "unat (free_count (kq q) + 1) = card (free_slots (completed_state i q))"
    using new by (simp add: eq)
  then show ?thesis using wf by (simp add: scf_wf_def completed_state_def)
qed

lemma completed_state_request:
  assumes "scf_wf k q" "unat i < 2 ^ k"
  shows "scf_request k (completed_state i q) = (scf_request k q)(i := None)"
proof
  fix j
  have "tokens (kq (completed_state i q)) ! unat j = tokens (kq q) ! unat j" if "j \<noteq> i"
    using that by (simp add: completed_state_def nth_list_update word_unat_eq_iff)
  then show "scf_request k (completed_state i q) j = ((scf_request k q)(i := None)) j"
    using assms by (simp add: scf_request_def desc_at_completed)
qed

lemma sent_state_request:
  assumes wf: "scf_wf k q" and i: "unat i < 2 ^ k"
  shows "scf_request k (sent_state i op args tok q) = (scf_request k q)(i \<mapsto> (opcode_u8 op, args, tok))"
proof
  fix j
  have "length (tokens (kq q)) = 2 ^ k" using wf by (simp add: scf_wf_def)
  then have "tokens (kq (sent_state i op args tok q)) ! unat j = (if j = i then tok else tokens (kq q) ! unat j)"
    using i by (simp add: sent_state_def nth_list_update word_unat_eq_iff)
  then show "scf_request k (sent_state i op args tok q) j = ((scf_request k q)(i \<mapsto> (opcode_u8 op, args, tok))) j"
    using assms by (cases "j = i") (simp_all add: scf_request_def desc_at_sent)
qed

lemma completed_state_req_slots: "req_slots k (completed_state i q) = req_slots k q"
  by (simp add: req_slots_def completed_state_def)

section \<open>Simulation\<close>

lemma scf_inv_wf: "scf_inv k s \<Longrightarrow> scf_wf k (queue s)"
  by (simp add: scf_inv_def)

lemma scf_inv_req:
  assumes "scf_inv k s" "i \<in> set (req_slots k (queue s)) \<union> set (rsp_slots k (queue s)) \<union> workers s"
  shows "unat i < 2 ^ k" "desc_valid (desc_at (queue s) i)"
  using assms unfolding scf_inv_def by blast+

lemma scf_sim_send:
  assumes inv: "scf_inv k s" and run: "send_locked op args tok (queue s) = Some (r, q)"
  shows "scf_inv k (s\<lparr>queue := q\<rparr>) \<and>
    scf_spec_step (scf_abs k s) (Send op args tok r) (scf_abs k (s\<lparr>queue := q\<rparr>))"
proof (cases "free_slots (queue s) = {}")
  case True
  have "unat i < 2 ^ k \<Longrightarrow> desc_valid (desc_at (queue s) i)" for i
    using True scf_inv_wf [OF inv] by (auto simp: free_slots_def scf_wf_def desc_at_def)
  then have "spec_full (scf_abs k s)" by (simp add: spec_full_def scf_abs_def scf_request_def)
  moreover have "r = False" "s\<lparr>queue := q\<rparr> = s" using run send_full [OF scf_inv_wf [OF inv] True] by simp_all
  ultimately show ?thesis using inv by (simp add: spec_refuse)
next
  case False
  note wf = scf_inv_wf [OF inv]
  obtain i where i: "unat i < 2 ^ k" "\<not> desc_valid (desc_at (queue s) i)"
    and eq: "r = True" "q = sent_state i op args tok (queue s)"
    using send_free [OF wf False, of op args tok] run by (metis option.inject prod.inject)
  let ?Q = "req_slots k (queue s)" and ?R = "rsp_slots k (queue s)"
  have new: "i \<notin> set ?Q \<union> set ?R \<union> workers s" using i(2) scf_inv_req(2) [OF inv] by blast
  have "length ?Q < 2 ^ k"
    by (rule slots_length) (use inv i new in \<open>auto simp: scf_inv_def\<close>)
  note slots = sent_state_slots [OF wf this, of i op args tok, folded eq(2)]
  note at = desc_at_sent [OF wf i(1), of op args tok, folded eq(2)]
  have "scf_inv k (s\<lparr>queue := q\<rparr>)"
    using inv new i(1) sent_state_wf [OF wf i, of op args tok]
    by (auto simp: scf_inv_def slots at eq(2)[symmetric])
  moreover have "scf_abs k (s\<lparr>queue := q\<rparr>) = (scf_abs k s)\<lparr>request := (request (scf_abs k s))(i \<mapsto> (opcode_u8 op, args, tok)),
      queued := queued (scf_abs k s) @ [i]\<rparr>"
    using new sent_state_request [OF wf i(1), of op args tok, folded eq(2)]
    by (auto simp: scf_abs_def slots at)
  moreover have "unat i < spec_capacity (scf_abs k s)" "request (scf_abs k s) i = None"
    using i by (simp_all add: scf_abs_def scf_request_def)
  ultimately show ?thesis using spec_send [of i "scf_abs k s" op args tok] eq(1) by simp
qed

lemma scf_sim_idle:
  assumes inv: "scf_inv k s" and run: "pop_syscall_request (queue s) = Some (Inl e, q)"
  shows "scf_inv k (s\<lparr>queue := q\<rparr>) \<and> scf_spec_step (scf_abs k s) (NoRequest e) (scf_abs k (s\<lparr>queue := q\<rparr>))"
proof (cases "req_slots k (queue s)")
  case Nil
  then have "e = EBUSY" "s\<lparr>queue := q\<rparr> = s" using run pop_request_none [OF Nil] by simp_all
  then show ?thesis using inv Nil by (simp add: spec_idle scf_abs_def)
next
  case (Cons i "is")
  then show ?thesis
    using run pop_request_some(1) [OF scf_inv_wf [OF inv] Cons] scf_inv_req(1) [OF inv, of i] by simp
qed

lemma scf_sim_forward:
  assumes inv: "scf_inv k s" and run: "pop_syscall_request (queue s) = Some (Inr (i, d), q)"
    and s': "s' = s\<lparr>queue := q, workers := (if poll_handles (desc_opcode d) then insert i (workers s) else workers s)\<rparr>"
  shows "scf_inv k s' \<and> scf_spec_step (scf_abs k s) (Forward i d) (scf_abs k s')"
proof (cases "req_slots k (queue s)")
  case Nil
  then show ?thesis using run pop_request_none [OF Nil] by simp
next
  case (Cons j "is")
  have j: "unat j < 2 ^ k" "desc_valid (desc_at (queue s) j)" using scf_inv_req [OF inv, of j] Cons by simp_all
  note pop = pop_request_some [OF scf_inv_wf [OF inv] Cons j(1)]
  have eq: "i = j" "d = desc_at (queue s) j" "q = popped_state (queue s)" using run pop(1) by auto
  have "scf_inv k s'"
    using inv Cons j by (auto simp: scf_inv_def s' eq pop(2) popped_state_rest)
  moreover have "scf_abs k s' = (scf_abs k s)\<lparr>queued := is,
      taken := (if poll_handles (desc_opcode d) then insert i (taken (scf_abs k s)) else taken (scf_abs k s))\<rparr>"
    by (simp add: scf_abs_def s' eq pop(2) popped_state_rest)
  moreover have "queued (scf_abs k s) = i # is"
    "request (scf_abs k s) i = Some (desc_opcode d, desc_args d, tokens (kq (queue s)) ! unat i)"
    using Cons j by (simp_all add: scf_abs_def eq scf_request_def)
  ultimately show ?thesis using spec_forward by metis
qed

lemma scf_sim_answer:
  assumes inv: "scf_inv k s" and i: "i \<in> workers s"
    and run: "push_syscall_response i v (queue s) = Some (r, q)"
    and s': "s' = s\<lparr>queue := q, workers := workers s - {i}\<rparr>"
  shows "scf_inv k s' \<and> scf_spec_step (scf_abs k s) (Answer i v) (scf_abs k s')"
proof -
  note wf = scf_inv_wf [OF inv]
  let ?R = "rsp_slots k (queue s)"
  have v: "unat i < 2 ^ k" "desc_valid (desc_at (queue s) i)" using scf_inv_req [OF inv, of i] i by simp_all
  have q: "q = answered_state i v (queue s)" using run push_response [OF wf v(1), of v] by simp
  have new: "i \<notin> set ?R" "i \<notin> set (req_slots k (queue s))" using inv i by (auto simp: scf_inv_def)
  have "length ?R < 2 ^ k"
    by (rule slots_length) (use inv v new in \<open>auto simp: scf_inv_def\<close>)
  note slots = answered_state_slots [OF wf this, of i v, folded q]
  note at = desc_at_answered [OF wf v(1), of v, folded q]
  have "scf_inv k s'"
    using inv new v answered_state_wf [OF wf v(1), of v] by (auto simp: scf_inv_def s' slots at q[symmetric])
  moreover have "scf_abs k s' = (scf_abs k s)\<lparr>taken := taken (scf_abs k s) - {i},
      answered := answered (scf_abs k s) @ [(i, v)]\<rparr>"
    using new answered_state_request [OF wf v(1), of v, folded q] by (auto simp: scf_abs_def s' slots at)
  moreover have "i \<in> taken (scf_abs k s)" using i by (simp add: scf_abs_def)
  ultimately show ?thesis using spec_answer by metis
qed

lemma scf_sim_complete:
  assumes inv: "scf_inv k s" and run: "pop_response_locked (queue s) = Some (r, q)"
  shows "scf_inv k (s\<lparr>queue := q\<rparr>) \<and> scf_spec_step (scf_abs k s) (Complete r) (scf_abs k (s\<lparr>queue := q\<rparr>))"
proof (cases "rsp_slots k (queue s)")
  case Nil
  then have "r = None" "s\<lparr>queue := q\<rparr> = s" using run pop_response_none [OF Nil] by simp_all
  then show ?thesis using inv Nil by (simp add: spec_none scf_abs_def)
next
  case (Cons i "is")
  note wf = scf_inv_wf [OF inv]
  let ?d = "desc_at (queue s) i"
  have v: "unat i < 2 ^ k" "desc_valid ?d" using scf_inv_req [OF inv, of i] Cons by simp_all
  note pop = pop_response_some [OF wf Cons v]
  have eq: "r = Some \<lparr>rsp_opcode = desc_opcode ?d, rsp_token = tokens (kq (queue s)) ! unat i,
      rsp_ret_val = desc_ret_val ?d\<rparr>" "q = completed_state i (queue s)"
    using run pop(1) by simp_all
  have gone: "i \<notin> set is" "i \<notin> set (req_slots k (queue s))" "i \<notin> workers s"
    using inv Cons by (auto simp: scf_inv_def)
  note at = desc_at_completed [OF wf v(1), folded eq(2)] pop(2) [folded eq(2)]
    completed_state_req_slots [of k i "queue s", folded eq(2)]
  have "scf_inv k (s\<lparr>queue := q\<rparr>)"
    using inv gone Cons completed_state_wf [OF wf v] by (auto simp: scf_inv_def at eq(2)[symmetric])
  moreover have "scf_abs k (s\<lparr>queue := q\<rparr>) = (scf_abs k s)\<lparr>request := (request (scf_abs k s))(i := None),
      answered := map (\<lambda>i. (i, desc_ret_val (desc_at (queue s) i))) is\<rparr>"
    using gone completed_state_request [OF wf v(1), folded eq(2)] by (auto simp: scf_abs_def at)
  moreover have items: "answered (scf_abs k s) = (i, desc_ret_val ?d) # map (\<lambda>i. (i, desc_ret_val (desc_at (queue s) i))) is"
    "request (scf_abs k s) i = Some (desc_opcode ?d, desc_args ?d, tokens (kq (queue s)) ! unat i)"
    using Cons v by (simp_all add: scf_abs_def scf_request_def)
  ultimately show ?thesis using spec_complete [OF items] unfolding eq(1) by simp
qed

lemma scf_simulation:
  assumes "scf_inv k s" "scf_step s ev s'"
  shows "scf_inv k s' \<and> scf_spec_step (scf_abs k s) ev (scf_abs k s')"
  using assms(2)
proof cases
  case (send op args tok r q)
  then show ?thesis using scf_sim_send [OF assms(1)] by simp
next
  case (forward i d q)
  then show ?thesis using scf_sim_forward [OF assms(1)] by blast
next
  case (idle e q)
  then show ?thesis using scf_sim_idle [OF assms(1)] by simp
next
  case (answer i v r q)
  then show ?thesis using scf_sim_answer [OF assms(1)] by blast
next
  case (complete r q)
  then show ?thesis using scf_sim_complete [OF assms(1)] by simp
qed

section \<open>The initial state\<close>

lemma next_power_of_two_least:
  assumes "0 < c" "c \<le> 2 ^ 63"
  shows "\<exists>j. next_power_of_two c = 2 ^ j \<and> c \<le> 2 ^ j \<and> 2 ^ j < 2 * c"
proof -
  define j where "j = (LEAST j. c \<le> 2 ^ j)"
  have j: "c \<le> 2 ^ j" and below: "i < j \<Longrightarrow> 2 ^ i < c" for i
    using LeastI [of "\<lambda>j. c \<le> 2 ^ j" 63] not_less_Least [of i "\<lambda>j. c \<le> 2 ^ j"] assms(2)
    by (auto simp: j_def not_le)
  have "j \<le> 63" using assms(2) unfolding j_def by (rule Least_le)
  then have d: "(64 :: nat) = j + Suc (63 - j)" by simp
  have "[0..<64] = [0..<j] @ j # [Suc j..<64]"
    by (subst d, subst upt_add_eq_append [OF le0]) (use d in \<open>simp add: upt_conv_Cons\<close>)
  then have pw: "powers_of_two = map (\<lambda>k. 2 ^ k) [0..<j] @ 2 ^ j # map (\<lambda>k. 2 ^ k) [Suc j..<64]"
    unfolding powers_of_two_def by (simp only: map_append list.map)
  have "next_power_of_two c = 2 ^ j"
    unfolding next_power_of_two_def pw using j below by (subst dropWhile_append2) auto
  moreover have "2 ^ j < 2 * c"
    using assms(1) below [of "j - 1"] by (cases j) auto
  ultimately show ?thesis using j by blast
qed

lemma queue_capacity_power:
  assumes "44 \<le> n" "n < 2 ^ 63"
  shows "\<exists>k. queue_capacity n = 2 ^ k \<and> 16 + 28 * 2 ^ k \<le> n"
proof -
  define c where "c = (n - 16) div 28"
  have "28 * c \<le> n - 16" by (simp add: c_def)
  then have c: "0 < c" "16 + 28 * c \<le> n" "c < 2 ^ 63" using assms by (auto simp: c_def)
  have "n + 2 ^ 64 - 16 = (n - 16) + 2 ^ 64" using assms(1) by simp
  then have "(n + 2 ^ 64 - 16) mod 2 ^ 64 = n - 16"
    using assms(2) by (simp only: mod_add_self2) simp
  then have cap: "queue_capacity n = (if is_power_of_two c then c else next_power_of_two (c div 2))"
    by (simp add: queue_capacity_def align_up_def c_def)
  show ?thesis
  proof (cases "is_power_of_two c")
    case True
    then obtain k where "c = 2 ^ k" by (auto simp: is_power_of_two_def powers_of_two_def)
    then show ?thesis using cap True c by (intro exI [of _ k]) auto
  next
    case False
    have "(2 :: nat) ^ 0 \<in> set powers_of_two" 
      unfolding powers_of_two_def set_map by (rule imageI) simp
    then have "c \<noteq> 1" using False by (auto simp: is_power_of_two_def)
    then have "0 < c div 2" "c div 2 \<le> 2 ^ 63" using c by auto
    then obtain j where j: "next_power_of_two (c div 2) = 2 ^ j" "2 ^ j < 2 * (c div 2)"
      using next_power_of_two_least by blast
    then have "2 ^ j \<le> c" by simp
    then show ?thesis using cap False c j by (intro exI [of _ j]) auto
  qed
qed

lemma queue_new_some:
  assumes "queue_new base n ds reqs rsps c = Some q" "44 \<le> n" "n < 2 ^ 63"
  obtains k where "k \<le> 15" "queue_capacity n = 2 ^ k" "16 + 28 * 2 ^ k \<le> n"
    "capacity (meta q) = 2 ^ k" "magic (meta q) = SYSCALL_QUEUE_BUFFER_MAGIC"
    "req_index (meta q) = 0" "rsp_index (meta q) = 0"
    "kq q = \<lparr>free_count = 2 ^ k, capacity_mask = 2 ^ k - 1, req_index_shadow = 0, rsp_index_last = 0,
       tokens = replicate (2 ^ k) 0\<rparr>"
    "length (desc q) = 2 ^ k" "length (req_ring q) = 2 ^ k" "length (rsp_ring q) = 2 ^ k"
    "\<And>j. j < 2 ^ k \<Longrightarrow> \<not> desc_valid (desc q ! j)"
proof -
  obtain k where k: "queue_capacity n = 2 ^ k" "16 + 28 * 2 ^ k \<le> n"
    using queue_capacity_power [OF assms(2,3)] by blast
  have "\<not> 16 \<le> k"
  proof
    assume "16 \<le> k"
    then have "(2 :: nat) ^ 16 \<le> 2 ^ k" by (intro power_increasing) auto
    then show False using assms(1) k(1) by (simp add: queue_new_def Let_def split: if_split_asm)
  qed
  then have "k \<le> 15" by simp
  then show thesis
    using assms(1) k by (intro that [of k]) (auto simp: queue_new_def Let_def split: if_split_asm)
qed

lemma power_of_two_word:
  assumes "k \<le> 15"
  shows "(2 ^ k :: u16) \<noteq> 0" "(2 ^ k :: u16) AND (2 ^ k - 1) = 0" "unat (2 ^ k :: u16) = 2 ^ k"
proof -
  have "(2 :: nat) ^ k \<le> 2 ^ 15" using assms by (intro power_increasing) auto
  then have "unat (of_nat (2 ^ k) :: u16) = 2 ^ k" by (subst unat_of_nat) simp
  then show u: "unat (2 ^ k :: u16) = 2 ^ k" by simp
  then show "(2 ^ k :: u16) \<noteq> 0" by (metis unat_0 power_not_zero zero_neq_numeral)
  have "(2 ^ k :: u16) AND mask k = 0" by (rule bit_word_eqI) (simp add: bit_simps)
  then show "(2 ^ k :: u16) AND (2 ^ k - 1) = 0" by (simp add: mask_eq_exp_minus_1)
qed

lemma setup_after_new:
  assumes "k \<le> 15" "capacity (meta q) = 2 ^ k" "magic (meta q) = SYSCALL_QUEUE_BUFFER_MAGIC"
  shows "nimbos_setup_syscall_buffers (Some d) (Some b) q =
    (Inr (rust_layout b (2 ^ k)), q\<lparr>cq := \<lparr>c_capacity_mask = 2 ^ k - 1, req_index_last = 0,
       rsp_index_shadow = rsp_index (meta q)\<rparr>\<rparr>)"
  using assms power_of_two_word [OF assms(1)]
  by (simp add: nimbos_setup_syscall_buffers_def Let_def setup_layout_def rust_layout_def align_up_def
      ALIGN_UP_def)

lemma scf_initial_inv:
  assumes "scf_initial n s"
  obtains k where "queue_capacity n = 2 ^ k" "scf_inv k s"
    "scf_abs k s = \<lparr>spec_capacity = queue_capacity n, request = (\<lambda>_. None), queued = [], taken = {}, answered = []\<rparr>"
proof -
  obtain base ds reqs rsps c q db qb lay where n: "44 \<le> n" "n < 2 ^ 63"
    and new: "queue_new base n ds reqs rsps c = Some q"
    and su: "nimbos_setup_syscall_buffers (Some db) (Some qb) q = (Inr lay, queue s)" "workers s = {}"
    using assms unfolding scf_initial_def by blast
  obtain k where k: "k \<le> 15" "queue_capacity n = 2 ^ k" "16 + 28 * 2 ^ k \<le> n"
    "capacity (meta q) = 2 ^ k" "magic (meta q) = SYSCALL_QUEUE_BUFFER_MAGIC"
    "req_index (meta q) = 0" "rsp_index (meta q) = 0"
    "kq q = \<lparr>free_count = 2 ^ k, capacity_mask = 2 ^ k - 1, req_index_shadow = 0, rsp_index_last = 0,
       tokens = replicate (2 ^ k) 0\<rparr>"
    "length (desc q) = 2 ^ k" "length (req_ring q) = 2 ^ k" "length (rsp_ring q) = 2 ^ k"
    "\<And>j. j < 2 ^ k \<Longrightarrow> \<not> desc_valid (desc q ! j)"
    using queue_new_some [OF new n] by metis
  have s: "queue s = q\<lparr>cq := \<lparr>c_capacity_mask = 2 ^ k - 1, req_index_last = 0, rsp_index_shadow = 0\<rparr>\<rparr>"
    using su(1) setup_after_new [OF k(1,4,5)] k(7) by simp
  have slots: "req_slots k (queue s) = []" "rsp_slots k (queue s) = []"
    by (simp_all add: s req_slots_def rsp_slots_def k)
  have "free_slots (queue s) = {..<2 ^ k}" using k(9,12) by (auto simp: s free_slots_def)
  then have "scf_wf k (queue s)"
    by (simp add: scf_wf_def s k(1,6,7,8,9,10,11) power_of_two_word [OF k(1)])
  then have "scf_inv k s" by (simp add: scf_inv_def slots su(2))
  moreover have "scf_request k (queue s) i = None" for i
    using k(12) [of "unat i"] by (simp add: scf_request_def desc_at_def s)
  ultimately show thesis
    using k(2) slots su(2) by (intro that [of k]) (auto simp: scf_abs_def)
qed

lemma scf_run_inv:
  assumes "scf_run n s0 evs s"
  obtains k where "queue_capacity n = 2 ^ k" "scf_inv k s0" "scf_inv k s"
proof -
  from assms have "\<exists>k. queue_capacity n = 2 ^ k \<and> scf_inv k s0 \<and> scf_inv k s"
  proof induction
    case (start s)
    then show ?case using scf_initial_inv by metis
  next
    case (step s0 evs s ev s')
    then show ?case using scf_simulation by blast
  qed
  then show thesis using that by blast
qed

section \<open>Order of requests and answers\<close>

text \<open>
  A step relation whose states hold a queue: each event puts items in at the end and takes
  items out at the front. Over a run nothing is lost, doubled or overtaken.
\<close>

primrec run_of :: "('s \<Rightarrow> 'e \<Rightarrow> 's \<Rightarrow> bool) \<Rightarrow> 's \<Rightarrow> 'e list \<Rightarrow> 's \<Rightarrow> bool" where
  "run_of step s [] s' \<longleftrightarrow> s' = s"
| "run_of step s (e # es) s' \<longleftrightarrow> (\<exists>s1. step s e s1 \<and> run_of step s1 es s')"

lemma run_of_snoc: "run_of step s (es @ [e]) s' \<longleftrightarrow> (\<exists>s1. run_of step s es s1 \<and> step s1 e s')"
  by (induction es arbitrary: s) auto

locale fifo_trace =
  fixes inv :: "'s \<Rightarrow> bool"
    and step :: "'s \<Rightarrow> 'e \<Rightarrow> 's \<Rightarrow> bool"
    and items :: "'s \<Rightarrow> 'i list"
    and ins outs :: "'e \<Rightarrow> 'i list"
  assumes step_inv: "inv s \<Longrightarrow> step s e s' \<Longrightarrow> inv s'"
    and step_fifo: "inv s \<Longrightarrow> step s e s' \<Longrightarrow> items s @ ins e = outs e @ items s'"
begin

lemma run_fifo:
  "inv s \<Longrightarrow> run_of step s es s' \<Longrightarrow>
    inv s' \<and> items s @ concat (map ins es) = concat (map outs es) @ items s'"
proof (induction es arbitrary: s)
  case (Cons e es)
  from Cons.prems(2) obtain s1 where s1: "step s e s1" "run_of step s1 es s'" by auto
  note first = step_fifo [OF Cons.prems(1) s1(1)]
  have rest: "inv s'" "items s1 @ concat (map ins es) = concat (map outs es) @ items s'"
    using Cons.IH [OF step_inv [OF Cons.prems(1) s1(1)] s1(2)] by auto
  have "(items s @ ins e) @ concat (map ins es) = outs e @ (items s1 @ concat (map ins es))"
    by (simp only: first append_assoc)
  then show ?case using rest by simp
qed simp

end

fun sent :: "scf_event \<Rightarrow> (u8 \<times> u64) list" where
  "sent (Send op args tok True) = [(opcode_u8 op, args)]"
| "sent _ = []"

fun forwarded :: "scf_event \<Rightarrow> (u8 \<times> u64) list" where
  "forwarded (Forward i d) = [(desc_opcode d, desc_args d)]"
| "forwarded _ = []"

fun answers :: "scf_event \<Rightarrow> u64 list" where
  "answers (Answer i v) = [v]"
| "answers _ = []"

fun completions :: "scf_event \<Rightarrow> u64 list" where
  "completions (Complete (Some r)) = [rsp_ret_val r]"
| "completions _ = []"

definition waiting_requests :: "scf_spec \<Rightarrow> (u8 \<times> u64) list" where
  "waiting_requests a = map (\<lambda>i. case request a i of Some (op, args, _) \<Rightarrow> (op, args) | None \<Rightarrow> (0, 0)) (queued a)"

lemma scf_abs_slots:
  assumes "scf_inv k s"
  shows "i \<in> set (queued (scf_abs k s)) \<Longrightarrow> request (scf_abs k s) i \<noteq> None"
    "(i, v) \<in> set (answered (scf_abs k s)) \<Longrightarrow> i \<notin> set (queued (scf_abs k s))"
  using assms by (auto simp: scf_inv_def scf_abs_def scf_request_def)

lemma waiting_requests_step:
  assumes inv: "scf_inv k s" and "scf_step s e s'"
  shows "waiting_requests (scf_abs k s) @ sent e = forwarded e @ waiting_requests (scf_abs k s')"
proof -
  have "scf_spec_step (scf_abs k s) e (scf_abs k s')" using scf_simulation [OF assms] by simp
  then show ?thesis
  proof cases
    case (spec_send i op args tok)
    then show ?thesis using scf_abs_slots(1) [OF inv, of i] by (auto simp: waiting_requests_def)
  next
    case (spec_complete i v as op args tok)
    then show ?thesis using scf_abs_slots(2) [OF inv, of i v] by (auto simp: waiting_requests_def)
  qed (auto simp: waiting_requests_def)
qed

interpretation requests: fifo_trace "scf_inv k" scf_step "\<lambda>s. waiting_requests (scf_abs k s)" sent forwarded
  for k
  by unfold_locales (use scf_simulation waiting_requests_step in blast)+

interpretation responses: fifo_trace "scf_inv k" scf_step "\<lambda>s. map snd (answered (scf_abs k s))" answers completions
  for k
proof unfold_locales
  fix s e s'
  assume "scf_inv k s" "scf_step s e s'"
  then have "scf_spec_step (scf_abs k s) e (scf_abs k s')" using scf_simulation by blast
  then show "map snd (answered (scf_abs k s)) @ answers e = completions e @ map snd (answered (scf_abs k s'))"
    by cases auto
qed (use scf_simulation in blast)

lemma scf_run_run_of: "scf_run n s0 evs s \<Longrightarrow> scf_initial n s0 \<and> run_of scf_step s0 evs s"
  by (induction rule: scf_run.induct) (auto simp: run_of_snoc)

lemma slots_bounded:
  assumes "scf_inv k s"
  shows "length (req_slots k (queue s)) \<le> 2 ^ k \<and> length (rsp_slots k (queue s)) \<le> 2 ^ k"
proof -
  have "length xs \<le> 2 ^ k" if d: "distinct xs" "\<forall>x \<in> set xs. unat x < 2 ^ k" for xs :: "u16 list"
  proof (cases xs)
    case (Cons x ys)
    then have "length ys < 2 ^ k" using d by (intro slots_length [of ys x]) auto
    then show ?thesis using Cons by simp
  qed simp
  then show ?thesis using assms by (auto simp: scf_inv_def)
qed

section \<open>The completion handler\<close>

lemma handle_irq_inv:
  assumes "scf_inv k s"
  shows "\<exists>q. \<not> has_response q \<and> handle_irq (queue s) conds =
    Some (q, fold (\<lambda>(t, v) c. if 0 < t then c(t \<mapsto> v) else c)
      (map (\<lambda>(i, v). (snd (snd (the (request (scf_abs k s) i))), v)) (answered (scf_abs k s))) conds)"
  using assms
proof (induction "rsp_slots k (queue s)" arbitrary: s conds)
  case Nil
  then have none: "pop_response_locked (queue s) = Some (None, queue s)"
    using pop_response_none [of k "queue s"] by simp
  show ?case
    using Nil none slots_Nil(2) [of k "queue s"]
    by (subst handle_irq.simps) (simp add: scf_abs_def)
next
  case (Cons i "is")
  note slots = Cons.hyps(2) [symmetric] and inv = Cons.prems
  let ?q = "completed_state i (queue s)" and ?t = "tokens (kq (queue s)) ! unat i"
    and ?v = "desc_ret_val (desc_at (queue s) i)"
  have v: "unat i < 2 ^ k" "desc_valid (desc_at (queue s) i)"
    using scf_inv_req [OF inv, of i] slots by simp_all
  note pop = pop_response_some [OF scf_inv_wf [OF inv] slots v]
  have inv': "scf_inv k (s\<lparr>queue := ?q\<rparr>)" using scf_sim_complete [OF inv pop(1)] by simp
  have req: "request (scf_abs k s) j = Some (desc_opcode (desc_at (queue s) j), desc_args (desc_at (queue s) j),
      tokens (kq (queue s)) ! unat j)" if "j \<in> set (rsp_slots k (queue s))" for j
    using scf_inv_req [OF inv, of j] that by (simp add: scf_abs_def scf_request_def)
  have gone: "i \<notin> set is" using inv slots by (auto simp: scf_inv_def)
  have same: "map (\<lambda>(i, v). (snd (snd (the (request (scf_abs k (s\<lparr>queue := ?q\<rparr>)) i))), v)) (answered (scf_abs k (s\<lparr>queue := ?q\<rparr>)))
      = map (\<lambda>(i, v). (snd (snd (the (request (scf_abs k s) i))), v))
          (map (\<lambda>i. (i, desc_ret_val (desc_at (queue s) i))) is)"
    using gone completed_state_request [OF scf_inv_wf [OF inv] v(1)] desc_at_completed [OF scf_inv_wf [OF inv] v(1)]
    by (auto simp: scf_abs_def pop(2))
  have items: "answered (scf_abs k s) = (i, ?v) # map (\<lambda>i. (i, desc_ret_val (desc_at (queue s) i))) is"
    by (simp add: scf_abs_def slots)
  have tok: "snd (snd (the (request (scf_abs k s) i))) = ?t" using req [of i] slots by simp
  let ?c = "if 0 < ?t then conds(?t \<mapsto> ?v) else conds"
  obtain q where q: "\<not> has_response q" "handle_irq ?q ?c = Some (q, fold (\<lambda>(t, v) c. if 0 < t then c(t \<mapsto> v) else c)
      (map (\<lambda>(i, v). (snd (snd (the (request (scf_abs k s) i))), v))
          (map (\<lambda>i. (i, desc_ret_val (desc_at (queue s) i))) is)) ?c)"
    using Cons.hyps(1) [OF _ inv', of ?c] pop(2) unfolding same by auto
  have "handle_irq (queue s) conds = handle_irq ?q ?c" by (subst handle_irq.simps) (simp add: pop(1))
  also note q(2)
  finally show ?case
    using q(1) by (intro exI [of _ q]) (simp only: items list.map fold_simps prod.case tok simp_thms)
qed

end
