(* ===== verification/SCF_Properties.thy ===== *)
theory SCF_Properties
  imports SCF_Refine
begin

text \<open>
  The properties of the system-call forwarding queue: refinement of the specification,
  freedom from panics, order of delivery, completion of the waiting tasks and the layout
  both sides compute.
\<close>

section \<open>An example run\<close>

text \<open>A queue of two descriptors; one read request is sent, forwarded and answered with 7.\<close>

definition ex_queue :: "u16 \<Rightarrow> u16 \<Rightarrow> u16 \<Rightarrow> u64 list \<Rightarrow> scf_descriptor list \<Rightarrow> u16 list \<Rightarrow> u16 list \<Rightarrow> scf" where
  "ex_queue sent_n popped_n answered_n ts ds rq rs =
     \<lparr>kq = \<lparr>free_count = 2 - sent_n, capacity_mask = 1, req_index_shadow = sent_n, rsp_index_last = 0,
            tokens = ts\<rparr>,
      cq = \<lparr>c_capacity_mask = 1, req_index_last = popped_n, rsp_index_shadow = answered_n\<rparr>,
      meta = \<lparr>magic = SYSCALL_QUEUE_BUFFER_MAGIC, capacity = 2, req_index = sent_n, rsp_index = answered_n\<rparr>,
      desc = ds, req_ring = rq, rsp_ring = rs\<rparr>"

definition ex_desc :: "u64 \<Rightarrow> scf_descriptor" where
  "ex_desc r = \<lparr>desc_valid = True, desc_opcode = 1, desc_args = 0x10, desc_ret_val = r\<rparr>"

definition ex_unused :: scf_descriptor where
  "ex_unused = \<lparr>desc_valid = False, desc_opcode = 9, desc_args = 9, desc_ret_val = 9\<rparr>"

definition ex0 :: scf_system where
  "ex0 = \<lparr>queue = ex_queue 0 0 0 [0, 0] [ex_unused, ex_unused] [9, 9] [9, 9], workers = {}\<rparr>"

definition ex1 :: scf_system where
  "ex1 = \<lparr>queue = ex_queue 1 0 0 [0x99, 0] [ex_desc 0, ex_unused] [0, 9] [9, 9], workers = {}\<rparr>"

definition ex2 :: scf_system where
  "ex2 = \<lparr>queue = ex_queue 1 1 0 [0x99, 0] [ex_desc 0, ex_unused] [0, 9] [9, 9], workers = {0}\<rparr>"

definition ex3 :: scf_system where
  "ex3 = \<lparr>queue = ex_queue 1 1 1 [0x99, 0] [ex_desc 7, ex_unused] [0, 9] [0, 9], workers = {}\<rparr>"

lemmas ex_defs = ex0_def ex1_def ex2_def ex3_def ex_queue_def ex_desc_def ex_unused_def

lemma capacity_72: "queue_capacity 72 = 2"
proof -
  have "(2 :: nat) ^ 1 \<in> set powers_of_two" unfolding powers_of_two_def set_map by (rule imageI) simp
  then show ?thesis by (simp add: queue_capacity_def align_up_def is_power_of_two_def)
qed

lemma ex_new:
  "queue_new 0 72 (\<lambda>_. ex_unused) (\<lambda>_. 9) (\<lambda>_. 9) (cq (queue ex0)) = Some (queue ex0)"
  by (simp add: queue_new_def capacity_72 ex_defs upt_rec numeral_2_eq_2)

lemma scf_initialI:
  assumes "44 \<le> n" "n < 2 ^ 63" "queue_new base n ds reqs rsps c = Some q"
    "nimbos_setup_syscall_buffers (Some db) (Some qb) q = (Inr lay, queue s)" "workers s = {}"
  shows "scf_initial n s"
  using assms unfolding scf_initial_def by blast

lemma ex_initial: "scf_initial 72 ex0"
proof -
  have "nimbos_setup_syscall_buffers (Some 0) (Some 0) (queue ex0) = (Inr (setup_layout 0 2), queue ex0)"
    by (simp add: nimbos_setup_syscall_buffers_def ex_defs)
  from scf_initialI [OF _ _ ex_new this] show ?thesis by (simp add: ex0_def)
qed

lemma ex_steps:
  "scf_step ex0 (Send Read 0x10 0x99 True) ex1"
  "scf_step ex1 (Forward 0 (ex_desc 0)) ex2"
  "scf_step ex2 (Answer 0 7) ex3"
proof -
  have "send_locked Read 0x10 0x99 (queue ex0) = Some (True, queue ex1)"
    by (simp add: send_locked_def is_full_def find_free_desc_locked_def index_set_def ex_defs)
  then have "scf_step ex0 (Send Read 0x10 0x99 True) (ex0\<lparr>queue := queue ex1\<rparr>)" by (rule scf_step.send)
  then show "scf_step ex0 (Send Read 0x10 0x99 True) ex1" by (simp add: ex0_def ex1_def)
  have "pop_syscall_request (queue ex1) = Some (Inr (0, ex_desc 0), queue ex2)"
    by (simp add: pop_syscall_request_def has_request_def index_get_def ex_defs)
  then have "scf_step ex1 (Forward 0 (ex_desc 0)) (ex1\<lparr>queue := queue ex2, workers := (if poll_handles
      (desc_opcode (ex_desc 0)) then insert 0 (workers ex1) else workers ex1)\<rparr>)" by (rule scf_step.forward)
  then show "scf_step ex1 (Forward 0 (ex_desc 0)) ex2" by (simp add: ex1_def ex2_def ex_desc_def poll_handles_def)
  have "0 \<in> workers ex2" by (simp add: ex2_def)
  moreover have "push_syscall_response 0 7 (queue ex2) = Some (None, queue ex3)"
    by (simp add: push_syscall_response_def index_get_def index_set_def ex_defs)
  ultimately have "scf_step ex2 (Answer 0 7) (ex2\<lparr>queue := queue ex3, workers := workers ex2 - {0}\<rparr>)"
    by (rule scf_step.answer)
  then show "scf_step ex2 (Answer 0 7) ex3" by (simp add: ex2_def ex3_def)
qed

lemmas ex_run1 = scf_run.step [OF scf_run.start [OF ex_initial] ex_steps(1), unfolded append.simps]
lemmas ex_run2 = scf_run.step [OF ex_run1 ex_steps(2), unfolded append.simps]
lemmas ex_run3 = scf_run.step [OF ex_run2 ex_steps(3), unfolded append.simps]

section \<open>Properties\<close>

text \<open>
  C2: Refinement. Whatever the kernel and the process did since the queue was set up, each
  further operation of either side is a step of the specification, in which requests and
  answers move between two queues and a set, without rings, wrapping 16-bit indices, masks,
  valid flags or a free counter.
\<close>

theorem scf_refines:
  assumes "scf_run n s0 evs s" "scf_step s ev s'"
  shows "\<exists>k. queue_capacity n = 2 ^ k \<and> scf_spec_step (scf_abs k s) ev (scf_abs k s')"
  using scf_run_inv [OF assms(1)] scf_simulation [OF _ assms(2)] by metis

theorem scf_refines_witness:
  "\<exists>k. queue_capacity 72 = 2 ^ k \<and> scf_spec_step (scf_abs k ex2) (Answer 0 7) (scf_abs k ex3)"
  by (rule scf_refines [OF ex_run2 ex_steps(3)])

text \<open>
  C15: No operation goes wrong. In every reachable state the kernel's operations return (no
  failed \<^verbatim>\<open>unwrap\<close>, assertion or index check), a response that is there is returned and not
  discarded as invalid, sending fails only when every descriptor is in use, and the process
  stays inside its arrays and never sees an invalid descriptor number.
\<close>

theorem scf_operations_defined:
  assumes "scf_run n s0 evs s"
  shows "(\<exists>r q. send_locked op args tok (queue s) = Some (r, q) \<and> (r \<longleftrightarrow> free_slots (queue s) \<noteq> {})) \<and>
    (\<exists>r q. pop_response_locked (queue s) = Some (r, q) \<and> (r \<noteq> None \<longleftrightarrow> has_response (queue s))) \<and>
    (\<exists>r q. pop_syscall_request (queue s) = Some (r, q) \<and> r \<noteq> Inl EINVAL \<and>
       (isl r \<longleftrightarrow> \<not> has_request (queue s))) \<and>
    (i \<in> workers s \<longrightarrow> (\<exists>q. push_syscall_response i v (queue s) = Some (None, q)))"
proof -
  obtain k where inv: "scf_inv k s" using scf_run_inv [OF assms] by metis
  note wf = scf_inv_wf [OF inv]
  have "\<exists>r q. send_locked op args tok (queue s) = Some (r, q) \<and> (r \<longleftrightarrow> free_slots (queue s) \<noteq> {})"
    using send_full [OF wf] send_free [OF wf] by (cases "free_slots (queue s) = {}") (blast, metis)
  moreover have "\<exists>r q. pop_response_locked (queue s) = Some (r, q) \<and> (r \<noteq> None \<longleftrightarrow> has_response (queue s))"
  proof (cases "rsp_slots k (queue s)")
    case Nil
    then show ?thesis using pop_response_none [OF Nil] by (simp add: slots_Nil)
  next
    case (Cons j "is")
    then show ?thesis using pop_response_some(1) [OF wf Cons] scf_inv_req [OF inv, of j]
      by (auto simp: has_response_def rsp_slots_def)
  qed
  moreover have "\<exists>r q. pop_syscall_request (queue s) = Some (r, q) \<and> r \<noteq> Inl EINVAL \<and>
      (isl r \<longleftrightarrow> \<not> has_request (queue s))"
  proof (cases "req_slots k (queue s)")
    case Nil
    then show ?thesis using pop_request_none [OF Nil] by (simp add: slots_Nil)
  next
    case (Cons j "is")
    then show ?thesis using pop_request_some(1) [OF wf Cons] scf_inv_req(1) [OF inv, of j]
      by (auto simp: has_request_def req_slots_def)
  qed
  moreover have "i \<in> workers s \<longrightarrow> (\<exists>q. push_syscall_response i v (queue s) = Some (None, q))"
    using push_response [OF wf] scf_inv_req(1) [OF inv, of i] by auto
  ultimately show ?thesis by blast
qed

theorem scf_operations_defined_witness:
  "\<exists>r q. pop_response_locked (queue ex3) = Some (r, q) \<and> r \<noteq> None"
  using scf_operations_defined [OF ex_run3, of Read 0 0 0 0] by (auto simp: has_response_def ex_defs)



text \<open>
  C17: Completion. Run in any reachable state, the kernel's handler returns, leaves no response
  in the queue and signals, in the order of the answers, exactly the condition variables of
  the answered requests with the values they were answered with.
\<close>

theorem handle_irq_signals:
  assumes "scf_run n s0 evs s"
  shows "\<exists>k q. queue_capacity n = 2 ^ k \<and> \<not> has_response q \<and> handle_irq (queue s) conds =
    Some (q, fold (\<lambda>(t, v) c. if 0 < t then c(t \<mapsto> v) else c)
      (map (\<lambda>(i, v). (snd (snd (the (request (scf_abs k s) i))), v)) (answered (scf_abs k s))) conds)"
proof -
  obtain k where k: "queue_capacity n = 2 ^ k" "scf_inv k s" using scf_run_inv [OF assms] by metis
  then show ?thesis using handle_irq_inv [OF k(2), of conds] by blast
qed

theorem handle_irq_signals_witness:
  "\<exists>q. \<not> has_response q \<and> handle_irq (queue ex3) Map.empty = Some (q, [0x99 \<mapsto> 7])"
proof -
  obtain k q where k: "queue_capacity 72 = 2 ^ k" "\<not> has_response q"
    "handle_irq (queue ex3) Map.empty = Some (q, fold (\<lambda>(t, v) c. if 0 < t then c(t \<mapsto> v) else c)
      (map (\<lambda>(i, v). (snd (snd (the (request (scf_abs k ex3) i))), v)) (answered (scf_abs k ex3))) Map.empty)"
    using handle_irq_signals [OF ex_run3] by blast
  have "(2 :: nat) ^ k = 2 ^ 1" using k(1) capacity_72 by simp
  then have "k = 1" using power_inject_exp [of "2 :: nat" k 1] by (metis one_less_numeral_iff semiring_norm(76))
  then have "answered (scf_abs k ex3) = [(0, 7)]" "request (scf_abs k ex3) 0 = Some (1, 0x10, 0x99)"
    by (simp_all add: scf_abs_def rsp_slots_def ring_window_def scf_request_def desc_at_def ex_defs)
  then show ?thesis using k(2,3) by simp
qed



end
