(* ===== verification/SCF_Lock.thy ===== *)
theory SCF_Lock
  imports Prelude
begin

text \<open>
  The spin lock in the metadata of the forwarding queue, taken by the kernel with interrupts
  off (\<^verbatim>\<open>nimbos/kernel/src/sync/spin.rs\<close>) and by the threads of the Linux process
  (\<^verbatim>\<open>nimbos-driver/apps/include/spin_lock.h\<close>), at the granularity of its atomic operations.
  The main thread of the process also enters it from the handler of the signal the driver
  sends, on top of whatever the thread was doing.
\<close>

section \<open>Atomic steps\<close>

text \<open>
  A call of \<^verbatim>\<open>spin_lock\<close> is about to try the compare-exchange, waits for the lock to look
  free, or has the lock. Each agent has a stack of calls, the innermost first: the kernel is
  agent 0, the main thread agent 1, and the reader threads are the others.
\<close>

datatype lock_pc = Trying | Spinning | Critical

record lock_state =
  locked :: bool
  calls :: "nat \<Rightarrow> lock_pc list"

abbreviation (input) kernel_agent :: nat where "kernel_agent \<equiv> 0"
abbreviation (input) main_thread :: nat where "main_thread \<equiv> 1"

text \<open>The strong compare-exchange of \<^verbatim>\<open>false\<close> by \<^verbatim>\<open>true\<close>: whether it succeeded and the lock after it.\<close>

definition compare_exchange :: "bool \<Rightarrow> bool \<times> bool" where
  "compare_exchange l = (if \<not> l then (True, True) else (False, l))"

definition spin_try :: "nat \<Rightarrow> lock_pc list \<Rightarrow> lock_state \<Rightarrow> lock_state" where
  "spin_try a cs s =
     (let (ok, l) = compare_exchange (locked s)
      in s\<lparr>locked := l, calls := (calls s)(a := (if ok then Critical else Spinning) # cs)\<rparr>)"

definition spin_wait :: "nat \<Rightarrow> lock_pc list \<Rightarrow> lock_state \<Rightarrow> lock_state" where
  "spin_wait a cs s = s\<lparr>calls := (calls s)(a := (if locked s then Spinning else Trying) # cs)\<rparr>"

definition spin_unlock :: "nat \<Rightarrow> lock_pc list \<Rightarrow> lock_state \<Rightarrow> lock_state" where
  "spin_unlock a cs s = s\<lparr>locked := False, calls := (calls s)(a := cs)\<rparr>"

text \<open>
  The kernel's compare-exchange is the weak one, which may fail on a free lock. The signal is
  blocked while its handler runs, so the main thread's stack has at most two calls.
\<close>

inductive lock_step :: "lock_state \<Rightarrow> lock_state \<Rightarrow> bool" where
  call: "calls s a = [] \<Longrightarrow> lock_step s (s\<lparr>calls := (calls s)(a := [Trying])\<rparr>)"
| signal: "calls s main_thread = [c] \<Longrightarrow> lock_step s (s\<lparr>calls := (calls s)(main_thread := [Trying, c])\<rparr>)"
| attempt: "calls s a = Trying # cs \<Longrightarrow> lock_step s (spin_try a cs s)"
| weak: "calls s kernel_agent = Trying # cs \<Longrightarrow>
    lock_step s (s\<lparr>calls := (calls s)(kernel_agent := Spinning # cs)\<rparr>)"
| wait: "calls s a = Spinning # cs \<Longrightarrow> lock_step s (spin_wait a cs s)"
| unlock: "calls s a = Critical # cs \<Longrightarrow> lock_step s (spin_unlock a cs s)"

definition lock_initial :: lock_state where
  "lock_initial = \<lparr>locked = False, calls = (\<lambda>_. [])\<rparr>"

inductive lock_reach :: "lock_state \<Rightarrow> lock_state \<Rightarrow> bool" for s0 where
  here: "lock_reach s0 s0"
| more: "lock_reach s0 s \<Longrightarrow> lock_step s s' \<Longrightarrow> lock_reach s0 s'"

section \<open>Mutual exclusion\<close>

text \<open>The number of calls of an agent that have the lock.\<close>

definition holding :: "lock_state \<Rightarrow> nat \<Rightarrow> nat" where
  "holding s a = length (filter (\<lambda>c. c = Critical) (calls s a))"

definition lock_inv :: "lock_state \<Rightarrow> bool" where
  "lock_inv s \<longleftrightarrow> (\<exists>a. holding s = (\<lambda>_. 0)(a := (if locked s then 1 else 0)))"

lemma lock_inv_zero: "lock_inv s \<Longrightarrow> \<not> locked s \<Longrightarrow> holding s = (\<lambda>_. 0)"
  by (auto simp: lock_inv_def)

lemma lock_inv_same: "lock_inv s \<Longrightarrow> holding s' = holding s \<Longrightarrow> locked s' = locked s \<Longrightarrow> lock_inv s'"
  by (simp add: lock_inv_def)

lemma lock_inv_step:
  assumes "lock_step s s'" "lock_inv s"
  shows "lock_inv s'"
  using assms
proof cases
  case (attempt a cs)
  show ?thesis
  proof (cases "locked s")
    case True
    then have "holding s' = holding s" "locked s'"
      using attempt by (auto simp: spin_try_def compare_exchange_def holding_def)
    then show ?thesis using assms(2) True by (simp add: lock_inv_def)
  next
    case False
    have zero: "holding s b = 0" for b using lock_inv_zero [OF assms(2) False] by simp
    have "holding s' = (holding s)(a := 1)" "locked s'"
      using attempt False zero [of a] by (auto simp: spin_try_def compare_exchange_def holding_def)
    then show ?thesis using lock_inv_zero [OF assms(2) False] unfolding lock_inv_def by auto
  qed
next
  case (unlock a cs)
  have "holding s' = (holding s)(a := holding s a - 1)" "\<not> locked s'" "0 < holding s a"
    using unlock by (auto simp: spin_unlock_def holding_def)
  moreover obtain b where "holding s = (\<lambda>_. 0)(b := (if locked s then 1 else 0))"
    using assms(2) by (auto simp: lock_inv_def)
  ultimately have "holding s' = (\<lambda>_. 0)" by (auto split: if_split_asm)
  then show ?thesis using \<open>\<not> locked s'\<close> by (simp add: lock_inv_def fun_eq_iff)
next
  case (wait a cs)
  then show ?thesis by (intro lock_inv_same [OF assms(2)]) (auto simp: spin_wait_def holding_def)
next
  case (call a)
  then show ?thesis by (intro lock_inv_same [OF assms(2)]) (auto simp: holding_def)
next
  case (signal c)
  then show ?thesis by (intro lock_inv_same [OF assms(2)]) (auto simp: holding_def)
next
  case (weak cs)
  then show ?thesis by (intro lock_inv_same [OF assms(2)]) (auto simp: holding_def)
qed

lemma lock_reach_inv_from: "lock_reach s0 s \<Longrightarrow> lock_inv s0 \<Longrightarrow> lock_inv s"
  by (induction rule: lock_reach.induct) (auto intro: lock_inv_step)

lemma lock_reach_inv: "lock_reach lock_initial s \<Longrightarrow> lock_inv s"
  by (erule lock_reach_inv_from) (simp add: lock_inv_def lock_initial_def holding_def fun_eq_iff)

text \<open>
  C14: Mutual exclusion. At every point of every interleaving of the kernel, the main thread
  with its signal handler and the reader threads, a call that holds the lock is the only one,
  and the lock word is set.
\<close>

theorem lock_mutual_exclusion:
  assumes "lock_reach lock_initial s" "i < length (calls s a)" "calls s a ! i = Critical"
  shows "locked s \<and> (\<forall>b j. j < length (calls s b) \<and> calls s b ! j = Critical \<longrightarrow> b = a \<and> j = i)"
proof -
  have pos: "0 < holding s b" if "j < length (calls s b)" "calls s b ! j = Critical" for b j
  proof -
    have "Critical \<in> set (calls s b)" using that by (metis nth_mem)
    then show ?thesis by (auto simp: holding_def filter_empty_conv)
  qed
  obtain c where c: "holding s = (\<lambda>_. 0)(c := (if locked s then 1 else 0))"
    using lock_reach_inv [OF assms(1)] by (auto simp: lock_inv_def)
  have a: "locked s" "holding s a = 1" "b \<noteq> a \<Longrightarrow> holding s b = 0" for b
    using pos [OF assms(2,3)] by (auto simp: c split: if_split_asm)
  have "j = i" if j: "j < length (calls s a)" "calls s a ! j = Critical" for j
  proof -
    let ?J = "{j. j < length (calls s a) \<and> calls s a ! j = Critical}"
    have "card ?J = 1" using a(2) by (simp add: holding_def length_filter_conv_card)
    then obtain x where "?J = {x}" by (elim card_1_singletonE)
    moreover have "i \<in> ?J" "j \<in> ?J" using assms(2,3) j by simp_all
    ultimately show ?thesis by (simp only: singleton_iff)
  qed
  moreover have "b = a" if "j < length (calls s b)" "calls s b ! j = Critical" for b j
    using pos [OF that] a(3) [of b] by (cases "b = a") auto
  ultimately show ?thesis using a(1) by blast
qed

text \<open>The main thread, interrupted by the signal while it has the lock.\<close>

definition lock_example :: lock_state where
  "lock_example = \<lparr>locked = True, calls = (\<lambda>_. [])(main_thread := [Trying, Critical])\<rparr>"

lemma lock_example_reach: "lock_reach lock_initial lock_example"
proof -
  let ?s1 = "lock_initial\<lparr>calls := (calls lock_initial)(main_thread := [Trying])\<rparr>"
  have "lock_reach lock_initial ?s1"
    by (rule lock_reach.more [OF lock_reach.here lock_step.call]) (simp add: lock_initial_def)
  then have "lock_reach lock_initial (spin_try main_thread [] ?s1)"
    by (rule lock_reach.more [OF _ lock_step.attempt]) simp
  then have "lock_reach lock_initial ((spin_try main_thread [] ?s1)\<lparr>calls := (calls (spin_try main_thread [] ?s1))
      (main_thread := [Trying, Critical])\<rparr>)"
    by (rule lock_reach.more [OF _ lock_step.signal]) (simp add: spin_try_def compare_exchange_def lock_initial_def)
  then show ?thesis by (simp add: lock_example_def spin_try_def compare_exchange_def lock_initial_def)
qed

theorem lock_mutual_exclusion_witness:
  "locked lock_example \<and> calls lock_example main_thread ! 0 \<noteq> Critical"
proof -
  have "1 < length (calls lock_example main_thread)" "calls lock_example main_thread ! 1 = Critical"
    by (simp_all add: lock_example_def)
  note holder = lock_mutual_exclusion [OF lock_example_reach this]
  have "0 < length (calls lock_example main_thread)" by (simp add: lock_example_def)
  then show ?thesis using holder by force
qed

text \<open>
  The lock is not safe against the signal handler: once the signal arrives while the main
  thread holds the lock, the handler's attempt never succeeds and nobody gets the lock again.
\<close>

theorem lock_signal_deadlock:
  assumes "lock_reach lock_example s"
  shows "locked s \<and> (calls s main_thread = [Trying, Critical] \<or> calls s main_thread = [Spinning, Critical])"
  using assms
proof (induction rule: lock_reach.induct)
  case (more s s')
  have others: "Critical \<notin> set (calls s b)" if "b \<noteq> main_thread" for b
  proof -
    obtain c where c: "holding s = (\<lambda>_. 0)(c := (if locked s then 1 else 0))"
      using lock_reach_inv_from [OF more.hyps(1) lock_reach_inv [OF lock_example_reach]]
      by (auto simp: lock_inv_def)
    have "holding s main_thread = 1" using more.IH by (auto simp: holding_def)
    then have "holding s b = 0" using c that by (auto split: if_split_asm)
    then show ?thesis by (auto simp: holding_def filter_empty_conv)
  qed
  from more.hyps(2) show ?case
  proof cases
    case (unlock a cs)
    then have "Critical \<in> set (calls s a)" by simp
    then have "a = main_thread" using others by blast
    then show ?thesis using unlock more.IH by auto
  qed (use more.IH in \<open>auto simp: spin_try_def compare_exchange_def spin_wait_def\<close>)
qed (simp add: lock_example_def)

end
