(* ===== verification/Spec2Isabelle.thy ===== *)
theory Spec2Isabelle
  imports NimbOS_Uintr NimbOS_Areas SCF_Properties SCF_Lock
begin

text \<open>
  A verification library for a system that runs NimbOS beside Linux on a processor with user
  interrupts: the emulator that provides the processor (\<^verbatim>\<open>src/qemu-uintr\<close>), the NimbOS
  kernel (\<^verbatim>\<open>src/nimbos\<close>) and the Linux side of the forwarded system calls
  (\<^verbatim>\<open>src/nimbos-driver\<close>).

  \<^bold>\<open>The program.\<close> A device raises a line of the i8259 pair or a pin of the I/O APIC. The I/O
  APIC turns the pin into a store in the message window of the local APICs, which record the
  vector and ask their processor to poll. The processor acknowledges the vector, finds the gate
  and enters the handler, reading descriptors and writing the frame through its page tables. A
  user interrupt is a second use of the same path: \<^verbatim>\<open>SENDUIPI\<close> posts a request in a descriptor
  in memory and sends the notification vector as an inter-processor interrupt; the receiver
  takes the posted requests over and enters the user handler without leaving user mode, and
  \<^verbatim>\<open>UIRET\<close> returns. NimbOS saves and restores the registers of this mechanism at every task
  switch. It forwards system calls to a Linux process over a queue in shared memory, guarded by
  a spin lock.

  \<^bold>\<open>Emulator.\<close>
  \<^item> \<^verbatim>\<open>Prelude\<close>: word types, memory as a function from addresses to bytes with the accessors of
    \<^verbatim>\<open>bswap.h\<close>, \<^verbatim>\<open>clz\<close>/\<^verbatim>\<open>ctz\<close> of \<^verbatim>\<open>host-utils.h\<close>, and \<^verbatim>\<open>outcome\<close>: a value, a raised exception,
    an exit to the SVM host, or undefined behaviour of C.
  \<^item> \<^verbatim>\<open>CPU_State\<close>, \<^verbatim>\<open>Machine\<close>: the fields of \<^verbatim>\<open>CPUX86State\<close> and \<^verbatim>\<open>CPUState\<close> in use, and the machine
    as one record. Operations name a processor, a local APIC or an I/O APIC by its index.
  \<^item> \<^verbatim>\<open>Vector_Bits\<close>, \<^verbatim>\<open>Local_APIC\<close>, \<^verbatim>\<open>APIC_Regs\<close>, \<^verbatim>\<open>APIC_Delivery\<close>: \<^verbatim>\<open>hw/intc/apic.c\<close> and
    \<^verbatim>\<open>apic_common.c\<close>. A 256-bit register is a list of eight words; \<open>vector_file\<close> is its contract as
    a set of vectors. Shown: what an acknowledge returns and changes, that a message reaches
    exactly the APICs it addresses, and that the well-formedness of all APICs is kept.
  \<^item> \<^verbatim>\<open>I8259\<close>, \<^verbatim>\<open>PIC_Wiring\<close>: \<^verbatim>\<open>i8259.c\<close> and its connection to the processors in \<^verbatim>\<open>x86.c\<close>. Shown:
    the priority search against its specification, the acknowledge and end-of-interrupt cycle,
    an invariant of every reachable state, and delivery of an edge to the processor.
  \<^item> \<^verbatim>\<open>IO_APIC\<close>, \<^verbatim>\<open>PC_Wiring\<close>, \<^verbatim>\<open>MSI_Route\<close>: \<^verbatim>\<open>ioapic.c\<close> and the two directions in which it and
    the local APICs call each other. The locale \<open>message_bus\<close> is what the I/O APIC needs of the
    bus, \<open>apic_environment\<close> what a local APIC needs of its surroundings; both are interpreted on
    the board. The mutual calls are followed to depth 258: each nested call needs a vector in
    service that the outer one has taken out, and there are 256 vectors, so 257 levels give the
    same result as any larger number (\<open>pc_hooks_enough\<close>).
  \<^item> \<^verbatim>\<open>MMU\<close>, \<^verbatim>\<open>Page_Walk\<close>: \<^verbatim>\<open>mmu_translate\<close> and its callers in \<^verbatim>\<open>excp_helper.c\<close>, for 32-bit, PAE,
    four- and five-level tables with nested paging. Shown: the result as a function of the
    entries on the path, page sizes and address bounds, the error code, the assertion at the
    end of the walk, and that memory changes by accessed and dirty bits only. A guest access
    translates on every use; the translation cache is not part of the state.
  \<^item> \<^verbatim>\<open>UINTR\<close>, \<^verbatim>\<open>UINTR_Delivery\<close>, \<^verbatim>\<open>Interrupt64\<close>, \<^verbatim>\<open>UINTR_Receive\<close>: the user-interrupt helpers in
    \<^verbatim>\<open>misc_helper.c\<close> and \<^verbatim>\<open>seg_helper.c\<close>, \<^verbatim>\<open>do_interrupt64\<close> and the hardware cases of
    \<^verbatim>\<open>x86_cpu_exec_interrupt\<close>. The locale \<open>stack_window\<close> is what entering a handler needs of the
    pages its frame goes to. Shown: posting, notification and coalescing, entry and return,
    the way from \<^verbatim>\<open>SENDUIPI\<close> on one processor to the handler on another, and that delivery
    through a gate never lowers privilege.

  \<^bold>\<open>NimbOS and its Linux side.\<close>
  \<^item> \<^verbatim>\<open>NimbOS_Context\<close>: \<^verbatim>\<open>context_switch\<close> of \<^verbatim>\<open>context.rs\<close> on the emulator's registers, with the
    emulator's \<^verbatim>\<open>rdmsr\<close> and \<^verbatim>\<open>wrmsr\<close> of the user-interrupt registers. Shown: a task that is
    switched out and in again has the registers it had, and where a new task starts.
  \<^item> \<^verbatim>\<open>SCF_Queue\<close>, \<^verbatim>\<open>SCF_Refine\<close>, \<^verbatim>\<open>SCF_Properties\<close>: \<^verbatim>\<open>scf/queue.rs\<close> and \<^verbatim>\<open>apps/libs/scf.c\<close>. The
    shared rings with free-running 16-bit indices refine two queues and a set of calls under
    way; the locale \<open>fifo_trace\<close> gives the order of both directions. The handler's loop ends
    because every round moves the kernel's index towards the published one.
  \<^item> \<^verbatim>\<open>SCF_Lock\<close>: the lock of that queue at the granularity of its atomic operations, with mutual
    exclusion and the deadlock of the signal handler.

  \<^bold>\<open>Not modelled.\<close> The instruction translator and its host code generator (\<^verbatim>\<open>translate.c\<close>,
  \<^verbatim>\<open>tcg/\<close>): the model begins at the helpers the generated code calls. The 16- and 32-bit
  interrupt paths, task gates, SMM and SVM intercepts. XSAVE, which copies through FPU state the
  model does not have. KVM and the other accelerators, behind host \<^verbatim>\<open>ioctl\<close>s. The other targets,
  devices and user interfaces of the emulator, which take no part in interrupt delivery.
  Migration tables, tracing and monitor output. The Linux kernel modules of the driver and of
  Jailhouse and the RVM1.5 hypervisor, whose work is \<^verbatim>\<open>mmap\<close>, hypercalls and VMX structures.
  Weak memory: the atomic operations and fences of lock and queue are taken as sequentially
  consistent.
\<close>

end
